(* ===== verification/Prelude.thy ===== *)
theory Prelude
  imports Complex_Main "HOL-Library.Sublist"
begin

text \<open>
  Shared ground of the development: the exceptions of the modelled Python code, programs as
  functions from a state to a result and a new state, the loop combinators that stand for
  Python's \<open>for\<close>, Hoare triples over such programs with one rule per combinator, the
  insertion-ordered dictionary of counters, and a few list lemmas.

  A program keeps the state it has reached when it raises, because the effects performed
  before a Python exception stay performed: that is what the failure policy of
  \<open>main.py\<close> is about.
\<close>

named_theorems hoare_rules "structural rules for triples"
named_theorems prog_defs "definitions of the program combinators"

section \<open>Exceptions and programs\<close>

text \<open>
  \<open>NoReturn\<close> is not a Python exception: it marks a loop that used up its fuel. No
  handler of the model catches it.
\<close>

datatype exn =
    PermanentFetchError string
  | RequestException string
  | RedisError string
  | ResponseError string
  | DatabaseError string
  | OSError string
  | JSONDecodeError
  | RateLimited rat
  | SearchUnavailable string
  | LangDetectException
  | ValueError string
  | TypeError string
  | AttributeError string
  | IndexError
  | KeyError string
  | ZeroDivisionError
  | OverflowError
  | RuntimeError string
  | SystemExit string
  | NoReturn

text \<open>Python's \<open>except Exception\<close>: \<open>SystemExit\<close> is not an \<open>Exception\<close>.\<close>

fun is_Exception :: "exn \<Rightarrow> bool" where
  "is_Exception NoReturn = False"
| "is_Exception (SystemExit _) = False"
| "is_Exception _ = True"

type_synonym ('s, 'a) prog = "'s \<Rightarrow> (exn + 'a) \<times> 's"

definition ret :: "'a \<Rightarrow> ('s, 'a) prog" where
  "ret x s = (Inr x, s)"

definition throw :: "exn \<Rightarrow> ('s, 'a) prog" where
  "throw e s = (Inl e, s)"

definition bindP :: "('s, 'a) prog \<Rightarrow> ('a \<Rightarrow> ('s, 'b) prog) \<Rightarrow> ('s, 'b) prog" where
  "bindP m f s = (case m s of (Inl e, s') \<Rightarrow> (Inl e, s') | (Inr x, s') \<Rightarrow> f x s')"

definition thenP :: "('s, 'a) prog \<Rightarrow> ('s, 'b) prog \<Rightarrow> ('s, 'b) prog" where
  "thenP m k = bindP m (\<lambda>_. k)"

text \<open>\<open>try: m / except (those with p): h\<close>.\<close>

definition tryP :: "('s, 'a) prog \<Rightarrow> (exn \<Rightarrow> bool) \<Rightarrow> (exn \<Rightarrow> ('s, 'a) prog) \<Rightarrow> ('s, 'a) prog" where
  "tryP m p h s = (case m s of
       (Inl e, s') \<Rightarrow> if p e then h e s' else (Inl e, s')
     | (Inr x, s') \<Rightarrow> (Inr x, s'))"

text \<open>\<open>try: m / finally: k\<close>: \<open>k\<close> runs on both ways out; its own exception wins.\<close>

definition finallyP :: "('s, 'a) prog \<Rightarrow> ('s, unit) prog \<Rightarrow> ('s, 'a) prog" where
  "finallyP m k s = (case m s of (r, s') \<Rightarrow>
     (case k s' of (Inl e, s'') \<Rightarrow> (Inl e, s'') | (Inr _, s'') \<Rightarrow> (r, s'')))"

definition liftE :: "exn + 'a \<Rightarrow> ('s, 'a) prog" where
  "liftE r s = (r, s)"

definition getP :: "('s \<Rightarrow> 'a) \<Rightarrow> ('s, 'a) prog" where
  "getP f s = (Inr (f s), s)"

definition updP :: "('s \<Rightarrow> 's) \<Rightarrow> ('s, unit) prog" where
  "updP f s = (Inr (), f s)"

fun foldP :: "('b \<Rightarrow> 'a \<Rightarrow> ('s, 'b) prog) \<Rightarrow> 'b \<Rightarrow> 'a list \<Rightarrow> ('s, 'b) prog" where
  "foldP f acc [] = ret acc"
| "foldP f acc (x # xs) = bindP (f acc x) (\<lambda>acc'. foldP f acc' xs)"

fun forP :: "('a \<Rightarrow> ('s, unit) prog) \<Rightarrow> 'a list \<Rightarrow> ('s, unit) prog" where
  "forP f [] = ret ()"
| "forP f (x # xs) = bindP (f x) (\<lambda>_. forP f xs)"

lemmas prog_simps [prog_defs] =
  ret_def throw_def bindP_def thenP_def tryP_def finallyP_def liftE_def getP_def updP_def

lemma bindP_ret [simp]: "bindP (ret x) f = f x"
  by (simp add: prog_defs fun_eq_iff)

lemma bindP_throw [simp]: "bindP (throw e) f = throw e"
  by (simp add: prog_defs fun_eq_iff)

lemma bindP_assoc: "bindP (bindP m f) g = bindP m (\<lambda>x. bindP (f x) g)"
  by (auto simp: prog_defs fun_eq_iff split: sum.splits prod.splits)

lemma bindP_Inr: "m s = (Inr x, s') \<Longrightarrow> bindP m f s = f x s'"
  by (simp add: bindP_def)

lemma bindP_Inl: "m s = (Inl e, s') \<Longrightarrow> bindP m f s = (Inl e, s')"
  by (simp add: bindP_def)

lemma bindP_eq_Inr:
  "bindP m f s = (Inr y, t) \<longleftrightarrow> (\<exists>x s'. m s = (Inr x, s') \<and> f x s' = (Inr y, t))"
  by (auto simp: bindP_def split: sum.splits prod.splits)

lemma foldP_append:
  "foldP f acc (xs @ ys) = bindP (foldP f acc xs) (\<lambda>acc'. foldP f acc' ys)"
  by (induction xs arbitrary: acc) (simp_all add: bindP_assoc)

section \<open>Triples\<close>

text \<open>
  \<open>triple P m Q E\<close>: from a state in \<open>P\<close> the program ends in \<open>Q\<close> with its value, or
  in \<open>E\<close> with its exception.
\<close>

definition triple :: "('s \<Rightarrow> bool) \<Rightarrow> ('s, 'a) prog \<Rightarrow> ('a \<Rightarrow> 's \<Rightarrow> bool) \<Rightarrow> (exn \<Rightarrow> 's \<Rightarrow> bool) \<Rightarrow> bool" where
  "triple P m Q E \<longleftrightarrow> (\<forall>s. P s \<longrightarrow> (case m s of (Inr x, s') \<Rightarrow> Q x s' | (Inl e, s') \<Rightarrow> E e s'))"

lemma tripleI:
  assumes "\<And>s x s'. P s \<Longrightarrow> m s = (Inr x, s') \<Longrightarrow> Q x s'"
    and "\<And>s e s'. P s \<Longrightarrow> m s = (Inl e, s') \<Longrightarrow> E e s'"
  shows "triple P m Q E"
  using assms by (auto simp: triple_def split: prod.splits sum.splits)

lemma tripleD:
  assumes "triple P m Q E" "P s"
  shows "m s = (Inr x, s') \<Longrightarrow> Q x s'" and "m s = (Inl e, s') \<Longrightarrow> E e s'"
  using assms by (auto simp: triple_def)

lemma triple_weaken:
  assumes "triple P m Q E" "\<And>s. P' s \<Longrightarrow> P s" "\<And>x s. Q x s \<Longrightarrow> Q' x s" "\<And>e s. E e s \<Longrightarrow> E' e s"
  shows "triple P' m Q' E'"
  using assms by (fastforce simp: triple_def split: prod.splits sum.splits)

lemma triple_ret: "(\<And>s. P s \<Longrightarrow> Q x s) \<Longrightarrow> triple P (ret x) Q E"
  by (simp add: triple_def ret_def)

lemma triple_throw: "(\<And>s. P s \<Longrightarrow> E e s) \<Longrightarrow> triple P (throw e) Q E"
  by (simp add: triple_def throw_def)

lemma triple_bind:
  assumes "triple P m R E" "\<And>x. triple (R x) (f x) Q E"
  shows "triple P (bindP m f) Q E"
  using assms by (fastforce simp: triple_def bindP_def split: prod.splits sum.splits)

lemma triple_fold:
  assumes "\<And>acc x. x \<in> set xs \<Longrightarrow> triple (I acc) (f acc x) I E"
  shows "triple (I acc) (foldP f acc xs) I E"
  using assms
  by (induction xs arbitrary: acc) (auto intro!: triple_ret intro: triple_bind)

text \<open>A loop whose every turn adds one to a measure adds the number of its turns.\<close>

lemma foldP_measure:
  fixes \<mu> :: "'b \<Rightarrow> nat"
  assumes "\<And>acc x s acc' s'. f acc x s = (Inr acc', s') \<Longrightarrow> \<mu> acc' = \<mu> acc + 1"
  shows "foldP f acc xs s = (Inr acc', s') \<Longrightarrow> \<mu> acc' = \<mu> acc + length xs"
proof (induction xs arbitrary: acc s)
  case Nil
  then show ?case by (simp add: ret_def)
next
  case (Cons x xs)
  then obtain acc1 s1 where "f acc x s = (Inr acc1, s1)" "foldP f acc1 xs s1 = (Inr acc', s')"
    by (auto simp: bindP_eq_Inr)
  with assms Cons.IH show ?case by fastforce
qed

section \<open>Insertion-ordered counters\<close>

text \<open>
  \<open>d[k] = d.get(k, 0) + n\<close> on a Python dictionary, which keeps the order of first
  insertion.
\<close>

fun bump :: "'k \<Rightarrow> nat \<Rightarrow> ('k \<times> nat) list \<Rightarrow> ('k \<times> nat) list" where
  "bump k n [] = [(k, n)]"
| "bump k n ((k', m) # d) = (if k = k' then (k', m + n) # d else (k', m) # bump k n d)"

definition total :: "('k \<times> nat) list \<Rightarrow> nat" where
  "total d = sum_list (map snd d)"

definition get0 :: "('k \<times> nat) list \<Rightarrow> 'k \<Rightarrow> nat" where
  "get0 d k = (case map_of d k of None \<Rightarrow> 0 | Some n \<Rightarrow> n)"

lemma total_Nil [simp]: "total [] = 0"
  by (simp add: total_def)

lemma total_bump [simp]: "total (bump k n d) = total d + n"
  by (induction k n d rule: bump.induct) (simp_all add: total_def)

lemma get0_Nil [simp]: "get0 [] k = 0"
  by (simp add: get0_def)

lemma get0_Cons: "get0 ((k', m) # d) k = (if k = k' then m else get0 d k)"
  by (simp add: get0_def)

lemma get0_bump [simp]: "get0 (bump k n d) k' = get0 d k' + (if k = k' then n else 0)"
  by (induction k n d rule: bump.induct) (auto simp: get0_Cons)

lemma keys_bump [simp]: "fst ` set (bump k n d) = insert k (fst ` set d)"
  by (induction k n d rule: bump.induct) (simp_all add: insert_commute split: if_split)

lemma distinct_bump [intro]: "distinct (map fst d) \<Longrightarrow> distinct (map fst (bump k n d))"
  by (induction k n d rule: bump.induct) (simp_all add: insert_commute split: if_split)

section \<open>Lists\<close>

lemma dropWhile_length_le: "length (dropWhile P xs) \<le> length xs"
  by (induction xs) auto

end
