(* ===== verification/PyStr.thy ===== *)
theory PyStr
  imports Prelude
begin

text \<open>
  Python strings, as far as the processor uses them. A \<open>str\<close> is a \<^typ>\<open>string\<close> whose
  characters are the code points below 256 (Latin-1); \<open>length\<close> is Python's \<open>len\<close>. On this
  range the character classes (\<open>isspace\<close>, \<open>isalnum\<close>, \<open>lower\<close>, line boundaries) are those
  of Python 3, written out by code point. Code points above 255 are outside the model.

  The operations are \<open>lower\<close>, \<open>strip\<close>, \<open>splitlines\<close>, \<open>split\<close> and \<open>rpartition\<close> on one
  character, \<open>partition\<close>, \<open>join\<close>, \<open>int()\<close>, \<open>float()\<close> and the decimal \<open>str()\<close> of an
  integer.
\<close>

named_theorems str_simps "rewriting of string operations"

section \<open>Characters\<close>

definition code :: "char \<Rightarrow> nat" where
  "code c = of_char c"

definition is_space :: "char \<Rightarrow> bool" where
  "is_space c \<longleftrightarrow> (let n = code c in
     9 \<le> n \<and> n \<le> 13 \<or> 28 \<le> n \<and> n \<le> 32 \<or> n = 133 \<or> n = 160)"

definition is_linebreak :: "char \<Rightarrow> bool" where
  "is_linebreak c \<longleftrightarrow> (let n = code c in
     10 \<le> n \<and> n \<le> 13 \<or> 28 \<le> n \<and> n \<le> 30 \<or> n = 133)"

definition is_digit :: "char \<Rightarrow> bool" where
  "is_digit c \<longleftrightarrow> 48 \<le> code c \<and> code c \<le> 57"

definition is_ascii_letter :: "char \<Rightarrow> bool" where
  "is_ascii_letter c \<longleftrightarrow> 65 \<le> code c \<and> code c \<le> 90 \<or> 97 \<le> code c \<and> code c \<le> 122"

text \<open>\<open>\w\<close> of the \<open>re\<close> module on \<open>str\<close>: \<open>isalnum()\<close> or the underscore.\<close>

definition is_word_char :: "char \<Rightarrow> bool" where
  "is_word_char c \<longleftrightarrow> is_ascii_letter c \<or> is_digit c \<or> (let n = code c in
     n = 95 \<or> n = 170 \<or> n = 178 \<or> n = 179 \<or> n = 181 \<or> n = 185 \<or> n = 186 \<or>
     188 \<le> n \<and> n \<le> 190 \<or> 192 \<le> n \<and> n \<noteq> 215 \<and> n \<noteq> 247)"

definition lower_char :: "char \<Rightarrow> char" where
  "lower_char c = (let n = code c in
     if 65 \<le> n \<and> n \<le> 90 \<or> 192 \<le> n \<and> n \<le> 222 \<and> n \<noteq> 215 then char_of (n + 32) else c)"

definition lower :: "string \<Rightarrow> string" where
  "lower s = map lower_char s"

definition lf :: char where
  "lf = CHR 0x0A"

lemma linebreak_space: "is_linebreak c \<Longrightarrow> is_space c"
  by (auto simp: is_linebreak_def is_space_def Let_def)

lemma code_char_of [simp]: "n < 256 \<Longrightarrow> code (char_of n) = n"
  by (simp add: code_def)

lemma code_less: "code c < 256"
  by (simp add: code_def)

lemma code_inject: "code c = code d \<longleftrightarrow> c = d"
  by (simp add: code_def)

lemma lower_char_idem [simp]: "lower_char (lower_char c) = lower_char c"
  using code_less [of c] by (auto simp: lower_char_def Let_def)

lemma lower_idem [simp]: "lower (lower s) = lower s"
  by (simp add: lower_def)

lemma length_lower [simp]: "length (lower s) = length s"
  by (simp add: lower_def)

section \<open>Stripping, splitting, joining\<close>

definition lstrip :: "string \<Rightarrow> string" where
  "lstrip s = dropWhile is_space s"

definition rstrip :: "string \<Rightarrow> string" where
  "rstrip s = rev (dropWhile is_space (rev s))"

definition strip :: "string \<Rightarrow> string" where
  "strip s = rstrip (lstrip s)"

text \<open>\<open>s.rstrip('/')\<close>\<close>

definition rstrip_char :: "char \<Rightarrow> string \<Rightarrow> string" where
  "rstrip_char c s = rev (dropWhile (\<lambda>d. d = c) (rev s))"

text \<open>\<open>splitlines()\<close>: the first argument is the line being collected, reversed.\<close>

fun splitlines_from :: "string \<Rightarrow> string \<Rightarrow> string list" where
  "splitlines_from cur [] = (if cur = [] then [] else [rev cur])"
| "splitlines_from cur [c] =
     (if is_linebreak c then [rev cur] else [rev (c # cur)])"
| "splitlines_from cur (c # d # s) =
     (if code c = 13 \<and> code d = 10 then rev cur # splitlines_from [] s
      else if is_linebreak c then rev cur # splitlines_from [] (d # s)
      else splitlines_from (c # cur) (d # s))"

definition splitlines :: "string \<Rightarrow> string list" where
  "splitlines s = splitlines_from [] s"

text \<open>\<open>s.split(c)\<close> for a one-character separator.\<close>

fun split_on :: "char \<Rightarrow> string \<Rightarrow> string list" where
  "split_on c [] = [[]]"
| "split_on c (d # s) =
     (if d = c then [] # split_on c s
      else (case split_on c s of [] \<Rightarrow> [[d]] | w # ws \<Rightarrow> (d # w) # ws))"

text \<open>\<open>sep.join(xs)\<close>\<close>

fun join :: "string \<Rightarrow> string list \<Rightarrow> string" where
  "join sep [] = []"
| "join sep [x] = x"
| "join sep (x # y # ys) = x @ sep @ join sep (y # ys)"

text \<open>\<open>s.partition(sep)\<close>: \<open>None\<close> when the separator does not occur.\<close>

fun partition :: "string \<Rightarrow> string \<Rightarrow> (string \<times> string) option" where
  "partition sep [] = (if sep = [] then Some ([], []) else None)"
| "partition sep (c # s) =
     (if prefix sep (c # s) then Some ([], drop (length sep) (c # s))
      else map_option (\<lambda>(a, b). (c # a, b)) (partition sep s))"

text \<open>\<open>s.rpartition(c)\<close> for one character: head and tail around the last occurrence.\<close>

definition rpartition :: "char \<Rightarrow> string \<Rightarrow> (string \<times> string) option" where
  "rpartition c s =
     (if c \<in> set s
      then Some (rev (tl (dropWhile (\<lambda>d. d \<noteq> c) (rev s))), rev (takeWhile (\<lambda>d. d \<noteq> c) (rev s)))
      else None)"

lemma lstrip_fixed: "lstrip s = s \<longleftrightarrow> s = [] \<or> \<not> is_space (hd s)"
proof (cases s)
  case (Cons a list)
  then show ?thesis
    using dropWhile_length_le [of is_space list]
    by (auto simp: lstrip_def dest: arg_cong [where f = length])
qed (simp add: lstrip_def)

lemma hd_lstrip: "lstrip s \<noteq> [] \<Longrightarrow> \<not> is_space (hd (lstrip s))"
  unfolding lstrip_def by (metis hd_dropWhile)

lemma last_rstrip: "rstrip s \<noteq> [] \<Longrightarrow> \<not> is_space (last (rstrip s))"
  unfolding rstrip_def by (metis hd_dropWhile last_rev rev_is_Nil_conv)

lemma rstrip_prefix: "prefix (rstrip s) s"
  unfolding rstrip_def prefix_def
  by (metis rev_append rev_rev_ident takeWhile_dropWhile_id)

lemma strip_ends:
  assumes "strip s \<noteq> []"
  shows "\<not> is_space (hd (strip s))" and "\<not> is_space (last (strip s))"
proof -
  show "\<not> is_space (last (strip s))"
    using assms last_rstrip by (auto simp: strip_def)
  have "prefix (strip s) (lstrip s)"
    by (simp add: strip_def rstrip_prefix)
  then have "hd (strip s) = hd (lstrip s)" and "lstrip s \<noteq> []"
    using assms by (auto simp: prefix_def)
  then show "\<not> is_space (hd (strip s))"
    using hd_lstrip by simp
qed

lemma strip_fixedI: "s = [] \<or> (\<not> is_space (hd s) \<and> \<not> is_space (last s)) \<Longrightarrow> strip s = s"
proof (cases s rule: rev_cases)
  case (snoc ys y)
  assume "s = [] \<or> (\<not> is_space (hd s) \<and> \<not> is_space (last s))"
  with snoc have "lstrip s = s" "\<not> is_space y"
    by (auto simp: lstrip_fixed)
  with snoc show ?thesis by (simp add: strip_def rstrip_def)
qed (simp add: strip_def lstrip_def rstrip_def)

lemma strip_idem [simp]: "strip (strip s) = strip s"
  by (rule strip_fixedI) (metis strip_ends)

lemma strip_Nil [simp]: "strip [] = []"
  by (simp add: strip_def lstrip_def rstrip_def)

lemma length_strip_le: "length (strip s) \<le> length s"
proof -
  have "length (rstrip t) \<le> length t" for t
    using rstrip_prefix prefix_length_le by blast
  then show ?thesis
    unfolding strip_def lstrip_def
    by (metis dropWhile_length_le order_trans)
qed

lemma strip_lstrip_append:
  "list_all is_space a \<Longrightarrow> strip (a @ s) = strip s"
  by (simp add: strip_def lstrip_def list_all_iff)

lemma strip_rstrip_append:
  assumes "list_all is_space b"
  shows "strip (s @ b) = strip s"
proof -
  have all: "\<forall>x \<in> set b. is_space x" using assms by (simp add: list_all_iff)
  have rs: "rstrip (t @ b) = rstrip t" for t
    using all dropWhile_append2 [of "rev b" is_space "rev t"] by (auto simp: rstrip_def)
  show ?thesis
  proof (cases "\<forall>x \<in> set s. is_space x")
    case True
    then have "dropWhile is_space b = []" "dropWhile is_space s = []"
      "dropWhile is_space (s @ b) = []"
      using all by (simp_all add: dropWhile_eq_Nil_conv)
    then show ?thesis by (simp only: strip_def lstrip_def)
  next
    case False
    then obtain x where "x \<in> set s" "\<not> is_space x" by auto
    then have "lstrip (s @ b) = lstrip s @ b"
      by (simp add: lstrip_def dropWhile_append1)
    then show ?thesis by (simp add: strip_def rs)
  qed
qed

lemma length_join:
  "length (join sep xs) = sum_list (map length xs) + length sep * (length xs - 1)"
  by (induction sep xs rule: join.induct) auto

lemma join_Cons: "join sep (x # xs) = (if xs = [] then x else x @ sep @ join sep xs)"
  by (cases xs) auto

lemma join_snoc: "join sep (xs @ [x]) = (if xs = [] then x else join sep xs @ sep @ x)"
  by (induction xs) (auto simp: join_Cons)

lemma partition_Some_append:
  "partition sep s = Some (a, b) \<Longrightarrow> s = a @ sep @ b"
  by (induction s arbitrary: a b) (auto split: if_splits simp: prefix_def)

lemma split_on_nonempty [simp]: "split_on c s \<noteq> []"
  by (cases s) (auto split: list.splits)

lemma join_split_on: "join [c] (split_on c s) = s"
proof (induction s)
  case Nil
  then show ?case by simp
next
  case (Cons d s)
  show ?case
  proof (cases "split_on c s")
    case Nil
    then show ?thesis by simp
  next
    case (Cons w ws)
    with Cons.IH show ?thesis by (auto simp: join_Cons)
  qed
qed

lemma split_on_no_sep: "w \<in> set (split_on c s) \<Longrightarrow> c \<notin> set w"
  by (induction s arbitrary: w) (auto split: if_splits list.splits)

lemma rpartition_Some:
  assumes "rpartition c s = Some (a, b)"
  shows "s = a @ [c] @ b" and "c \<notin> set b"
proof -
  let ?r = "rev s"
  have c: "c \<in> set s"
    and a: "a = rev (tl (dropWhile (\<lambda>d. d \<noteq> c) ?r))"
    and b: "b = rev (takeWhile (\<lambda>d. d \<noteq> c) ?r)"
    using assms by (auto simp: rpartition_def split: if_splits)
  have ne: "dropWhile (\<lambda>d. d \<noteq> c) ?r \<noteq> []" using c by auto
  then have "hd (dropWhile (\<lambda>d. d \<noteq> c) ?r) = c"
    using hd_dropWhile [OF ne] by simp
  then have "?r = takeWhile (\<lambda>d. d \<noteq> c) ?r @ [c] @ tl (dropWhile (\<lambda>d. d \<noteq> c) ?r)"
    using ne by (metis append_Cons append_Nil list.collapse takeWhile_dropWhile_id)
  then have "rev ?r = a @ [c] @ b"
    unfolding a b by (metis append.assoc rev_append rev_singleton_conv)
  then show "s = a @ [c] @ b" by simp
  show "c \<notin> set b" unfolding b using set_takeWhileD by fastforce
qed

section \<open>Numbers\<close>

text \<open>
  The digits of \<open>int()\<close>: single underscores may stand between digits. The flag says
  whether the last character was a digit.
\<close>

fun digits_from :: "nat \<Rightarrow> bool \<Rightarrow> string \<Rightarrow> nat option" where
  "digits_from n ok [] = (if ok then Some n else None)"
| "digits_from n ok (c # s) =
     (if is_digit c then digits_from (10 * n + (code c - 48)) True s
      else if c = CHR ''_'' \<and> ok then digits_from n False s
      else None)"

text \<open>
  The blanks \<open>int()\<close> and \<open>float()\<close> accept around a number: those of \<open>isspace\<close> but for
  the four separators below 32.
\<close>

definition is_num_space :: "char \<Rightarrow> bool" where
  "is_num_space c \<longleftrightarrow> is_space c \<and> \<not> (28 \<le> code c \<and> code c \<le> 31)"

definition num_strip :: "string \<Rightarrow> string" where
  "num_strip s = rev (dropWhile is_num_space (rev (dropWhile is_num_space s)))"

definition py_int :: "string \<Rightarrow> int option" where
  "py_int s = (case num_strip s of
     [] \<Rightarrow> None
   | c # t \<Rightarrow>
       if c = CHR ''-'' then map_option (\<lambda>n. - int n) (digits_from 0 False t)
       else if c = CHR ''+'' then map_option int (digits_from 0 False t)
       else map_option int (digits_from 0 False (c # t)))"

fun show_nat :: "nat \<Rightarrow> string" where
  "show_nat n = (if n < 10 then [char_of (48 + n)]
                 else show_nat (n div 10) @ [char_of (48 + n mod 10)])"

declare show_nat.simps [simp del]

definition show_int :: "int \<Rightarrow> string" where
  "show_int i = (if i < 0 then CHR ''-'' # show_nat (nat (- i)) else show_nat (nat i))"

text \<open>
  \<open>float()\<close>: the value is exact; rounding to the nearest double and overflow to infinity
  of huge exponents are not modelled.
\<close>

datatype py_float = Fin rat | PInf | NInf | NaN

fun underscores_ok :: "bool \<Rightarrow> string \<Rightarrow> bool" where
  "underscores_ok d [] = True"
| "underscores_ok d (c # s) =
     (if c = CHR ''_''
      then d \<and> (case s of [] \<Rightarrow> False | e # _ \<Rightarrow> is_digit e) \<and> underscores_ok False s
      else underscores_ok (is_digit c) s)"

definition digits_value :: "string \<Rightarrow> nat" where
  "digits_value s = foldl (\<lambda>n c. 10 * n + (code c - 48)) 0 s"

definition parse_exponent :: "string \<Rightarrow> rat option" where
  "parse_exponent s = (case s of
     [] \<Rightarrow> Some 1
   | c # t \<Rightarrow>
       if c = CHR ''e'' \<or> c = CHR ''E'' then
         (let neg = (case t of d # _ \<Rightarrow> d = CHR ''-'' | [] \<Rightarrow> False);
              ds = (case t of d # u \<Rightarrow> if d = CHR ''-'' \<or> d = CHR ''+'' then u else t | [] \<Rightarrow> [])
          in if ds \<noteq> [] \<and> list_all is_digit ds
             then Some (if neg then 1 / 10 ^ digits_value ds else 10 ^ digits_value ds)
             else None)
       else None)"

definition parse_decimal :: "string \<Rightarrow> rat option" where
  "parse_decimal s =
     (let ip = takeWhile is_digit s; r = dropWhile is_digit s;
          dot = (case r of c # _ \<Rightarrow> c = CHR ''.'' | [] \<Rightarrow> False);
          fp = (if dot then takeWhile is_digit (tl r) else []);
          r' = (if dot then dropWhile is_digit (tl r) else r)
      in if ip = [] \<and> fp = [] then None
         else map_option (\<lambda>e. rat_of_nat (digits_value (ip @ fp)) / 10 ^ length fp * e)
                (parse_exponent r'))"

definition py_float :: "string \<Rightarrow> py_float option" where
  "py_float s =
     (let t = num_strip s;
          neg = (case t of c # _ \<Rightarrow> c = CHR ''-'' | [] \<Rightarrow> False);
          u = (case t of c # r \<Rightarrow> if c = CHR ''-'' \<or> c = CHR ''+'' then r else t | [] \<Rightarrow> []);
          l = lower u
      in if l = ''inf'' \<or> l = ''infinity'' then Some (if neg then NInf else PInf)
         else if l = ''nan'' then Some NaN
         else if \<not> underscores_ok False u then None
         else map_option (\<lambda>x. Fin (if neg then - x else x))
                (parse_decimal (filter (\<lambda>c. c \<noteq> CHR ''_'') u)))"

lemma digit_char [simp]:
  fixes d :: nat
  assumes "d < 10"
  shows "is_digit (char_of (48 + d))" and "code (char_of (48 + d)) = 48 + d"
  using assms by (simp_all add: is_digit_def)

lemma show_nat_digits: "list_all is_digit (show_nat n)"
proof (induction n rule: show_nat.induct)
  case (1 n)
  then show ?case
    by (subst show_nat.simps) (auto simp: list_all_iff)
qed

lemma show_nat_nonempty [simp]: "show_nat n \<noteq> []"
  by (subst show_nat.simps) simp

lemma digits_from_show_nat:
  "digits_from a ok (show_nat n @ t) = digits_from (a * 10 ^ length (show_nat n) + n) True t"
proof (induction n arbitrary: t rule: show_nat.induct)
  case (1 n)
  show ?case
  proof (cases "n < 10")
    case True
    then show ?thesis by (simp add: show_nat.simps [of n] mult.commute)
  next
    case False
    let ?d = "char_of (48 + n mod 10)"
    have "digits_from a ok (show_nat n @ t)
        = digits_from (a * 10 ^ length (show_nat (n div 10)) + n div 10) True (?d # t)"
      using False "1.IH" by (simp add: show_nat.simps [of n])
    also have "\<dots> = digits_from (a * 10 ^ length (show_nat n) + n) True t"
      using False by (simp add: show_nat.simps [of n] algebra_simps)
    finally show ?thesis .
  qed
qed

lemma digit_not_space: "is_digit c \<Longrightarrow> \<not> is_space c"
  by (auto simp: is_digit_def is_space_def Let_def)

lemma num_strip_fixedI:
  assumes "\<not> is_num_space (hd s)" "\<not> is_num_space (last s)"
  shows "num_strip s = s"
proof (cases s rule: rev_cases)
  case (snoc ys y)
  have "dropWhile is_num_space s = s"
    using assms(1) by (cases s) (simp_all add: snoc)
  with snoc assms(2) show ?thesis by (simp add: num_strip_def)
qed (simp add: num_strip_def)

lemma digit_not_num_space: "is_digit c \<Longrightarrow> \<not> is_num_space c"
  by (simp add: is_num_space_def digit_not_space)

lemma strip_show_nat [simp]: "num_strip (show_nat n) = show_nat n"
proof (rule num_strip_fixedI)
  have "hd (show_nat n) \<in> set (show_nat n)" "last (show_nat n) \<in> set (show_nat n)"
    by simp_all
  then show "\<not> is_num_space (hd (show_nat n))" "\<not> is_num_space (last (show_nat n))"
    using show_nat_digits [of n] by (auto simp: list_all_iff digit_not_num_space)
qed

lemma digit_not_sign: "is_digit c \<Longrightarrow> c \<noteq> CHR ''-'' \<and> c \<noteq> CHR ''+''"
  by (auto simp: is_digit_def code_def)

theorem py_int_show_int: "py_int (show_int i) = Some i"
proof (cases "i < 0")
  case True
  have "num_strip (CHR ''-'' # show_nat n) = CHR ''-'' # show_nat n" for n
  proof (rule num_strip_fixedI)
    have "last (show_nat n) \<in> set (show_nat n)" by simp
    then show "\<not> is_num_space (last (CHR ''-'' # show_nat n))"
      using show_nat_digits [of n] by (simp add: list_all_iff digit_not_num_space)
  qed (simp add: is_num_space_def is_space_def code_def)
  then show ?thesis
    using True digits_from_show_nat [of 0 False _ "[]"]
    by (simp add: py_int_def show_int_def)
next
  case False
  obtain c t where ct: "show_nat (nat i) = c # t"
    by (cases "show_nat (nat i)") auto
  then have "is_digit c" using show_nat_digits [of "nat i"] by simp
  then have "py_int (show_nat (nat i)) = map_option int (digits_from 0 False (show_nat (nat i)))"
    using ct strip_show_nat [of "nat i"] digit_not_sign [of c] by (simp add: py_int_def)
  then show ?thesis
    using False digits_from_show_nat [of 0 False "nat i" "[]"] by (simp add: show_int_def)
qed

end
