(* ===== verification/Effects.thy ===== *)
theory Effects
  imports PyStr
begin

text \<open>
  The outside world of the processor: Redis, PostgreSQL, the HTTP servers, the clock, the
  random generator, the HTML extractor and the language detector. None of it is code of the
  repository, so none of it is defined here. A program makes calls, each a value of
  \<open>cmd\<close>; the environment, a parameter \<open>env\<close> of every definition that makes calls,
  answers each with a \<open>reply\<close> that may depend on everything that happened before. A
  failing call answers \<open>Fail e\<close>, which raises \<open>e\<close>. The calls and replies are recorded
  in the \<open>trace\<close> of the state, so that what the program does, and in which order, can
  be stated.

  What a theorem needs of a service is a named predicate on \<open>env\<close>, stated where the
  service is used.
\<close>

section \<open>Messages, articles and rows\<close>

text \<open>
  The payload of a stream message, as \<open>json.loads\<close> returns it: not JSON at all, JSON that
  is no object, or an object with the fields of the crawler's record. \<open>None\<close> is an absent
  key. The tags may be present and \<open>null\<close> (a nil slice of the Go producer).
\<close>

record article =
  a_url :: "string option"
  a_title :: "string option"
  a_author :: "string option"
  a_published_at :: "string option"
  a_tags :: "string list option option"
  a_source_type :: "string option"
  a_content_md :: "string option"

datatype payload = NotJson | NotObject | Obj article

type_synonym fields = "(string \<times> string) list"
type_synonym message = "string \<times> fields"

text \<open>A row for \<open>insert_articles\<close>, in the order of its columns.\<close>

record row =
  r_url :: string
  r_url_hash :: string
  r_title :: "string option"
  r_content :: string
  r_author :: "string option"
  r_published_at :: "string option"
  r_tags :: "string list option"
  r_source :: string
  r_lang :: string
  r_hash :: int
  r_score :: rat

text \<open>
  A row of the table \<open>articles\<close>, of which a query selects some columns (\<open>None\<close> is SQL's
  NULL, time stamps are in ISO format), and one of \<open>article_chunks\<close>, which is also the
  object of a line of the chunk files.
\<close>

record art_row =
  t_id :: int
  t_url :: string
  t_title :: "string option"
  t_content :: "string option"
  t_author :: "string option"
  t_published :: "string option"
  t_tags :: "string list option"
  t_source :: "string option"
  t_lang :: "string option"
  t_score :: "rat option"
  t_crawled :: "string option"
  t_hash :: "int option"

record chunk_row =
  k_id :: string
  k_article :: int
  k_url :: string
  k_title :: "string option"
  k_path :: "string list"
  k_index :: nat
  k_n :: nat
  k_text :: string
  k_tags :: "string list"
  k_source :: "string option"
  k_lang :: "string option"
  k_published :: "string option"
  k_score :: "rat option"

text \<open>
  A row of \<open>pipeline_snapshots\<close>; the last column is the text of its JSON object, \<open>None\<close> when it
  is no object.
\<close>

record snap_row =
  n_taken :: string
  n_produced :: int
  n_stored :: int
  n_pending :: int
  n_dlq :: int
  n_by_source :: "string option"

type_synonym vec = "rat list"

text \<open>A statement's parameter.\<close>

datatype param = PNone | PInt int | PNum rat | PText string | PTexts "string list"

text \<open>
  The pure library functions the processor calls; \<open>is_ip\<close> is the check of a bracketed host
  by the \<open>ipaddress\<close> module, and \<open>completion n\<close> the order in which the \<open>n\<close> futures
  of a thread pool finish.
\<close>

record lib =
  json_loads :: "string \<Rightarrow> payload"
  json_dumps :: "article \<Rightarrow> string"
  sha256_hex :: "string \<Rightarrow> string"
  blake2b8 :: "string \<Rightarrow> nat list"
  is_ip :: "string \<Rightarrow> bool"
  completion :: "nat \<Rightarrow> nat list"

section \<open>Calls and replies\<close>

datatype cmd =
    Smembers string
  | Sismember string string
  | Sadd string string
  | Expire string int
  | Exists string
  | SetKey string string
  | Incr string
  | Incrby string int
  | Hincrby string string nat
  | Xadd string "int option" fields
  | Xack string string "string list"
  | XpendingRange string string nat string
  | XreadNew string string string nat int
  | XreadPending string string string nat
  | Xrange string "nat option"
  | Xdel string string
  | Xlen string
  | XgroupCreate string string
  | OpenPool nat nat string
  | GetConn
  | PutConn bool
  | Rollback
  | Commit
  | ExecuteValues "row list" nat
  | Rowcount
  | SelectContentHashes
  | HttpGet string int
  | Monotonic
  | Sleep rat
  | Uniform rat rat
  | Extract string
  | Detect string
  | DateDelta string
  | Now
  | Get string
  | Hgetall string
  | Xpending string string
  | Connect string
  | CloseConn
  | Query string "param list"
  | Execute string "param list"
  | ExecuteBatch string "param list list" nat
  | CopyIn string string
  | FileExists string
  | FileRead string
  | FileOpen string string
  | FileWrite string string
  | FileReplace string string
  | NpzLoad string
  | NpzSave string "string list" "vec list"
  | Post string string string "string list" int

datatype reply =
    Fail exn
  | Done
  | Null
  | Num int
  | Txt string
  | Texts "string list"
  | Batches "(string \<times> message list) list"
  | Messages "message list"
  | Hashes "int option list"
  | Response nat "string option" string
  | Time rat
  | Pairs "(string \<times> string) list"
  | ArtRows "art_row list"
  | ChunkRows "(chunk_row \<times> rat) list"
  | Counts "int list list"
  | Labels "(string option \<times> int) list"
  | Archive "string list" "vec list"
  | Embedded "(int \<times> vec) list"
  | Snapshots "snap_row list"

type_synonym event = "cmd \<times> reply"
type_synonym env = "event list \<Rightarrow> cmd \<Rightarrow> reply"

record world =
  trace :: "event list"

definition call :: "env \<Rightarrow> cmd \<Rightarrow> ('z world_scheme, reply) prog" where
  "call env c s =
     (let r = env (trace s) c; s' = s\<lparr>trace := trace s @ [(c, r)]\<rparr>
      in (case r of Fail e \<Rightarrow> (Inl e, s') | _ \<Rightarrow> (Inr r, s')))"

text \<open>
  A reply of a shape the caller does not expect is a \<open>TypeError\<close>, as it would be where the
  Python uses it.
\<close>

definition bad_reply :: exn where
  "bad_reply = TypeError ''unexpected reply''"

definition call_unit :: "env \<Rightarrow> cmd \<Rightarrow> ('z world_scheme, unit) prog" where
  "call_unit env c = bindP (call env c) (\<lambda>_. ret ())"

definition call_num :: "env \<Rightarrow> cmd \<Rightarrow> ('z world_scheme, int) prog" where
  "call_num env c = bindP (call env c) (\<lambda>r. case r of Num i \<Rightarrow> ret i | _ \<Rightarrow> throw bad_reply)"

definition call_texts :: "env \<Rightarrow> cmd \<Rightarrow> ('z world_scheme, string list) prog" where
  "call_texts env c = bindP (call env c) (\<lambda>r. case r of Texts ts \<Rightarrow> ret ts | _ \<Rightarrow> throw bad_reply)"

definition call_text :: "env \<Rightarrow> cmd \<Rightarrow> ('z world_scheme, string) prog" where
  "call_text env c = bindP (call env c) (\<lambda>r. case r of Txt t \<Rightarrow> ret t | _ \<Rightarrow> throw bad_reply)"

definition call_time :: "env \<Rightarrow> cmd \<Rightarrow> ('z world_scheme, rat) prog" where
  "call_time env c = bindP (call env c) (\<lambda>r. case r of Time t \<Rightarrow> ret t | _ \<Rightarrow> throw bad_reply)"

definition call_articles :: "env \<Rightarrow> cmd \<Rightarrow> ('z world_scheme, art_row list) prog" where
  "call_articles env c = bindP (call env c) (\<lambda>r. case r of ArtRows rs \<Rightarrow> ret rs | _ \<Rightarrow> throw bad_reply)"

definition call_pairs :: "env \<Rightarrow> cmd \<Rightarrow> ('z world_scheme, (string \<times> string) list) prog" where
  "call_pairs env c = bindP (call env c) (\<lambda>r. case r of Pairs ps \<Rightarrow> ret ps | _ \<Rightarrow> throw bad_reply)"

text \<open>
  \<open>pipe.execute()\<close> of a pipeline without transaction: every queued command is sent and
  executed, then the first failure, if any, is raised.
\<close>

fun pipe_execute :: "env \<Rightarrow> cmd list \<Rightarrow> ('z world_scheme, unit) prog" where
  "pipe_execute env [] = ret ()"
| "pipe_execute env (c # cs) =
     (\<lambda>s. case call env c s of
        (Inl e, s') \<Rightarrow> (Inl e, snd (pipe_execute env cs s'))
      | (Inr _, s') \<Rightarrow> pipe_execute env cs s')"

section \<open>What a program emits\<close>

text \<open>\<open>emits P m\<close>: \<open>m\<close> only extends the trace, with events that satisfy \<open>P\<close>.\<close>

definition emits :: "(event \<Rightarrow> bool) \<Rightarrow> ('z world_scheme, 'a) prog \<Rightarrow> bool" where
  "emits P m \<longleftrightarrow> (\<forall>s. \<exists>es. trace (snd (m s)) = trace s @ es \<and> list_all P es)"

named_theorems emits_rules "what the combinators emit"

lemma emitsD: "emits P m \<Longrightarrow> m s = (r, s') \<Longrightarrow> \<exists>es. trace s' = trace s @ es \<and> list_all P es"
  by (metis emits_def snd_conv)

lemma emits_mono: "emits P m \<Longrightarrow> (\<And>e. P e \<Longrightarrow> Q e) \<Longrightarrow> emits Q m"
  unfolding emits_def by (metis list_all_iff)

lemma emits_ret [emits_rules]: "emits P (ret x)"
  by (simp add: emits_def ret_def)

lemma emits_throw [emits_rules]: "emits P (throw e)"
  by (simp add: emits_def throw_def)

lemma emits_liftE [emits_rules]: "emits P (liftE r)"
  by (simp add: emits_def liftE_def)

lemma emits_getP [emits_rules]: "emits P (getP f)"
  by (simp add: emits_def getP_def)

lemma emits_updP [emits_rules]: "(\<And>s. trace (f s) = trace s) \<Longrightarrow> emits P (updP f)"
  by (simp add: emits_def updP_def)

lemma emits_bind [emits_rules]:
  assumes "emits P m" "\<And>x. emits P (f x)"
  shows "emits P (bindP m f)"
  unfolding emits_def
proof
  fix s
  obtain r s1 where m: "m s = (r, s1)" by (cases "m s")
  then obtain es where es: "trace s1 = trace s @ es" "list_all P es"
    using emitsD [OF assms(1)] by blast
  show "\<exists>es. trace (snd (bindP m f s)) = trace s @ es \<and> list_all P es"
  proof (cases r)
    case (Inl e)
    with m es show ?thesis by (auto simp: bindP_def)
  next
    case (Inr x)
    obtain r2 s2 where f: "f x s1 = (r2, s2)" by (cases "f x s1")
    then obtain es2 where "trace s2 = trace s1 @ es2" "list_all P es2"
      using emitsD [OF assms(2)] by blast
    with m Inr f es show ?thesis by (intro exI [of _ "es @ es2"]) (simp add: bindP_def)
  qed
qed

lemma emits_then [emits_rules]: "emits P m \<Longrightarrow> emits P k \<Longrightarrow> emits P (thenP m k)"
  by (simp add: thenP_def emits_bind)

lemma emits_try [emits_rules]:
  assumes "emits P m" "\<And>e. emits P (h e)"
  shows "emits P (tryP m p h)"
  unfolding emits_def
proof
  fix s
  obtain r s1 where m: "m s = (r, s1)" by (cases "m s")
  then obtain es where es: "trace s1 = trace s @ es" "list_all P es"
    using emitsD [OF assms(1)] by blast
  show "\<exists>es. trace (snd (tryP m p h s)) = trace s @ es \<and> list_all P es"
  proof (cases "\<exists>e. r = Inl e \<and> p e")
    case False
    with m es show ?thesis by (cases r) (auto simp: tryP_def)
  next
    case True
    then obtain e where e: "r = Inl e" "p e" by auto
    obtain r2 s2 where h: "h e s1 = (r2, s2)" by (cases "h e s1")
    then obtain es2 where "trace s2 = trace s1 @ es2" "list_all P es2"
      using emitsD [OF assms(2)] by blast
    with m e h es show ?thesis by (intro exI [of _ "es @ es2"]) (simp add: tryP_def)
  qed
qed

lemma emits_fold [emits_rules]:
  "(\<And>acc x. x \<in> set xs \<Longrightarrow> emits P (f acc x)) \<Longrightarrow> emits P (foldP f acc xs)"
  by (induction xs arbitrary: acc) (auto intro: emits_rules)

lemma emits_for [emits_rules]: "(\<And>x. x \<in> set xs \<Longrightarrow> emits P (f x)) \<Longrightarrow> emits P (forP f xs)"
  by (induction xs) (auto intro: emits_rules)

lemma call_trace: "trace (snd (call env c s)) = trace s @ [(c, env (trace s) c)]"
  by (simp add: call_def Let_def split: reply.split)

lemma emits_call [emits_rules]: "(\<And>r. P (c, r)) \<Longrightarrow> emits P (call env c)"
  by (simp add: emits_def call_trace)

lemma emits_calls [emits_rules]:
  assumes "\<And>r. P (c, r)"
  shows "emits P (call_unit env c)" "emits P (call_num env c)" "emits P (call_texts env c)"
    "emits P (call_text env c)" "emits P (call_time env c)"
  using assms unfolding call_unit_def call_num_def call_texts_def call_text_def call_time_def
  by (auto intro!: emits_rules split: reply.split)

lemma emits_more_calls [emits_rules]:
  assumes "\<And>r. P (c, r)"
  shows "emits P (call_articles env c)" "emits P (call_pairs env c)"
  using assms unfolding call_articles_def call_pairs_def
  by (auto intro!: emits_rules split: reply.split)

lemma emits_finally [emits_rules]:
  assumes "emits P m" "emits P k"
  shows "emits P (finallyP m k)"
  unfolding emits_def
proof
  fix s
  obtain r s1 where m: "m s = (r, s1)" by (cases "m s")
  then obtain es where es: "trace s1 = trace s @ es" "list_all P es"
    using emitsD [OF assms(1)] by blast
  obtain r2 s2 where k: "k s1 = (r2, s2)" by (cases "k s1")
  then obtain es2 where "trace s2 = trace s1 @ es2" "list_all P es2"
    using emitsD [OF assms(2)] by blast
  with m es k show "\<exists>es. trace (snd (finallyP m k s)) = trace s @ es \<and> list_all P es"
    by (intro exI [of _ "es @ es2"]) (simp add: finallyP_def split: sum.split)
qed

lemma emits_pipe [emits_rules]:
  "(\<And>c r. c \<in> set cs \<Longrightarrow> P (c, r)) \<Longrightarrow>
   emits P (pipe_execute env cs :: ('z world_scheme, unit) prog)"
proof (induction cs)
  case Nil
  then show ?case by (simp add: emits_rules)
next
  case (Cons c cs)
  have IH: "emits P (pipe_execute env cs :: ('z world_scheme, unit) prog)" using Cons by simp
  show ?case
    unfolding emits_def
  proof
    fix s :: "'z world_scheme"
    obtain r s1 where c: "call env c s = (r, s1)" by (cases "call env c s")
    have "trace s1 = trace s @ [(c, env (trace s) c)]"
      using call_trace [of env c s] c by simp
    moreover obtain es where "trace (snd (pipe_execute env cs s1)) = trace s1 @ es" "list_all P es"
      using IH by (auto simp: emits_def)
    ultimately show "\<exists>es. trace (snd (pipe_execute env (c # cs) s)) = trace s @ es \<and> list_all P es"
      using Cons.prems c by (intro exI [of _ "(c, env (trace s) c) # es"]) (auto split: sum.split)
  qed
qed

section \<open>How often\<close>

text \<open>\<open>at_most P n m\<close>: \<open>m\<close> adds at most \<open>n\<close> events that satisfy \<open>P\<close>.\<close>

definition occurrences :: "(event \<Rightarrow> bool) \<Rightarrow> event list \<Rightarrow> nat" where
  "occurrences P tr = length (filter P tr)"

definition at_most :: "(event \<Rightarrow> bool) \<Rightarrow> nat \<Rightarrow> ('z world_scheme, 'a) prog \<Rightarrow> bool" where
  "at_most P n m \<longleftrightarrow> (\<forall>s. occurrences P (trace (snd (m s))) \<le> occurrences P (trace s) + n)"

lemma at_mostD: "at_most P n m \<Longrightarrow> m s = (r, s') \<Longrightarrow>
  occurrences P (trace s') \<le> occurrences P (trace s) + n"
  by (metis at_most_def snd_conv)

lemma at_most_mono: "at_most P n m \<Longrightarrow> n \<le> k \<Longrightarrow> at_most P k m"
  unfolding at_most_def by (meson add_left_mono order_trans)

lemma at_most_emits: "emits (\<lambda>e. \<not> P e) m \<Longrightarrow> at_most P n m"
  unfolding at_most_def
proof
  fix s
  assume "emits (\<lambda>e. \<not> P e) m"
  then obtain es where "trace (snd (m s)) = trace s @ es" "list_all (\<lambda>e. \<not> P e) es"
    unfolding emits_def by blast
  moreover from this have "filter P es = []" by (simp add: filter_empty_conv list_all_iff)
  ultimately show "occurrences P (trace (snd (m s))) \<le> occurrences P (trace s) + n"
    by (simp add: occurrences_def)
qed

lemma at_most_call: "at_most P 1 (call env c)"
  by (simp add: at_most_def call_trace occurrences_def)

lemma at_most_bind:
  assumes "at_most P n m" "\<And>x. at_most P k (f x)"
  shows "at_most P (n + k) (bindP m f)"
  unfolding at_most_def
proof
  fix s
  obtain r s1 where m: "m s = (r, s1)" by (cases "m s")
  then have 1: "occurrences P (trace s1) \<le> occurrences P (trace s) + n"
    using at_mostD [OF assms(1)] by blast
  show "occurrences P (trace (snd (bindP m f s))) \<le> occurrences P (trace s) + (n + k)"
  proof (cases r)
    case (Inl e)
    with m 1 show ?thesis by (simp add: bindP_def)
  next
    case (Inr x)
    have "occurrences P (trace (snd (f x s1))) \<le> occurrences P (trace s1) + k"
      using assms(2) by (simp add: at_most_def)
    with m Inr 1 show ?thesis by (simp add: bindP_def)
  qed
qed

lemma at_most_try:
  assumes "at_most P n m" "\<And>e. at_most P k (h e)"
  shows "at_most P (n + k) (tryP m p h)"
  unfolding at_most_def
proof
  fix s
  obtain r s1 where m: "m s = (r, s1)" by (cases "m s")
  then have 1: "occurrences P (trace s1) \<le> occurrences P (trace s) + n"
    using at_mostD [OF assms(1)] by blast
  have "occurrences P (trace (snd (h e s1))) \<le> occurrences P (trace s1) + k" for e
    using assms(2) by (simp add: at_most_def)
  with 1 have "occurrences P (trace (snd (h e s1))) \<le> occurrences P (trace s) + (n + k)" for e
    by (meson add_right_mono order_trans add.assoc [THEN eq_refl])
  with m 1 show "occurrences P (trace (snd (tryP m p h s))) \<le> occurrences P (trace s) + (n + k)"
    by (cases r) (auto simp: tryP_def)
qed

section \<open>What is not raised\<close>

text \<open>\<open>avoids p m\<close>: no exception in \<open>p\<close> comes out of \<open>m\<close>.\<close>

definition avoids :: "(exn \<Rightarrow> bool) \<Rightarrow> ('s, 'a) prog \<Rightarrow> bool" where
  "avoids p m \<longleftrightarrow> (\<forall>s e s'. m s = (Inl e, s') \<longrightarrow> \<not> p e)"

definition env_avoids :: "(exn \<Rightarrow> bool) \<Rightarrow> env \<Rightarrow> bool" where
  "env_avoids p env \<longleftrightarrow> (\<forall>tr c e. env tr c = Fail e \<longrightarrow> \<not> p e)"

named_theorems avoids_rules "which exceptions do not come out of a program"

lemma avoidsD: "avoids p m \<Longrightarrow> m s = (Inl e, s') \<Longrightarrow> \<not> p e"
  by (auto simp: avoids_def)

lemma avoids_simple [avoids_rules]:
  "avoids p (ret x)" "avoids p (getP f)" "avoids p (updP g)" "\<not> p e \<Longrightarrow> avoids p (throw e)"
  by (simp_all add: avoids_def prog_defs)

lemma avoids_liftE [avoids_rules]: "(\<And>e. r = Inl e \<Longrightarrow> \<not> p e) \<Longrightarrow> avoids p (liftE r)"
  by (simp add: avoids_def liftE_def)

lemma avoids_bind [avoids_rules]:
  "avoids p m \<Longrightarrow> (\<And>x. avoids p (f x)) \<Longrightarrow> avoids p (bindP m f)"
  by (fastforce simp: avoids_def bindP_def split: prod.splits sum.splits)

lemma avoids_try [avoids_rules]:
  "(\<And>s e s'. m s = (Inl e, s') \<Longrightarrow> \<not> q e \<Longrightarrow> \<not> p e) \<Longrightarrow> (\<And>e. avoids p (h e)) \<Longrightarrow>
   avoids p (tryP m q h)"
  by (fastforce simp: avoids_def tryP_def split: prod.splits sum.splits if_splits)

lemma avoids_for [avoids_rules]: "(\<And>x. x \<in> set xs \<Longrightarrow> avoids p (f x)) \<Longrightarrow> avoids p (forP f xs)"
  by (induction xs) (auto intro: avoids_rules)

lemma avoids_call [avoids_rules]: "env_avoids p env \<Longrightarrow> avoids p (call env c)"
  by (auto simp: avoids_def env_avoids_def call_def Let_def split: reply.splits)

lemma avoids_calls [avoids_rules]:
  assumes "env_avoids p env" "\<not> p bad_reply"
  shows "avoids p (call_unit env c)" "avoids p (call_num env c)" "avoids p (call_texts env c)"
    "avoids p (call_text env c)" "avoids p (call_time env c)"
  using assms unfolding call_unit_def call_num_def call_texts_def call_text_def call_time_def
  by (auto intro!: avoids_rules split: reply.split)

section \<open>What is left alone\<close>

text \<open>\<open>keeps g m\<close>: the part \<open>g\<close> of the state is as before.\<close>

definition keeps :: "('s \<Rightarrow> 'x) \<Rightarrow> ('s, 'a) prog \<Rightarrow> bool" where
  "keeps g m \<longleftrightarrow> (\<forall>s. g (snd (m s)) = g s)"

named_theorems keeps_rules "what the combinators leave alone"

lemma keepsD: "keeps g m \<Longrightarrow> m s = (r, s') \<Longrightarrow> g s' = g s"
  by (metis keeps_def snd_conv)

lemma keeps_simple [keeps_rules]:
  "keeps g (ret x)" "keeps g (throw e)" "keeps g (getP f)" "keeps g (liftE r)"
  "(\<And>s. g (h s) = g s) \<Longrightarrow> keeps g (updP h)"
  by (simp_all add: keeps_def prog_defs)

lemma keeps_bind [keeps_rules]: "keeps g m \<Longrightarrow> (\<And>x. keeps g (f x)) \<Longrightarrow> keeps g (bindP m f)"
  by (auto simp: keeps_def bindP_def split: prod.split sum.split) (metis snd_conv)+

lemma keeps_try [keeps_rules]: "keeps g m \<Longrightarrow> (\<And>e. keeps g (h e)) \<Longrightarrow> keeps g (tryP m p h)"
  by (auto simp: keeps_def tryP_def split: prod.split sum.split) (metis snd_conv)+

lemma keeps_fold [keeps_rules]:
  "(\<And>acc x. x \<in> set xs \<Longrightarrow> keeps g (f acc x)) \<Longrightarrow> keeps g (foldP f acc xs)"
  by (induction xs arbitrary: acc) (auto intro: keeps_rules)

lemma keeps_call [keeps_rules]:
  "(\<And>s es. g (s\<lparr>trace := es\<rparr>) = g s) \<Longrightarrow> keeps g (call env c)"
  by (simp add: keeps_def call_def Let_def split: reply.split)

lemma keeps_calls [keeps_rules]:
  assumes "\<And>s es. g (s\<lparr>trace := es\<rparr>) = g s"
  shows "keeps g (call_unit env c)" "keeps g (call_num env c)" "keeps g (call_texts env c)"
    "keeps g (call_text env c)" "keeps g (call_time env c)"
  using assms unfolding call_unit_def call_num_def call_texts_def call_text_def call_time_def
  by (auto intro!: keeps_rules split: reply.split)

section \<open>Successful calls\<close>

definition ok_reply :: "reply \<Rightarrow> bool" where
  "ok_reply r \<longleftrightarrow> (case r of Fail _ \<Rightarrow> False | _ \<Rightarrow> True)"

lemma call_Inr:
  "call env c s = (Inr r, s') \<longleftrightarrow>
     r = env (trace s) c \<and> ok_reply r \<and> s' = s\<lparr>trace := trace s @ [(c, r)]\<rparr>"
  by (auto simp: call_def Let_def ok_reply_def split: reply.splits)

lemma call_Inl:
  "call env c s = (Inl e, s') \<longleftrightarrow>
     env (trace s) c = Fail e \<and> s' = s\<lparr>trace := trace s @ [(c, Fail e)]\<rparr>"
  by (auto simp: call_def Let_def split: reply.splits)

lemma call_unit_Inr:
  "call_unit env c s = (Inr u, s') \<longleftrightarrow>
     ok_reply (env (trace s) c) \<and> s' = s\<lparr>trace := trace s @ [(c, env (trace s) c)]\<rparr>"
  by (auto simp: call_unit_def bindP_eq_Inr call_Inr ret_def)

lemma call_texts_Inr:
  "call_texts env c s = (Inr ts, s') \<longleftrightarrow>
     env (trace s) c = Texts ts \<and> s' = s\<lparr>trace := trace s @ [(c, Texts ts)]\<rparr>"
  by (auto simp: call_texts_def bindP_eq_Inr call_Inr ret_def throw_def ok_reply_def
      split: reply.splits)

lemma call_num_Inr:
  "call_num env c s = (Inr i, s') \<longleftrightarrow>
     env (trace s) c = Num i \<and> s' = s\<lparr>trace := trace s @ [(c, Num i)]\<rparr>"
  by (auto simp: call_num_def bindP_eq_Inr call_Inr ret_def throw_def ok_reply_def
      split: reply.splits)

lemma call_time_Inr:
  "call_time env c s = (Inr t, s') \<longleftrightarrow>
     env (trace s) c = Time t \<and> s' = s\<lparr>trace := trace s @ [(c, Time t)]\<rparr>"
  by (auto simp: call_time_def bindP_eq_Inr call_Inr ret_def throw_def ok_reply_def
      split: reply.splits)

lemma call_articles_Inr:
  "call_articles env c s = (Inr rs, s') \<longleftrightarrow>
     env (trace s) c = ArtRows rs \<and> s' = s\<lparr>trace := trace s @ [(c, ArtRows rs)]\<rparr>"
  by (auto simp: call_articles_def bindP_eq_Inr call_Inr ret_def throw_def ok_reply_def
      split: reply.splits)

lemma call_text_Inr:
  "call_text env c s = (Inr t, s') \<longleftrightarrow>
     env (trace s) c = Txt t \<and> s' = s\<lparr>trace := trace s @ [(c, Txt t)]\<rparr>"
  by (auto simp: call_text_def bindP_eq_Inr call_Inr ret_def throw_def ok_reply_def
      split: reply.splits)

lemma pipe_execute_Inr:
  "pipe_execute env cs s = (Inr u, s') \<Longrightarrow>
   \<exists>rs. length rs = length cs \<and> list_all ok_reply rs \<and> s' = s\<lparr>trace := trace s @ zip cs rs\<rparr>"
proof (induction cs arbitrary: s)
  case Nil
  then show ?case by (simp add: ret_def)
next
  case (Cons c cs)
  then obtain r s1 where c: "call env c s = (Inr r, s1)" "pipe_execute env cs s1 = (Inr u, s')"
    by (auto split: prod.splits sum.splits)
  from Cons.IH [OF c(2)] obtain rs where
    "length rs = length cs" "list_all ok_reply rs" "s' = s1\<lparr>trace := trace s1 @ zip cs rs\<rparr>"
    by blast
  with c(1) show ?case by (intro exI [of _ "r # rs"]) (auto simp: call_Inr)
qed

lemma call_unit_trace: "trace (snd (call_unit env c s)) = trace s @ [(c, env (trace s) c)]"
  by (simp add: call_unit_def bindP_def call_def Let_def ret_def split: reply.split)

section \<open>Sleeping\<close>

text \<open>\<open>time.sleep\<close> refuses what is not a duration.\<close>

definition py_sleep :: "env \<Rightarrow> py_float \<Rightarrow> ('z world_scheme, unit) prog" where
  "py_sleep env d = (case d of
     Fin x \<Rightarrow> if x < 0 then throw (ValueError ''sleep length must be non-negative'')
              else call_unit env (Sleep x)
   | NaN \<Rightarrow> throw (ValueError ''Invalid value NaN (not a number)'')
   | _ \<Rightarrow> throw OverflowError)"

lemma emits_sleep: "(\<And>d r. P (Sleep d, r)) \<Longrightarrow> emits P (py_sleep env d)"
  by (auto simp: py_sleep_def intro!: emits_rules split: py_float.split)

lemma keeps_sleep: "(\<And>s es. g (s\<lparr>trace := es\<rparr>) = g s) \<Longrightarrow> keeps g (py_sleep env d)"
  by (auto simp: py_sleep_def intro!: keeps_rules split: py_float.split)

lemma py_sleep_Inr:
  "0 \<le> x \<Longrightarrow> ok_reply (env (trace s) (Sleep x)) \<Longrightarrow>
   py_sleep env (Fin x) s = (Inr (), s\<lparr>trace := trace s @ [(Sleep x, env (trace s) (Sleep x))]\<rparr>)"
  by (simp add: py_sleep_def call_unit_Inr)

end
