(* ===== verification/Store.thy ===== *)
theory Store
  imports Config Effects
begin

text \<open>
  \<open>py-processor/store.py\<close>: the connection pool, opened on first use, and the insertion of
  a batch of rows. psycopg2 and PostgreSQL are the environment. The theorems give the order of
  the calls of an insertion and what its result counts.
\<close>

section \<open>Connections\<close>

text \<open>The pool of the process, and the fetcher's state does not matter here.\<close>

definition pool_min :: nat where "pool_min = 1"
definition pool_max :: nat where "pool_max = 10"

definition page_size :: nat where "page_size = 200"

text \<open>The flag says whether \<open>_pool\<close> is set; it is returned updated.\<close>

definition get_pool :: "env \<Rightarrow> config \<Rightarrow> bool \<Rightarrow> ('z world_scheme, bool) prog" where
  "get_pool env cfg pool =
     (if pool then ret True
      else bindP (call_unit env (OpenPool pool_min pool_max (PG_DSN cfg))) (\<lambda>_. ret True))"

section \<open>Inserting rows\<close>

definition insert_articles :: "env \<Rightarrow> row list \<Rightarrow> ('z world_scheme, int) prog" where
  "insert_articles env rows =
     (if rows = [] then ret 0
      else bindP (call_unit env (ExecuteValues rows page_size)) (\<lambda>_.
           bindP (call_num env Rowcount) (\<lambda>inserted.
           bindP (call_unit env Commit) (\<lambda>_. ret inserted))))"

lemma insert_articles_Inr:
  "insert_articles env rows s = (Inr n, s') \<Longrightarrow> rows \<noteq> [] \<Longrightarrow>
   \<exists>r1 r3. ok_reply r1 \<and> ok_reply r3 \<and>
     trace s' = trace s @ [(ExecuteValues rows page_size, r1), (Rowcount, Num n), (Commit, r3)]"
  by (auto simp: insert_articles_def bindP_eq_Inr call_unit_Inr call_num_Inr ret_def)

section \<open>What the result counts\<close>

text \<open>
  The database as documented: a statement inserts the rows whose hash is not there yet, and the
  row count is that of the last statement. \<open>execute_values\<close> sends one statement per page.
\<close>

fun pages :: "nat \<Rightarrow> 'a list \<Rightarrow> 'a list list" where
  "pages n xs = (if n = 0 \<or> length xs \<le> n then [xs] else take n xs # pages n (drop n xs))"

declare pages.simps [simp del]

fun insert_new :: "string list \<Rightarrow> row list \<Rightarrow> string list" where
  "insert_new hs [] = hs"
| "insert_new hs (r # rs) =
     insert_new (if r_url_hash r \<in> set hs then hs else hs @ [r_url_hash r]) rs"

fun run_pages :: "string list \<Rightarrow> row list list \<Rightarrow> string list \<times> nat" where
  "run_pages hs [] = (hs, 0)"
| "run_pages hs [p] = (insert_new hs p, length (insert_new hs p) - length hs)"
| "run_pages hs (p # q # ps) = run_pages (insert_new hs p) (q # ps)"

text \<open>The hashes committed, the hashes the open transaction sees, and the row count.\<close>

type_synonym db = "string list \<times> string list \<times> nat"

definition db_step :: "db \<Rightarrow> event \<Rightarrow> db" where
  "db_step d ev = (case d of (committed, seen, k) \<Rightarrow> (case ev of
     (ExecuteValues rows n, Done) \<Rightarrow>
       (case run_pages seen (pages n rows) of (seen', k') \<Rightarrow> (committed, seen', k'))
   | (Commit, Done) \<Rightarrow> (seen, seen, k)
   | (Rollback, _) \<Rightarrow> (committed, committed, k)
   | (PutConn _, _) \<Rightarrow> (committed, committed, k)
   | _ \<Rightarrow> d))"

definition db_of :: "event list \<Rightarrow> db" where
  "db_of tr = foldl db_step ([], [], 0) tr"

definition committed :: "event list \<Rightarrow> string list" where
  "committed tr = fst (db_of tr)"

definition clean :: "event list \<Rightarrow> bool" where
  "clean tr \<longleftrightarrow> fst (snd (db_of tr)) = fst (db_of tr)"

definition postgres :: "env \<Rightarrow> bool" where
  "postgres env \<longleftrightarrow> (\<forall>tr. env tr Rowcount = Num (int (snd (snd (db_of tr)))))
     \<and> (\<forall>tr rows n. ok_reply (env tr (ExecuteValues rows n)) \<longrightarrow> env tr (ExecuteValues rows n) = Done)
     \<and> (\<forall>tr. ok_reply (env tr Commit) \<longrightarrow> env tr Commit = Done)"

lemma insert_new_set: "set (insert_new hs rs) = set hs \<union> r_url_hash ` set rs"
  by (induction hs rs rule: insert_new.induct) auto

lemma insert_new_length: "length hs \<le> length (insert_new hs rs)"
  by (induction hs rs rule: insert_new.induct) (auto split: if_splits)

lemma one_page: "length rows \<le> n \<Longrightarrow> pages n rows = [rows]"
  by (subst pages.simps) simp

lemma insert_articles_db:
  assumes "postgres env" "insert_articles env rows s = (Inr n, s')" "rows \<noteq> []"
  shows "db_of (trace s') = (let r = run_pages (fst (snd (db_of (trace s)))) (pages page_size rows)
      in (fst r, fst r, snd r))
    \<and> n = int (snd (run_pages (fst (snd (db_of (trace s)))) (pages page_size rows)))"
proof -
  have 1: "env (trace s) (ExecuteValues rows page_size) = Done"
    using assms by (auto simp: insert_articles_def bindP_eq_Inr call_unit_Inr postgres_def)
  let ?tr1 = "trace s @ [(ExecuteValues rows page_size, Done)]"
  have 2: "env ?tr1 Rowcount = Num n"
    using assms 1 by (auto simp: insert_articles_def bindP_eq_Inr call_unit_Inr call_num_Inr ret_def)
  have 3: "trace s' = ?tr1 @ [(Rowcount, Num n), (Commit, Done)]"
    using assms 1 by (auto simp: insert_articles_def bindP_eq_Inr call_unit_Inr call_num_Inr ret_def postgres_def)
  have 4: "n = int (snd (snd (db_of ?tr1)))" using assms(1) 2 by (simp add: postgres_def)
  show ?thesis
    by (simp only: 3 4) (simp add: db_of_def db_step_def Let_def case_prod_unfold)
qed

text \<open>
  C37: A batch of at most one page is stored exactly: afterwards the committed hashes are the
  old ones and those of the rows, no others, and the result is the number of hashes added, so
  rows skipped as duplicates are not counted.
\<close>

theorem insert_articles_counts:
  assumes "postgres env" "clean (trace s)" "length rows \<le> page_size"
    and "insert_articles env rows s = (Inr n, s')"
  shows "set (committed (trace s')) = set (committed (trace s)) \<union> r_url_hash ` set rows
    \<and> n = int (length (committed (trace s'))) - int (length (committed (trace s)))
    \<and> clean (trace s')"
proof (cases "rows = []")
  case True
  with assms show ?thesis by (simp add: insert_articles_def ret_def)
next
  case False
  from insert_articles_db [OF assms(1,4) False] assms(2) show ?thesis
    by (auto simp: committed_def clean_def one_page [OF assms(3)] Let_def insert_new_set
        insert_new_length of_nat_diff)
qed

text \<open>A database that never fails.\<close>

definition sound_db :: env where
  "sound_db tr c = (case c of Rowcount \<Rightarrow> Num (int (snd (snd (db_of tr)))) | _ \<Rightarrow> Done)"

lemma sound_db_postgres: "postgres sound_db"
  by (simp add: postgres_def sound_db_def)

definition sample_row :: row where
  "sample_row = \<lparr>r_url = ''http://h/a'', r_url_hash = ''h'', r_title = None, r_content = ''text'',
     r_author = None, r_published_at = None, r_tags = None, r_source = ''devto'',
     r_lang = ''en'', r_hash = 7, r_score = 1\<rparr>"

theorem insert_articles_counts_witness:
  "\<exists>s'. insert_articles sound_db [sample_row, sample_row] \<lparr>trace = []\<rparr> = (Inr 1, s')
     \<and> set (committed (trace s')) = {''h''}"
proof -
  have "fst (insert_articles sound_db [sample_row, sample_row] \<lparr>trace = []\<rparr>) = Inr 1"
    by code_simp
  then obtain s' where s': "insert_articles sound_db [sample_row, sample_row] \<lparr>trace = []\<rparr> = (Inr 1, s')"
    by (metis prod.collapse)
  have "set (committed (trace s')) = set (committed []) \<union> r_url_hash ` set [sample_row, sample_row]"
    using insert_articles_counts [OF sound_db_postgres _ _ s'] 
    by (simp add: clean_def db_of_def page_size_def)
  with s' show ?thesis by (simp add: committed_def db_of_def sample_row_def)
qed

text \<open>
  With more rows than a page the result is the count of the last page alone. Here one new
  article is stored and the result is zero, so the caller books nothing as stored, although the
  result is documented as the number of rows actually inserted.
\<close>

theorem insert_articles_undercounts:
  "\<exists>s'. insert_articles sound_db (replicate (Suc page_size) sample_row) \<lparr>trace = []\<rparr> = (Inr 0, s')
     \<and> committed (trace s') = [''h'']"
proof -
  let ?rows = "replicate (Suc page_size) sample_row"
  have new: "insert_new [''h''] (replicate k sample_row) = [''h'']" for k
    by (induction k) (simp_all add: sample_row_def)
  have h: "insert_new [] (replicate (Suc k) sample_row) = [''h'']" for k
    using new [of k] by (simp add: sample_row_def)
  have pos: "page_size = Suc 199" by (simp add: page_size_def)
  have pg: "pages page_size ?rows = [replicate page_size sample_row, [sample_row]]"
    using pages.simps [of page_size ?rows] one_page [of "[sample_row]" page_size]
    by (simp add: page_size_def)
  have full: "insert_new [] (replicate page_size sample_row) = [''h'']"
    using h [of 199] by (simp only: pos)
  have key: "r_url_hash sample_row = ''h''" by (simp add: sample_row_def)
  have "fst (insert_articles sound_db ?rows \<lparr>trace = []\<rparr>)
      = Inr (int (snd (snd (db_of [(ExecuteValues ?rows page_size, Done)]))))"
    by (simp add: insert_articles_def bindP_def call_unit_def call_num_def call_def Let_def ret_def
        sound_db_def)
  then obtain n s' where ins: "insert_articles sound_db ?rows \<lparr>trace = []\<rparr> = (Inr n, s')"
    by (metis prod.collapse)
  have "?rows \<noteq> []" by simp
  from insert_articles_db [OF sound_db_postgres ins this]
  have "n = 0" "committed (trace s') = [''h'']"
    by (simp_all only: committed_def pg) (simp_all add: db_of_def full key)
  with ins show ?thesis by blast
qed

section \<open>Connections taken\<close>

text \<open>The connections taken and not given back, over a trace.\<close>

definition held :: "event list \<Rightarrow> int" where
  "held es = sum_list (map (\<lambda>e. case e of (GetConn, r) \<Rightarrow> if ok_reply r then 1 else 0
     | (PutConn _, _) \<Rightarrow> - 1 | _ \<Rightarrow> 0) es)"

lemma held_append [simp]: "held (xs @ ys) = held xs + held ys"
  by (simp add: held_def)

end
