(* ===== verification/Regex.thy ===== *)
theory Regex
  imports PyStr
begin

text \<open>
  The part of Python's \<open>re\<close> module the processor relies on: a backtracking matcher. A
  pattern is a \<open>regex\<close>; \<open>mat\<close> returns every way it can match at a position, in the order
  in which the backtracking engine tries them, so the head of the list is Python's match.
  A position is the character before it (for \<open>^\<close> and \<open>\b\<close>) and the input that is left.

  On top of it stand \<open>match\<close>, \<open>search\<close>, \<open>findall\<close>/\<open>finditer\<close>, \<open>sub\<close> and \<open>split\<close>, all
  derived from one left-to-right scan into gaps and matches. The scan is Python's for
  patterns that never match the empty string, which \<open>consuming\<close> decides; the patterns
  of the processor all are.
\<close>

section \<open>Patterns\<close>

datatype regex =
    Eps
  | Cls "char \<Rightarrow> bool"
  | Seq regex regex
  | Alt regex regex
  | Star regex
  | LStar regex
  | Grp nat regex
  | WordB
  | Bol
  | Eol

type_synonym mstate = "char option \<times> string"
type_synonym captures = "(nat \<times> string) list"

definition word_at :: "char option \<Rightarrow> bool" where
  "word_at c = (case c of None \<Rightarrow> False | Some d \<Rightarrow> is_word_char d)"

definition next_char :: "string \<Rightarrow> char option" where
  "next_char s = (case s of [] \<Rightarrow> None | c # _ \<Rightarrow> Some c)"

definition consumed :: "mstate \<Rightarrow> mstate \<Rightarrow> string" where
  "consumed st st' = take (length (snd st) - length (snd st')) (snd st)"

definition add_caps :: "captures \<Rightarrow> (mstate \<times> captures) list \<Rightarrow> (mstate \<times> captures) list" where
  "add_caps c ms = map (\<lambda>m. (fst m, c @ snd m)) ms"

function mat :: "regex \<Rightarrow> mstate \<Rightarrow> (mstate \<times> captures) list" where
  "mat Eps st = [(st, [])]"
| "mat (Cls f) st = (case snd st of
     [] \<Rightarrow> []
   | c # s \<Rightarrow> if f c then [((Some c, s), [])] else [])"
| "mat (Seq a b) st = concat (map (\<lambda>m. add_caps (snd m) (mat b (fst m))) (mat a st))"
| "mat (Alt a b) st = mat a st @ mat b st"
| "mat (Star r) st =
     concat (map (\<lambda>m. if length (snd (fst m)) < length (snd st)
                      then add_caps (snd m) (mat (Star r) (fst m)) else []) (mat r st)) @ [(st, [])]"
| "mat (LStar r) st =
     (st, []) #
     concat (map (\<lambda>m. if length (snd (fst m)) < length (snd st)
                      then add_caps (snd m) (mat (LStar r) (fst m)) else []) (mat r st))"
| "mat (Grp k r) st = map (\<lambda>m. (fst m, snd m @ [(k, consumed st (fst m))])) (mat r st)"
| "mat WordB st = (if word_at (fst st) \<noteq> word_at (next_char (snd st)) then [(st, [])] else [])"
| "mat Bol st = (if fst st = None then [(st, [])] else [])"
| "mat Eol st = (if snd st = [] \<or> snd st = [lf] then [(st, [])] else [])"
  by pat_completeness auto
termination
  by (relation "measures [\<lambda>(r, st). size r, \<lambda>(r, st). length (snd st)]") auto

text \<open>The two loops unfold forever as rewrite rules; they are unfolded by hand.\<close>

declare mat.simps(5,6) [simp del]

text \<open>Abbreviations for the notation of the source's patterns.\<close>

definition ch :: "char \<Rightarrow> regex" where "ch c = Cls (\<lambda>d. d = c)"
definition chi :: "char \<Rightarrow> regex" where "chi c = Cls (\<lambda>d. lower_char d = c)"
definition opt :: "regex \<Rightarrow> regex" where "opt r = Alt r Eps"
definition plus1 :: "regex \<Rightarrow> regex" where "plus1 r = Seq r (Star r)"
definition dot :: regex where "dot = Cls (\<lambda>c. c \<noteq> lf)"
definition anychar :: regex where "anychar = Cls (\<lambda>c. True)"
definition spc :: regex where "spc = Cls is_space"
definition nspc :: regex where "nspc = Cls (\<lambda>c. \<not> is_space c)"

fun lit :: "string \<Rightarrow> regex" where
  "lit [] = Eps"
| "lit [c] = ch c"
| "lit (c # d # s) = Seq (ch c) (lit (d # s))"

text \<open>A literal under \<open>re.IGNORECASE\<close>, given in lower case.\<close>

fun liti :: "string \<Rightarrow> regex" where
  "liti [] = Eps"
| "liti [c] = chi c"
| "liti (c # d # s) = Seq (chi c) (liti (d # s))"

fun alts :: "regex list \<Rightarrow> regex" where
  "alts [] = Cls (\<lambda>_. False)"
| "alts [r] = r"
| "alts (r # s # rs) = Alt r (alts (s # rs))"

fun seqs :: "regex list \<Rightarrow> regex" where
  "seqs [] = Eps"
| "seqs [r] = r"
| "seqs (r # s # rs) = Seq r (seqs (s # rs))"

text \<open>\<open>r{1,n}\<close>, greedy.\<close>

fun rep1 :: "nat \<Rightarrow> regex \<Rightarrow> regex" where
  "rep1 0 r = Eps"
| "rep1 (Suc 0) r = r"
| "rep1 (Suc (Suc n)) r = Seq r (opt (rep1 (Suc n) r))"

lemmas re_notation = ch_def chi_def opt_def plus1_def dot_def anychar_def spc_def nspc_def

section \<open>Operations of the module\<close>

definition re_match :: "regex \<Rightarrow> string \<Rightarrow> (mstate \<times> captures) option" where
  "re_match r s = (case mat r (None, s) of [] \<Rightarrow> None | m # _ \<Rightarrow> Some m)"

definition group :: "nat \<Rightarrow> captures \<Rightarrow> string" where
  "group k caps = (case map_of (rev caps) k of None \<Rightarrow> [] | Some w \<Rightarrow> w)"

text \<open>The first match at or after a position, with the text skipped to reach it.\<close>

fun search_from :: "regex \<Rightarrow> char option \<Rightarrow> string \<Rightarrow> (string \<times> mstate \<times> captures) option" where
  "search_from r p s = (case mat r (p, s) of
     m # _ \<Rightarrow> Some ([], m)
   | [] \<Rightarrow> (case s of
       [] \<Rightarrow> None
     | c # s' \<Rightarrow> map_option (\<lambda>x. (c # fst x, snd x)) (search_from r (Some c) s')))"

declare search_from.simps [simp del]

definition re_search :: "regex \<Rightarrow> string \<Rightarrow> bool" where
  "re_search r s = (search_from r None s \<noteq> None)"

text \<open>The whole scan: pairs of gap and match with its captures, and the tail.\<close>

type_synonym segment = "string \<times> string \<times> captures"

function scan :: "regex \<Rightarrow> char option \<Rightarrow> string \<Rightarrow> segment list \<times> string" where
  "scan r p s = (case search_from r p s of
     None \<Rightarrow> ([], s)
   | Some (gap, st, caps) \<Rightarrow>
       if length (snd st) < length s
       then (let rest = scan r (fst st) (snd st)
             in ((gap, drop (length gap) (consumed (p, s) st), caps) # fst rest, snd rest))
       else ([], s))"
  by pat_completeness auto
termination
  by (relation "measure (\<lambda>(r, p, s). length s)") auto

declare scan.simps [simp del]

definition finditer :: "regex \<Rightarrow> string \<Rightarrow> (string \<times> captures) list" where
  "finditer r s = map snd (fst (scan r None s))"

definition findall :: "regex \<Rightarrow> string \<Rightarrow> string list" where
  "findall r s = map fst (finditer r s)"

definition re_sub :: "regex \<Rightarrow> string \<Rightarrow> string \<Rightarrow> string" where
  "re_sub r rep s = (case scan r None s of (segs, rest) \<Rightarrow>
     concat (map (\<lambda>seg. fst seg @ rep) segs) @ rest)"

definition re_split :: "regex \<Rightarrow> string \<Rightarrow> string list" where
  "re_split r s = (case scan r None s of (segs, rest) \<Rightarrow> map fst segs @ [rest])"

section \<open>What a match consumes\<close>

text \<open>The texts a pattern can match, anchors ignored.\<close>

inductive inlang :: "regex \<Rightarrow> string \<Rightarrow> bool" where
  Eps: "inlang Eps []"
| Cls: "f c \<Longrightarrow> inlang (Cls f) [c]"
| Seq: "inlang a u \<Longrightarrow> inlang b v \<Longrightarrow> inlang (Seq a b) (u @ v)"
| Alt1: "inlang a u \<Longrightarrow> inlang (Alt a b) u"
| Alt2: "inlang b u \<Longrightarrow> inlang (Alt a b) u"
| Star0: "inlang (Star r) []"
| Star1: "inlang r u \<Longrightarrow> inlang (Star r) v \<Longrightarrow> inlang (Star r) (u @ v)"
| LStar0: "inlang (LStar r) []"
| LStar1: "inlang r u \<Longrightarrow> inlang (LStar r) v \<Longrightarrow> inlang (LStar r) (u @ v)"
| Grp: "inlang r u \<Longrightarrow> inlang (Grp k r) u"
| WordB: "inlang WordB []"
| Bol: "inlang Bol []"
| Eol: "inlang Eol []"

inductive_cases inlang_EpsE [elim!]: "inlang Eps w"
inductive_cases inlang_ClsE [elim!]: "inlang (Cls f) w"
inductive_cases inlang_SeqE [elim!]: "inlang (Seq a b) w"
inductive_cases inlang_AltE [elim!]: "inlang (Alt a b) w"
inductive_cases inlang_GrpE [elim!]: "inlang (Grp k r) w"
inductive_cases inlang_BolE [elim!]: "inlang Bol w"
inductive_cases inlang_EolE [elim!]: "inlang Eol w"
inductive_cases inlang_WordBE [elim!]: "inlang WordB w"

primrec groups :: "regex \<Rightarrow> (nat \<times> regex) list" where
  "groups Eps = []"
| "groups (Cls f) = []"
| "groups (Seq a b) = groups a @ groups b"
| "groups (Alt a b) = groups a @ groups b"
| "groups (Star r) = groups r"
| "groups (LStar r) = groups r"
| "groups (Grp k r) = (k, r) # groups r"
| "groups WordB = []"
| "groups Bol = []"
| "groups Eol = []"

definition caps_ok :: "regex \<Rightarrow> captures \<Rightarrow> bool" where
  "caps_ok r caps \<longleftrightarrow> (\<forall>(k, w) \<in> set caps. \<exists>r'. (k, r') \<in> set (groups r) \<and> inlang r' w)"

lemma caps_ok_Nil [simp]: "caps_ok r []"
  by (simp add: caps_ok_def)

lemma caps_ok_append [simp]: "caps_ok r (c @ d) \<longleftrightarrow> caps_ok r c \<and> caps_ok r d"
  by (simp add: caps_ok_def ball_Un)

lemma caps_ok_mono: "caps_ok a c \<Longrightarrow> set (groups a) \<subseteq> set (groups r) \<Longrightarrow> caps_ok r c"
  unfolding caps_ok_def by fastforce

lemma in_add_caps:
  "x \<in> set (add_caps c ms) \<longleftrightarrow> (\<exists>m \<in> set ms. x = (fst m, c @ snd m))"
  by (auto simp: add_caps_def)

lemma in_loop:
  fixes f :: "mstate \<Rightarrow> (mstate \<times> captures) list"
  shows "x \<in> set (concat (map (\<lambda>m. if length (snd (fst m)) < k
                              then add_caps (snd m) (f (fst m)) else []) ms)) \<longleftrightarrow>
   (\<exists>m1 \<in> set ms. length (snd (fst m1)) < k \<and>
      (\<exists>m2 \<in> set (f (fst m1)). x = (fst m2, snd m1 @ snd m2)))"
  by (induction ms) (simp_all add: in_add_caps)

lemma consumed_append: "snd st = w @ snd st' \<Longrightarrow> consumed st st' = w"
  by (simp add: consumed_def)

theorem mat_sound:
  "m \<in> set (mat r st) \<Longrightarrow>
   \<exists>w. snd st = w @ snd (fst m) \<and> inlang r w \<and> caps_ok r (snd m)"
proof (induction r st arbitrary: m rule: mat.induct)
  case (1 st)
  then show ?case by (simp add: inlang.Eps)
next
  case (2 f st)
  then obtain c s where "snd st = c # s" "f c" "m = ((Some c, s), [])"
    by (cases "snd st") (auto split: if_splits)
  then show ?case by (intro exI [of _ "[c]"]) (simp add: inlang.Cls)
next
  case (3 a b st)
  then obtain m1 m2 where m: "m1 \<in> set (mat a st)" "m2 \<in> set (mat b (fst m1))"
      "m = (fst m2, snd m1 @ snd m2)"
    by (auto simp: in_add_caps)
  from "3.IH"(1) [OF m(1)] obtain u where u: "snd st = u @ snd (fst m1)" "inlang a u" "caps_ok a (snd m1)"
    by auto
  from "3.IH"(2) [OF m(1) m(2)] obtain v
    where v: "snd (fst m1) = v @ snd (fst m2)" "inlang b v" "caps_ok b (snd m2)"
    by auto
  from u v m(3) show ?case
    by (intro exI [of _ "u @ v"])
      (simp add: inlang.Seq caps_ok_mono [of a _ "Seq a b"] caps_ok_mono [of b _ "Seq a b"])
next
  case (4 a b st)
  from "4.prems" consider "m \<in> set (mat a st)" | "m \<in> set (mat b st)" by auto
  then show ?case
  proof cases
    case 1
    from "4.IH"(1) [OF this] obtain w
      where "snd st = w @ snd (fst m)" "inlang a w" "caps_ok a (snd m)" by auto
    then show ?thesis
      by (intro exI [of _ w]) (simp add: inlang.Alt1 caps_ok_mono [of a _ "Alt a b"])
  next
    case 2
    from "4.IH"(2) [OF this] obtain w
      where "snd st = w @ snd (fst m)" "inlang b w" "caps_ok b (snd m)" by auto
    then show ?thesis
      by (intro exI [of _ w]) (simp add: inlang.Alt2 caps_ok_mono [of b _ "Alt a b"])
  qed
next
  case (5 r st)
  show ?case
  proof (cases "m = (st, [])")
    case True
    then show ?thesis by (simp add: inlang.Star0)
  next
    case False
    with "5.prems" have "m \<in> set (concat (map (\<lambda>m. if length (snd (fst m)) < length (snd st)
        then add_caps (snd m) (mat (Star r) (fst m)) else []) (mat r st)))"
      by (subst (asm) mat.simps(5)) auto
    then obtain m1 m2 where m: "m1 \<in> set (mat r st)"
        "length (snd (fst m1)) < length (snd st)"
        "m2 \<in> set (mat (Star r) (fst m1))" "m = (fst m2, snd m1 @ snd m2)"
      unfolding in_loop [where f = "mat (Star r)"] by blast
    from "5.IH"(1) [OF m(1)] obtain u where u: "snd st = u @ snd (fst m1)" "inlang r u" "caps_ok r (snd m1)"
      by auto
    from "5.IH"(2) [OF m(1) m(2) m(3)] obtain v
      where v: "snd (fst m1) = v @ snd (fst m2)" "inlang (Star r) v" "caps_ok (Star r) (snd m2)"
      by auto
    from u v m(4) show ?thesis
      by (intro exI [of _ "u @ v"]) (simp add: inlang.Star1 caps_ok_mono [of r _ "Star r"])
  qed
next
  case (6 r st)
  show ?case
  proof (cases "m = (st, [])")
    case True
    then show ?thesis by (simp add: inlang.LStar0)
  next
    case False
    with "6.prems" have "m \<in> set (concat (map (\<lambda>m. if length (snd (fst m)) < length (snd st)
        then add_caps (snd m) (mat (LStar r) (fst m)) else []) (mat r st)))"
      by (subst (asm) mat.simps(6)) auto
    then obtain m1 m2 where m: "m1 \<in> set (mat r st)"
        "length (snd (fst m1)) < length (snd st)"
        "m2 \<in> set (mat (LStar r) (fst m1))" "m = (fst m2, snd m1 @ snd m2)"
      unfolding in_loop [where f = "mat (LStar r)"] by blast
    from "6.IH"(1) [OF m(1)] obtain u where u: "snd st = u @ snd (fst m1)" "inlang r u" "caps_ok r (snd m1)"
      by auto
    from "6.IH"(2) [OF m(1) m(2) m(3)] obtain v
      where v: "snd (fst m1) = v @ snd (fst m2)" "inlang (LStar r) v" "caps_ok (LStar r) (snd m2)"
      by auto
    from u v m(4) show ?thesis
      by (intro exI [of _ "u @ v"]) (simp add: inlang.LStar1 caps_ok_mono [of r _ "LStar r"])
  qed
next
  case (7 k r st)
  then obtain m1 where m: "m1 \<in> set (mat r st)" "m = (fst m1, snd m1 @ [(k, consumed st (fst m1))])"
    by auto
  from "7.IH" [OF m(1)] obtain u where u: "snd st = u @ snd (fst m1)" "inlang r u" "caps_ok r (snd m1)"
    by auto
  from u m(2) show ?case
    by (intro exI [of _ u])
      (auto simp: consumed_append inlang.Grp caps_ok_mono [of r _ "Grp k r"],
        auto simp: caps_ok_def)
qed (simp_all add: inlang.WordB inlang.Bol inlang.Eol split: if_splits)

lemma mat_shorter: "m \<in> set (mat r st) \<Longrightarrow> length (snd (fst m)) \<le> length (snd st)"
  using mat_sound by fastforce

text \<open>A captured group is no longer than the match.\<close>

lemma mat_caps_length:
  "m \<in> set (mat r st) \<Longrightarrow> (k, v) \<in> set (snd m) \<Longrightarrow>
   length v + length (snd (fst m)) \<le> length (snd st)"
proof (induction r st arbitrary: m rule: mat.induct)
  case (2 f st)
  then show ?case by (cases "snd st") (auto split: if_splits)
next
  case (3 a b st)
  then obtain m1 m2 where m: "m1 \<in> set (mat a st)" "m2 \<in> set (mat b (fst m1))"
      "m = (fst m2, snd m1 @ snd m2)"
    by (auto simp: in_add_caps)
  from m(3) "3.prems"(2) consider "(k, v) \<in> set (snd m1)" | "(k, v) \<in> set (snd m2)" by auto
  then show ?case
    using "3.IH"(1) [OF m(1)] "3.IH"(2) [OF m(1,2)] mat_shorter [OF m(1)] mat_shorter [OF m(2)] m(3)
    by cases auto
next
  case (5 r st)
  from "5.prems" have "m \<in> set (concat (map (\<lambda>m. if length (snd (fst m)) < length (snd st)
      then add_caps (snd m) (mat (Star r) (fst m)) else []) (mat r st)))"
    by (subst (asm) (1) mat.simps(5)) auto
  then obtain m1 m2 where m: "m1 \<in> set (mat r st)" "length (snd (fst m1)) < length (snd st)"
      "m2 \<in> set (mat (Star r) (fst m1))" "m = (fst m2, snd m1 @ snd m2)"
    unfolding in_loop [where f = "mat (Star r)"] by blast
  from m(4) "5.prems"(2) consider "(k, v) \<in> set (snd m1)" | "(k, v) \<in> set (snd m2)" by auto
  then show ?case
    using "5.IH"(1) [OF m(1)] "5.IH"(2) [OF m(1,2,3)] mat_shorter [OF m(1)] mat_shorter [OF m(3)] m(4)
    by cases auto
next
  case (6 r st)
  from "6.prems" have "m \<in> set (concat (map (\<lambda>m. if length (snd (fst m)) < length (snd st)
      then add_caps (snd m) (mat (LStar r) (fst m)) else []) (mat r st)))"
    by (subst (asm) (1) mat.simps(6)) auto
  then obtain m1 m2 where m: "m1 \<in> set (mat r st)" "length (snd (fst m1)) < length (snd st)"
      "m2 \<in> set (mat (LStar r) (fst m1))" "m = (fst m2, snd m1 @ snd m2)"
    unfolding in_loop [where f = "mat (LStar r)"] by blast
  from m(4) "6.prems"(2) consider "(k, v) \<in> set (snd m1)" | "(k, v) \<in> set (snd m2)" by auto
  then show ?case
    using "6.IH"(1) [OF m(1)] "6.IH"(2) [OF m(1,2,3)] mat_shorter [OF m(1)] mat_shorter [OF m(3)] m(4)
    by cases auto
next
  case (7 j r st)
  then obtain m1 where m: "m1 \<in> set (mat r st)" "m = (fst m1, snd m1 @ [(j, consumed st (fst m1))])"
    by auto
  then show ?case
    using "7.IH" [OF m(1)] "7.prems"(2) mat_shorter [OF m(1)] by (auto simp: consumed_def)
qed (auto split: if_splits)

primrec consuming :: "regex \<Rightarrow> bool" where
  "consuming Eps = False"
| "consuming (Cls f) = True"
| "consuming (Seq a b) = (consuming a \<or> consuming b)"
| "consuming (Alt a b) = (consuming a \<and> consuming b)"
| "consuming (Star r) = False"
| "consuming (LStar r) = False"
| "consuming (Grp k r) = consuming r"
| "consuming WordB = False"
| "consuming Bol = False"
| "consuming Eol = False"

lemma consuming_nonempty: "inlang r w \<Longrightarrow> consuming r \<Longrightarrow> w \<noteq> []"
  by (induction rule: inlang.induct) auto

text \<open>The characters a pattern can consume: \<open>only P r\<close> when all of them satisfy \<open>P\<close>.\<close>

primrec only :: "(char \<Rightarrow> bool) \<Rightarrow> regex \<Rightarrow> bool" where
  "only P Eps = True"
| "only P (Cls f) = (\<forall>c. f c \<longrightarrow> P c)"
| "only P (Seq a b) = (only P a \<and> only P b)"
| "only P (Alt a b) = (only P a \<and> only P b)"
| "only P (Star r) = only P r"
| "only P (LStar r) = only P r"
| "only P (Grp k r) = only P r"
| "only P WordB = True"
| "only P Bol = True"
| "only P Eol = True"

lemma only_inlang: "inlang r w \<Longrightarrow> only P r \<Longrightarrow> list_all P w"
  by (induction rule: inlang.induct) auto

text \<open>Groups that every match sets.\<close>

primrec must :: "nat \<Rightarrow> regex \<Rightarrow> bool" where
  "must k Eps = False"
| "must k (Cls f) = False"
| "must k (Seq a b) = (must k a \<or> must k b)"
| "must k (Alt a b) = (must k a \<and> must k b)"
| "must k (Star r) = False"
| "must k (LStar r) = False"
| "must k (Grp j r) = (j = k \<or> must k r)"
| "must k WordB = False"
| "must k Bol = False"
| "must k Eol = False"

lemma must_captured: "m \<in> set (mat r st) \<Longrightarrow> must k r \<Longrightarrow> k \<in> fst ` set (snd m)"
proof (induction r st arbitrary: m rule: mat.induct)
  case (3 a b st)
  then obtain m1 m2 where m: "m1 \<in> set (mat a st)" "m2 \<in> set (mat b (fst m1))"
      "m = (fst m2, snd m1 @ snd m2)"
    by (auto simp: in_add_caps)
  from "3.prems"(2) consider "must k a" | "must k b" by auto
  then show ?case
    using "3.IH"(1) [OF m(1)] "3.IH"(2) [OF m(1,2)] m(3) by cases auto
next
  case (7 j r st)
  then show ?case by force
qed auto

lemma group_captured:
  assumes "re_match r s = Some (st, caps)" "must k r"
  shows "\<exists>r'. (k, r') \<in> set (groups r) \<and> inlang r' (group k caps)"
proof -
  have m: "(st, caps) \<in> set (mat r (None, s))"
    using assms(1) by (auto simp: re_match_def split: list.splits)
  have "k \<in> fst ` set caps" using must_captured [OF m assms(2)] by simp
  then have "k \<in> fst ` set (rev caps)" by simp
  then obtain v where v: "map_of (rev caps) k = Some v"
    by (metis domD dom_map_of_conv_image_fst)
  then have "(k, v) \<in> set caps" by (auto dest: map_of_SomeD)
  with mat_sound [OF m] v show ?thesis by (fastforce simp: caps_ok_def group_def)
qed

section \<open>The scan\<close>

lemma search_from_split:
  assumes "search_from r p s = Some (gap, st, caps)"
  shows "\<exists>w. s = gap @ w @ snd st \<and> inlang r w \<and> caps_ok r caps"
  using assms
proof (induction r p s arbitrary: gap st caps rule: search_from.induct)
  case (1 r p s)
  show ?case
  proof (cases "mat r (p, s)")
    case (Cons m ms)
    then have "m \<in> set (mat r (p, s))" by simp
    from mat_sound [OF this] "1.prems" Cons show ?thesis
      by (auto simp: search_from.simps [of r p s])
  next
    case Nil
    then show ?thesis
    proof (cases s)
      case Nil
      with "1.prems" \<open>mat r (p, s) = []\<close> show ?thesis
        by (simp add: search_from.simps [of r p "[]"])
    next
      case (Cons c s')
      with "1.prems" Nil obtain gap' where
        g: "search_from r (Some c) s' = Some (gap', st, caps)" "gap = c # gap'"
        by (auto simp: search_from.simps [of r p "c # s'"])
      from "1.IH" [OF Nil Cons g(1)] g(2) Cons show ?thesis by auto
    qed
  qed
qed

lemma search_from_None_Nil: "search_from r p s = None \<Longrightarrow> mat r (p, s) = []"
  by (auto simp: search_from.simps [of r p s] split: list.splits)

definition seg_text :: "segment \<Rightarrow> string" where
  "seg_text seg = fst seg @ fst (snd seg)"

lemma seg_text_simp [simp]: "seg_text (g, w, caps) = g @ w"
  by (simp add: seg_text_def)

text \<open>Gaps, matches and tail are the input, cut up; every match is in the pattern.\<close>

theorem scan_partition:
  "scan r p s = (segs, rest) \<Longrightarrow> concat (map seg_text segs) @ rest = s"
proof (induction r p s arbitrary: segs rest rule: scan.induct)
  case (1 r p s)
  show ?case
  proof (cases "search_from r p s")
    case None
    with "1.prems" show ?thesis by (simp add: scan.simps [of r p s])
  next
    case (Some x)
    obtain gap st caps where x: "x = (gap, st, caps)" by (cases x)
    obtain w where w: "s = gap @ w @ snd st"
      using search_from_split Some x by blast
    show ?thesis
    proof (cases "length (snd st) < length s")
      case True
      obtain segs' rest' where rec: "scan r (fst st) (snd st) = (segs', rest')"
        by (cases "scan r (fst st) (snd st)")
      have "concat (map seg_text segs') @ rest' = snd st"
        using "1.IH" [OF Some [unfolded x] refl refl True rec] .
      moreover have d: "drop (length gap) (consumed (p, s) st) = w"
        using w by (simp add: consumed_def)
      have "segs = (gap, w, caps) # segs'" "rest = rest'"
        using "1.prems" Some x True rec d by (auto simp: scan.simps [of r p s])
      ultimately show ?thesis
        using w by simp
    next
      case False
      with "1.prems" Some x show ?thesis by (simp add: scan.simps [of r p s])
    qed
  qed
qed

theorem scan_sound:
  "scan r p s = (segs, rest) \<Longrightarrow> (g, w, caps) \<in> set segs \<Longrightarrow> inlang r w \<and> caps_ok r caps"
proof (induction r p s arbitrary: segs rest rule: scan.induct)
  case (1 r p s)
  show ?case
  proof (cases "search_from r p s")
    case None
    with "1.prems" show ?thesis by (simp add: scan.simps [of r p s])
  next
    case (Some x)
    obtain gap st caps' where x: "x = (gap, st, caps')" by (cases x)
    obtain v where v: "s = gap @ v @ snd st" "inlang r v" "caps_ok r caps'"
      using search_from_split Some x by blast
    have w: "drop (length gap) (consumed (p, s) st) = v"
      using v by (simp add: consumed_def)
    show ?thesis
    proof (cases "length (snd st) < length s")
      case True
      obtain segs' rest' where rec: "scan r (fst st) (snd st) = (segs', rest')"
        by (cases "scan r (fst st) (snd st)")
      have segs: "segs = (gap, v, caps') # segs'"
        using "1.prems"(1) Some x True rec w by (auto simp: scan.simps [of r p s])
      show ?thesis
        using "1.prems"(2) "1.IH" [OF Some [unfolded x] refl refl True rec] v segs by auto
    next
      case False
      with "1.prems" Some x show ?thesis by (simp add: scan.simps [of r p s])
    qed
  qed
qed

lemma sum_seg_text:
  "sum_list (map (\<lambda>seg. length (fst (snd seg))) segs) \<le> length (concat (map seg_text segs))"
  by (induction segs) (auto simp: seg_text_def)

lemma finditer_length_sum: "sum_list (map (length \<circ> fst) (finditer r s)) \<le> length s"
proof -
  obtain segs rest where sc: "scan r None s = (segs, rest)" by (cases "scan r None s")
  have "length (concat (map seg_text segs)) \<le> length s"
    using scan_partition [OF sc] by (metis length_append le_add1)
  moreover have "map (length \<circ> fst) (finditer r s) = map (\<lambda>seg. length (fst (snd seg))) segs"
    by (simp add: finditer_def sc)
  ultimately show ?thesis using sum_seg_text [of segs] by simp
qed

lemma finditer_sound: "(w, caps) \<in> set (finditer r s) \<Longrightarrow> inlang r w \<and> caps_ok r caps"
proof -
  assume "(w, caps) \<in> set (finditer r s)"
  then obtain g where "(g, w, caps) \<in> set (fst (scan r None s))"
    by (auto simp: finditer_def)
  then show ?thesis using scan_sound by (metis prod.collapse)
qed

lemma search_from_caps:
  "search_from r p s = Some (gap, st, caps) \<Longrightarrow> (k, v) \<in> set caps \<Longrightarrow>
   length gap + length v + length (snd st) \<le> length s"
proof (induction r p s arbitrary: gap st caps rule: search_from.induct)
  case (1 r p s)
  show ?case
  proof (cases "mat r (p, s)")
    case (Cons m ms)
    then have "m \<in> set (mat r (p, s))" by simp
    from mat_caps_length [OF this, of k v] "1.prems" Cons show ?thesis
      by (auto simp: search_from.simps [of r p s])
  next
    case Nil
    show ?thesis
    proof (cases s)
      case Nil
      with "1.prems" \<open>mat r (p, s) = []\<close> show ?thesis
        by (simp add: search_from.simps [of r p "[]"])
    next
      case (Cons c s')
      with "1.prems" \<open>mat r (p, s) = []\<close> obtain gap' where
        g: "search_from r (Some c) s' = Some (gap', st, caps)" "gap = c # gap'"
        by (auto simp: search_from.simps [of r p "c # s'"])
      from "1.IH" [OF \<open>mat r (p, s) = []\<close> Cons g(1) "1.prems"(2)] g(2) Cons show ?thesis by simp
    qed
  qed
qed

lemma scan_caps_length:
  "scan r p s = (segs, rest) \<Longrightarrow> (g, w, caps) \<in> set segs \<Longrightarrow> (k, v) \<in> set caps \<Longrightarrow>
   length v \<le> length w"
proof (induction r p s arbitrary: segs rest rule: scan.induct)
  case (1 r p s)
  show ?case
  proof (cases "search_from r p s")
    case None
    with "1.prems" show ?thesis by (simp add: scan.simps [of r p s])
  next
    case (Some x)
    obtain gap st caps' where x: "x = (gap, st, caps')" by (cases x)
    obtain u where u: "s = gap @ u @ snd st"
      using search_from_split Some x by blast
    have w: "drop (length gap) (consumed (p, s) st) = u"
      using u by (simp add: consumed_def)
    show ?thesis
    proof (cases "length (snd st) < length s")
      case True
      obtain segs' rest' where rec: "scan r (fst st) (snd st) = (segs', rest')"
        by (cases "scan r (fst st) (snd st)")
      have segs: "segs = (gap, u, caps') # segs'"
        using "1.prems"(1) Some x True rec w by (auto simp: scan.simps [of r p s])
      have "length v \<le> length u" if "(k, v) \<in> set caps'"
        using search_from_caps [OF Some [unfolded x] that] u by simp
      then show ?thesis
        using "1.prems"(2,3) "1.IH" [OF Some [unfolded x] refl refl True rec] segs by auto
    next
      case False
      with "1.prems" Some x show ?thesis by (simp add: scan.simps [of r p s])
    qed
  qed
qed

lemma group_length:
  assumes "(w, caps) \<in> set (finditer r s)"
  shows "length (group k caps) \<le> length w"
proof -
  obtain segs rest g where sc: "scan r None s = (segs, rest)" "(g, w, caps) \<in> set segs"
    using assms by (cases "scan r None s") (auto simp: finditer_def)
  show ?thesis
  proof (cases "map_of (rev caps) k")
    case None
    then show ?thesis by (simp add: group_def)
  next
    case (Some v)
    then have "(k, v) \<in> set caps" by (auto dest: map_of_SomeD)
    from scan_caps_length [OF sc this] Some show ?thesis by (simp add: group_def)
  qed
qed

lemma findall_sound: "w \<in> set (findall r s) \<Longrightarrow> inlang r w"
  by (auto simp: findall_def dest: finditer_sound)

lemma scan_None: "search_from r p s = None \<Longrightarrow> scan r p s = ([], s)"
  by (simp add: scan.simps [of r p s])

lemma scan_empty_iff: "consuming r \<Longrightarrow> fst (scan r p s) = [] \<longleftrightarrow> search_from r p s = None"
proof
  assume c: "consuming r" and e: "fst (scan r p s) = []"
  show "search_from r p s = None"
  proof (rule ccontr)
    assume "search_from r p s \<noteq> None"
    then obtain gap st caps where x: "search_from r p s = Some (gap, st, caps)" by auto
    then obtain w where "s = gap @ w @ snd st" "inlang r w" using search_from_split by blast
    with c have "length (snd st) < length s" using consuming_nonempty by fastforce
    with e x show False by (simp add: scan.simps [of r p s] Let_def)
  qed
qed (simp add: scan_None)

lemma re_search_findall: "consuming r \<Longrightarrow> re_search r s \<longleftrightarrow> findall r s \<noteq> []"
  by (simp add: re_search_def findall_def finditer_def flip: scan_empty_iff)

lemma re_sub_no_match: "\<not> re_search r s \<Longrightarrow> re_sub r rep s = s"
proof -
  assume "\<not> re_search r s"
  then have "search_from r None s = None" by (simp only: re_search_def not_not)
  then show ?thesis by (simp add: re_sub_def scan_None)
qed

lemma re_match_sound:
  assumes "re_match r s = Some (st, caps)"
  shows "\<exists>w. s = w @ snd st \<and> inlang r w \<and> caps_ok r caps"
proof -
  from assms have "(st, caps) \<in> set (mat r (None, s))"
    by (auto simp: re_match_def split: list.splits)
  from mat_sound [OF this] show ?thesis by auto
qed

text \<open>A pattern that starts with a required character cannot match a text without it.\<close>

lemma not_search_without:
  assumes "\<And>w. inlang r w \<Longrightarrow> c \<in> set w" "c \<notin> set s"
  shows "search_from r p s = None"
proof (rule ccontr)
  assume "search_from r p s \<noteq> None"
  then obtain gap st caps where x: "search_from r p s = Some (gap, st, caps)" by auto
  obtain w where w: "s = gap @ w @ snd st" "inlang r w"
    using search_from_split [OF x] by auto
  from assms(1) [OF w(2)] w(1) assms(2) show False by simp
qed

end
