(* ===== verification/Dedupe.thy ===== *)
theory Dedupe
  imports Regex
begin

text \<open>
  \<open>py-processor/dedupe.py\<close>: the SimHash fingerprint of a text and its LSH bands.

  The token digest (\<open>hashlib.blake2b\<close> with eight bytes) is a parameter \<open>dig\<close>, from a
  token to its bytes: every result holds for any digest. Fingerprints are Python
  integers, hence \<^typ>\<open>int\<close>. Number and width of the bands are naturals.

  The section on interfaces states what an index needs of a banding scheme as a locale and
  discharges it for \<open>bucket_keys\<close> and \<open>hamming\<close>: the pigeonhole argument of
  \<open>neardup.py\<close>.
\<close>

unbundle bit_operations_syntax

section \<open>Fingerprints\<close>

definition token_char :: "char \<Rightarrow> bool" where
  "token_char c \<longleftrightarrow> 97 \<le> code c \<and> code c \<le> 122 \<or> is_digit c \<or> c = CHR ''_''"

definition token_re :: regex where
  "token_re = plus1 (Cls token_char)"

definition tokens :: "string \<Rightarrow> string list" where
  "tokens text = findall token_re (lower text)"

definition from_bytes_big :: "nat list \<Rightarrow> int" where
  "from_bytes_big bs = foldl (\<lambda>n b. 256 * n + int b) 0 bs"

definition token_hash :: "(string \<Rightarrow> nat list) \<Rightarrow> string \<Rightarrow> nat \<Rightarrow> int" where
  "token_hash dig token bits = from_bytes_big (dig token) AND (push_bit bits 1 - 1)"

text \<open>One token's vote on every position, and all votes.\<close>

definition vote :: "nat \<Rightarrow> int \<Rightarrow> int list \<Rightarrow> int list" where
  "vote bits h v = map (\<lambda>i. if drop_bit i h AND 1 \<noteq> 0 then v ! i + 1 else v ! i - 1) [0..<bits]"

definition votes :: "(string \<Rightarrow> nat list) \<Rightarrow> nat \<Rightarrow> string list \<Rightarrow> int list" where
  "votes dig bits toks = foldl (\<lambda>v tok. vote bits (token_hash dig tok bits) v) (replicate bits 0) toks"

definition assemble :: "nat \<Rightarrow> int list \<Rightarrow> int" where
  "assemble bits v = foldl (\<lambda>out i. if v ! i > 0 then out OR push_bit i 1 else out) 0 [0..<bits]"

definition simhash :: "(string \<Rightarrow> nat list) \<Rightarrow> string \<Rightarrow> nat \<Rightarrow> int" where
  "simhash dig text bits =
     (if text = [] then 0 else assemble bits (votes dig bits (tokens text)))"

fun nat_bit_count :: "nat \<Rightarrow> nat" where
  "nat_bit_count n = (if n = 0 then 0 else n mod 2 + nat_bit_count (n div 2))"

declare nat_bit_count.simps [simp del]

text \<open>\<open>int.bit_count()\<close> counts the ones of the absolute value.\<close>

definition bit_count :: "int \<Rightarrow> nat" where
  "bit_count i = nat_bit_count (nat \<bar>i\<bar>)"

definition hamming :: "int \<Rightarrow> int \<Rightarrow> nat" where
  "hamming a b = bit_count (a XOR b)"

fun band_loop :: "nat \<Rightarrow> nat \<Rightarrow> nat \<Rightarrow> nat \<Rightarrow> int \<Rightarrow> int list" where
  "band_loop 0 bits width shift h = []"
| "band_loop (Suc n) bits width shift h =
     drop_bit shift h # band_loop n bits width shift (push_bit width h AND (push_bit bits 1 - 1))"

definition bucket_keys :: "int \<Rightarrow> nat \<Rightarrow> nat \<Rightarrow> exn + int list" where
  "bucket_keys h bits bands =
     (if bands = 0 then Inl ZeroDivisionError
      else if bits mod bands \<noteq> 0 then Inl (ValueError ''bits must be divisible by bands'')
      else (let width = bits div bands; shift = bits - width
            in Inr (band_loop bands bits width shift h)))"

section \<open>Bit lemmas\<close>

lemma mask_eq: "push_bit bits 1 - 1 = (mask bits :: int)"
  by (simp add: mask_eq_exp_minus_1)

lemma and_mask: "(i :: int) AND (push_bit bits 1 - 1) = take_bit bits i"
  by (simp only: mask_eq take_bit_eq_mask)

lemma and_mask_exp: "(i :: int) AND (2 ^ bits - 1) = take_bit bits i"
  by (simp add: take_bit_eq_mask mask_eq_exp_minus_1)

lemma low_bit_test: "drop_bit i (h :: int) AND 1 \<noteq> 0 \<longleftrightarrow> bit h i"
  by (simp add: and_one_eq bit_iff_odd_drop_bit odd_iff_mod_2_eq_one)

lemma nat_bit_count_card: "nat_bit_count n = card {j. bit n j}"
proof (induction n rule: nat_bit_count.induct)
  case (1 n)
  show ?case
  proof (cases "n = 0")
    case True
    then show ?thesis by (simp add: nat_bit_count.simps)
  next
    case False
    have fin: "finite {j. bit m j}" for m :: nat
    proof -
      have "{j. bit m j} \<subseteq> {..<m}"
        by (auto simp: bit_iff_odd dest!: odd_pos) (metis div_greater_zero_iff less_exp order_less_le_trans)
      then show ?thesis using finite_subset by blast
    qed
    have "{j. bit n j} = {j. j = 0 \<and> odd n} \<union> Suc ` {j. bit (n div 2) j}"
      by (auto simp: bit_0 image_iff bit_Suc[symmetric]) (metis bit_0 bit_Suc not0_implies_Suc)+
    then have "card {j. bit n j} = card {j :: nat. j = 0 \<and> odd n} + card (Suc ` {j. bit (n div 2) j})"
      using fin by (simp add: card_Un_disjoint disjoint_iff)
    also have "card (Suc ` {j. bit (n div 2) j}) = card {j. bit (n div 2) j}"
      by (simp add: card_image)
    also have "card {j :: nat. j = 0 \<and> odd n} = n mod 2"
      by (cases "odd n") (auto simp: odd_iff_mod_2_eq_one)
    finally show ?thesis
      using 1 False by (simp add: nat_bit_count.simps [of n])
  qed
qed

text \<open>The Hamming distance of two fingerprints counts the positions where they differ.\<close>

lemma hamming_card:
  assumes "0 \<le> a" "0 \<le> b"
  shows "hamming a b = card {j. bit a j \<noteq> bit b j}"
proof -
  have nn: "0 \<le> a XOR b" using assms by simp
  have "bit (nat (a XOR b)) j = bit (a XOR b) j" for j
    using nn by (simp add: bit_nat_iff)
  then show ?thesis
    using nn by (simp add: hamming_def bit_count_def nat_bit_count_card bit_xor_iff)
qed

definition in_range :: "nat \<Rightarrow> int \<Rightarrow> bool" where
  "in_range bits h \<longleftrightarrow> 0 \<le> h \<and> h < 2 ^ bits"

lemma in_range_bit: "in_range bits h \<Longrightarrow> bit h j \<Longrightarrow> j < bits"
proof -
  assume r: "in_range bits h" and b: "bit h j"
  have "take_bit bits h = h"
    using r by (simp add: in_range_def take_bit_int_eq_self)
  then show "j < bits" using b by (metis bit_take_bit_iff)
qed

lemma in_range_take_bit: "in_range bits (take_bit bits h)"
  by (simp add: in_range_def)

lemma differ_finite:
  assumes "in_range bits a" "in_range bits b"
  shows "{j. bit a j \<noteq> bit b j} \<subseteq> {..<bits}"
  using in_range_bit assms by blast

lemma differ_fin: "in_range bits a \<Longrightarrow> in_range bits b \<Longrightarrow> finite {j. bit a j \<noteq> bit b j}"
  by (rule finite_subset [OF differ_finite]) auto

theorem hamming_le_bits:
  assumes "in_range bits a" "in_range bits b"
  shows "hamming a b \<le> bits"
proof -
  have "card {j. bit a j \<noteq> bit b j} \<le> card {..<bits}"
    using differ_finite [OF assms] by (intro card_mono) auto
  then show ?thesis using assms by (simp add: hamming_card in_range_def)
qed

lemma hamming_self [simp]: "hamming a a = 0"
  by (simp add: hamming_def bit_count_def nat_bit_count.simps)

lemma hamming_commute: "hamming a b = hamming b a"
  by (simp add: hamming_def xor.commute)

theorem hamming_eq_0:
  assumes "in_range bits a" "in_range bits b"
  shows "hamming a b = 0 \<longleftrightarrow> a = b"
proof
  assume "hamming a b = 0"
  moreover have "finite {j. bit a j \<noteq> bit b j}"
    by (rule differ_fin [OF assms])
  ultimately have "{j. bit a j \<noteq> bit b j} = {}"
    using assms by (simp add: hamming_card in_range_def)
  then show "a = b" by (auto simp: bit_eq_iff)
qed simp

theorem hamming_triangle:
  assumes "in_range bits a" "in_range bits b" "in_range bits c"
  shows "hamming a c \<le> hamming a b + hamming b c"
proof -
  let ?D = "\<lambda>x y. {j. bit x j \<noteq> bit y j}"
  have fin: "finite (?D a b)" "finite (?D b c)"
    using differ_fin assms by blast+
  have "card (?D a c) \<le> card (?D a b \<union> ?D b c)"
    using fin by (intro card_mono) auto
  also have "\<dots> \<le> card (?D a b) + card (?D b c)" by (rule card_Un_le)
  finally show ?thesis using assms by (simp add: hamming_card in_range_def)
qed

section \<open>The fingerprint\<close>

lemma assemble_bit:
  "bit (foldl (\<lambda>out i. if v ! i > 0 then out OR push_bit i 1 else out) a xs) j
     \<longleftrightarrow> bit (a :: int) j \<or> (j \<in> set xs \<and> v ! j > (0 :: int))"
proof (induction xs arbitrary: a)
  case Nil
  then show ?case by simp
next
  case (Cons i xs)
  show ?case
    by (simp add: Cons bit_or_iff bit_exp_iff) auto
qed

lemma bit_assemble: "bit (assemble bits v) j \<longleftrightarrow> j < bits \<and> v ! j > 0"
  by (simp add: assemble_def assemble_bit)

lemma nonneg_bits_in_range:
  assumes "\<And>j. bit (h :: int) j \<Longrightarrow> j < bits"
  shows "in_range bits h"
proof -
  have "take_bit bits h = h"
    using assms by (auto simp: bit_eq_iff bit_take_bit_iff)
  then show ?thesis using in_range_take_bit [of bits h] by simp
qed

lemma assemble_in_range: "in_range bits (assemble bits v)"
  by (rule nonneg_bits_in_range) (simp add: bit_assemble)

lemma simhash_in_range: "in_range bits (simhash dig text bits)"
  using assemble_in_range by (simp add: simhash_def) (simp add: in_range_def)

lemma length_votes [simp]: "length (votes dig bits toks) = bits"
  by (induction toks rule: rev_induct) (simp_all add: votes_def vote_def)

text \<open>A position's tally: tokens that have the bit minus tokens that have not.\<close>

lemma votes_nth:
  "i < bits \<Longrightarrow> votes dig bits toks ! i
     = (\<Sum>tok \<leftarrow> toks. if bit (token_hash dig tok bits) i then 1 else - 1)"
proof (induction toks rule: rev_induct)
  case Nil
  then show ?case by (simp add: votes_def)
next
  case (snoc tok toks)
  then show ?case
    by (simp add: votes_def vote_def low_bit_test)
qed

theorem simhash_bit:
  "text \<noteq> [] \<Longrightarrow> bit (simhash dig text bits) i \<longleftrightarrow>
     i < bits \<and> length (filter (\<lambda>t. \<not> bit (token_hash dig t bits) i) (tokens text))
              < length (filter (\<lambda>t. bit (token_hash dig t bits) i) (tokens text))"
proof -
  have tally: "(\<Sum>tok \<leftarrow> toks. if P tok then 1 else - 1)
      = int (length (filter P toks)) - int (length (filter (\<lambda>t. \<not> P t) toks))" for P and toks :: "string list"
    by (induction toks) auto
  assume "text \<noteq> []"
  then show ?thesis
    by (auto simp: simhash_def bit_assemble votes_nth tally)
qed

section \<open>The bands\<close>

lemma band_loop_length [simp]: "length (band_loop n bits width shift h) = n"
  by (induction n arbitrary: h) auto

lemma band_loop_nth:
  "i < n \<Longrightarrow> band_loop n bits width shift (take_bit bits h) ! i
     = drop_bit shift (take_bit bits (push_bit (width * i) h))"
proof (induction n arbitrary: i h)
  case 0
  then show ?case by simp
next
  case (Suc n)
  have step: "push_bit width (take_bit bits h) AND (2 ^ bits - 1) = take_bit bits (push_bit width h)"
    unfolding and_mask_exp
    by (simp add: bit_eq_iff bit_take_bit_iff bit_push_bit_iff) auto
  show ?case
  proof (cases i)
    case 0
    then show ?thesis by simp
  next
    case (Suc k)
    with Suc.prems have "k < n" by simp
    from Suc.IH [OF this, of "push_bit width h"] show ?thesis
      by (simp add: Suc step push_bit_push_bit add.commute)
  qed
qed

definition band :: "nat \<Rightarrow> nat \<Rightarrow> nat \<Rightarrow> int \<Rightarrow> int" where
  "band bits bands i h = take_bit (bits div bands) (drop_bit (bits - (bits div bands) * Suc i) h)"

text \<open>Band \<open>i\<close> is the \<open>i\<close>-th slice from the top of the fingerprint.\<close>

lemma bucket_keys_slices:
  assumes "0 < bands" "bits mod bands = 0" "in_range bits h"
  shows "bucket_keys h bits bands = Inr (map (\<lambda>i. band bits bands i h) [0..<bands])"
proof -
  let ?w = "bits div bands"
  have bw: "bits = bands * ?w" using assms(2) by (metis mult_div_mod_eq add.right_neutral)
  have h: "take_bit bits h = h"
    using assms(3) by (simp add: in_range_def take_bit_int_eq_self)
  have "band_loop bands bits ?w (bits - ?w) h ! i = band bits bands i h" if "i < bands" for i
  proof -
    have le: "?w * Suc i \<le> bits"
      using that bw by (metis Suc_leI mult.commute mult_le_mono2)
    have "band_loop bands bits ?w (bits - ?w) h ! i
        = drop_bit (bits - ?w) (take_bit bits (push_bit (?w * i) h))"
      using band_loop_nth [OF that, of bits ?w "bits - ?w" h] h by simp
    also have "\<dots> = band bits bands i h"
      unfolding band_def using le
      by (auto simp: bit_eq_iff bit_take_bit_iff bit_drop_bit_eq bit_push_bit_iff algebra_simps)
    finally show ?thesis .
  qed
  then have "band_loop bands bits ?w (bits - ?w) h = map (\<lambda>i. band bits bands i h) [0..<bands]"
    by (intro nth_equalityI) auto
  then show ?thesis using assms by (simp add: bucket_keys_def Let_def)
qed

lemma bit_band:
  "bit (band bits bands i h) k \<longleftrightarrow>
     k < bits div bands \<and> bit h (bits - (bits div bands) * Suc i + k)"
  by (simp add: band_def bit_take_bit_iff bit_drop_bit_eq)

text \<open>Pigeonhole: fewer differing bits than bands leave one band untouched.\<close>

lemma band_collision:
  assumes "bits mod bands = 0" "in_range bits a" "in_range bits b" "hamming a b < bands"
  shows "\<exists>i < bands. band bits bands i a = band bits bands i b"
proof -
  let ?w = "bits div bands"
  let ?D = "{j. bit a j \<noteq> bit b j}"
  let ?f = "\<lambda>j. bands - 1 - j div ?w"
  have bw: "bits = bands * ?w" using assms(1) by (metis mult_div_mod_eq add.right_neutral)
  have "card (?f ` ?D) \<le> card ?D"
    by (rule card_image_le) (rule differ_fin [OF assms(2,3)])
  also have "\<dots> < bands"
    using assms by (simp add: hamming_card in_range_def)
  finally have "\<not> {..<bands} \<subseteq> ?f ` ?D"
    using card_mono [OF finite_imageI [OF differ_fin [OF assms(2,3)]], of "{..<bands}" ?f] by auto
  then obtain i where i: "i < bands" "i \<notin> ?f ` ?D" by auto
  have "bit a (bits - ?w * Suc i + k) = bit b (bits - ?w * Suc i + k)" if k: "k < ?w" for k
  proof -
    have "bits - ?w * Suc i = ?w * (bands - Suc i)"
      by (subst bw) (simp add: diff_mult_distrib2 mult.commute)
    then have "(bits - ?w * Suc i + k) div ?w = bands - Suc i"
      using k by simp
    then have "?f (bits - ?w * Suc i + k) = i"
      using i(1) by simp
    with i(2) show ?thesis by force
  qed
  then have "band bits bands i a = band bits bands i b"
    by (auto simp: bit_eq_iff bit_band)
  with i(1) show ?thesis by blast
qed

section \<open>The contract of a banding scheme\<close>

text \<open>
  What an LSH index needs: every fingerprint has the same number of band keys, and two
  fingerprints within the radius agree on one of them. An index that files each
  fingerprint under its keys then finds exactly the near neighbours by looking at the
  buckets of the query and checking the distance of what they hold.
\<close>

locale banding_scheme =
  fixes ok :: "'f \<Rightarrow> bool"
    and keys :: "'f \<Rightarrow> 'k list"
    and dist :: "'f \<Rightarrow> 'f \<Rightarrow> nat"
    and bands :: nat
    and radius :: nat
  assumes keys_length: "ok a \<Longrightarrow> length (keys a) = bands"
    and keys_collide: "ok a \<Longrightarrow> ok b \<Longrightarrow> dist a b \<le> radius \<Longrightarrow> \<exists>i < bands. keys a ! i = keys b ! i"
begin

definition bucket :: "'f set \<Rightarrow> nat \<Rightarrow> 'k \<Rightarrow> 'f set" where
  "bucket S i k = {b \<in> S. keys b ! i = k}"

definition probe :: "'f set \<Rightarrow> 'f \<Rightarrow> bool" where
  "probe S a \<longleftrightarrow> (\<exists>i < bands. \<exists>b \<in> bucket S i (keys a ! i). dist a b \<le> radius)"

lemma probe_complete:
  "ok a \<Longrightarrow> b \<in> S \<Longrightarrow> ok b \<Longrightarrow> dist a b \<le> radius \<Longrightarrow> probe S a"
  using keys_collide [of a b] by (force simp: probe_def bucket_def)

lemma probe_sound: "probe S a \<Longrightarrow> \<exists>b \<in> S. dist a b \<le> radius"
  by (auto simp: probe_def bucket_def)

lemma probe_iff:
  "ok a \<Longrightarrow> \<forall>b \<in> S. ok b \<Longrightarrow> probe S a \<longleftrightarrow> (\<exists>b \<in> S. dist a b \<le> radius)"
  using probe_complete probe_sound by blast

end

definition band_keys :: "nat \<Rightarrow> nat \<Rightarrow> int \<Rightarrow> int list" where
  "band_keys bits bands h = (case bucket_keys h bits bands of Inl _ \<Rightarrow> [] | Inr ks \<Rightarrow> ks)"

lemma band_keys_eq:
  "0 < bands \<Longrightarrow> bits mod bands = 0 \<Longrightarrow> in_range bits h \<Longrightarrow>
   band_keys bits bands h = map (\<lambda>i. band bits bands i h) [0..<bands]"
  by (simp add: band_keys_def bucket_keys_slices)

lemma bucket_keys_scheme:
  assumes "bits mod bands = 0" "radius < bands"
  shows "banding_scheme (in_range bits) (band_keys bits bands) hamming bands radius"
proof
  have pos: "0 < bands" using assms by simp
  show "length (band_keys bits bands a) = bands" if "in_range bits a" for a
    using that assms(1) pos by (simp add: band_keys_eq)
  show "\<exists>i < bands. band_keys bits bands a ! i = band_keys bits bands b ! i"
    if "in_range bits a" "in_range bits b" "hamming a b \<le> radius" for a b
    using band_collision [OF assms(1) that(1,2)] that assms pos by (auto simp: band_keys_eq)
qed

text \<open>The shipped configuration: 64 bits, 4 bands, distance at most 3.\<close>

interpretation lsh: banding_scheme "in_range 64" "band_keys 64 4" hamming 4 3
  by (rule bucket_keys_scheme) simp_all

section \<open>Properties\<close>

lemma fold_bands_prefix:
  assumes "in_range bits h" "bits mod bands = 0"
  shows "n \<le> bands \<Longrightarrow>
    foldl (\<lambda>acc k. push_bit (bits div bands) acc OR k) 0 (map (\<lambda>i. band bits bands i h) [0..<n])
      = drop_bit (bits - (bits div bands) * n) h"
proof (induction n)
  case 0
  have "take_bit bits h = h"
    using assms(1) by (simp add: in_range_def take_bit_int_eq_self)
  then have "drop_bit bits h = 0"
    by (auto simp: bit_eq_iff bit_drop_bit_eq) (metis bit_take_bit_iff not_add_less1)
  then show ?case by simp
next
  case (Suc n)
  let ?w = "bits div bands"
  have "?w * bands = bits" using assms(2) by (metis div_mult_mod_eq add.right_neutral)
  then have le: "?w * Suc n \<le> bits"
    using Suc.prems by (metis mult_le_mono2)
  have "push_bit ?w (drop_bit (bits - ?w * n) h) OR band bits bands n h
      = drop_bit (bits - ?w * Suc n) h"
  proof (rule bit_eqI)
    fix j
    show "bit (push_bit ?w (drop_bit (bits - ?w * n) h) OR band bits bands n h) j
        = bit (drop_bit (bits - ?w * Suc n) h) j"
    proof (cases "j < ?w")
      case True
      then show ?thesis by (simp add: bit_or_iff bit_push_bit_iff bit_drop_bit_eq bit_band)
    next
      case False
      then have "bits - ?w * n + (j - ?w) = bits - ?w * Suc n + j"
        using le by simp
      with False show ?thesis
        by (simp add: bit_or_iff bit_push_bit_iff bit_drop_bit_eq bit_band)
    qed
  qed
  with Suc show ?case by simp
qed

text \<open>
  C30: Banding is a lossless cut of the fingerprint: for a number of bands that divides the
  width, \<open>bucket_keys\<close> returns one key per band, every key fits in the band's width, and
  shifting the keys together again from the top band down gives back the fingerprint.
\<close>

theorem bucket_keys_reassemble:
  assumes "0 < bands" "bits mod bands = 0" "in_range bits h"
  shows "\<exists>ks. bucket_keys h bits bands = Inr ks \<and> length ks = bands
    \<and> (\<forall>k \<in> set ks. in_range (bits div bands) k)
    \<and> foldl (\<lambda>acc k. push_bit (bits div bands) acc OR k) 0 ks = h"
proof (intro exI conjI)
  let ?ks = "map (\<lambda>i. band bits bands i h) [0..<bands]"
  show "bucket_keys h bits bands = Inr ?ks"
    by (rule bucket_keys_slices [OF assms])
  show "length ?ks = bands" by simp
  show "\<forall>k \<in> set ?ks. in_range (bits div bands) k"
    by (simp add: band_def in_range_take_bit)
  have "(bits div bands) * bands = bits"
    using assms(2) by (metis div_mult_mod_eq add.right_neutral)
  then show "foldl (\<lambda>acc k. push_bit (bits div bands) acc OR k) 0 ?ks = h"
    using fold_bands_prefix [OF assms(3,2), of bands] by simp
qed

theorem bucket_keys_reassemble_witness:
  "\<exists>ks. bucket_keys 0x0123456789ABCDEF 64 4 = Inr ks \<and> length ks = 4
    \<and> (\<forall>k \<in> set ks. in_range (64 div 4) k)
    \<and> foldl (\<lambda>acc k. push_bit (64 div 4) acc OR k) 0 ks = 0x0123456789ABCDEF"
  by (rule bucket_keys_reassemble) (simp_all add: in_range_def)



text \<open>
  C31: The fingerprint is the bitwise majority of the token digests: bit \<open>i\<close> of
  \<open>simhash\<close> is set exactly when it is below the width and more tokens of the text have
  that bit in their digest than have not. In particular a tie gives 0.
\<close>

theorem simhash_majority:
  "bit (simhash dig text bits) i \<longleftrightarrow> i < bits
     \<and> length (filter (\<lambda>t. \<not> bit (token_hash dig t bits) i) (tokens text))
       < length (filter (\<lambda>t. bit (token_hash dig t bits) i) (tokens text))"
proof (cases "text = []")
  case True
  have "tokens [] = []"
    by (simp add: tokens_def lower_def findall_def finditer_def scan_None search_from.simps
        token_re_def plus1_def)
  with True show ?thesis by (simp add: simhash_def)
next
  case False
  then show ?thesis by (rule simhash_bit)
qed

text \<open>
  The Hamming distance the duplicate check uses is a metric on fingerprints and never
  exceeds their width: it is the number of differing bits, zero only between equal
  fingerprints, symmetric, and satisfies the triangle inequality.
\<close>

theorem hamming_metric:
  assumes "in_range bits a" "in_range bits b" "in_range bits c"
  shows "hamming a b = card {j. bit a j \<noteq> bit b j} \<and> hamming a b \<le> bits
    \<and> (hamming a b = 0 \<longleftrightarrow> a = b) \<and> hamming a b = hamming b a
    \<and> hamming a c \<le> hamming a b + hamming b c"
proof (intro conjI)
  show "hamming a b = card {j. bit a j \<noteq> bit b j}"
    using assms by (simp add: hamming_card in_range_def)
  show "hamming a b \<le> bits" by (rule hamming_le_bits [OF assms(1,2)])
  show "hamming a b = 0 \<longleftrightarrow> a = b" by (rule hamming_eq_0 [OF assms(1,2)])
  show "hamming a b = hamming b a" by (rule hamming_commute)
  show "hamming a c \<le> hamming a b + hamming b c" by (rule hamming_triangle [OF assms])
qed

theorem hamming_metric_witness:
  "hamming 10 3 \<le> hamming 10 5 + hamming 5 3 \<and> hamming 10 5 \<le> 4"
  using hamming_metric [of 4 10 5 3] by (simp add: in_range_def)

end
