(* ===== verification/Neardup.thy ===== *)
theory Neardup
  imports Dedupe Effects
begin

text \<open>
  \<open>py-processor/neardup.py\<close>: the near-duplicate index in Redis. Each fingerprint is a
  member of one Redis set per band; a text is a duplicate when a set it shares with an
  indexed fingerprint holds one within the Hamming threshold.

  Redis is the environment. What the results need of it is \<open>sets_persist\<close> (a member
  added to a set that never got an expiry is returned by later reads) and
  \<open>sets_only_added\<close> (a read returns only members somebody added); both are the documented
  behaviour of SADD and SMEMBERS. \<open>fake_redis\<close> is the in-memory stub of
  \<open>tests/test_neardup.py\<close> as an environment; it has both properties and serves the
  witnesses.
\<close>

section \<open>Operations\<close>

definition band_prefix :: string where
  "band_prefix = ''simhash:band''"

definition band_key :: "nat \<Rightarrow> int \<Rightarrow> string" where
  "band_key band_idx bucket_val = band_prefix @ '':'' @ show_nat band_idx @ '':'' @ show_int bucket_val"

text \<open>The inner loop of \<open>is_duplicate\<close>: members that are no integers are skipped.\<close>

definition dup_members :: "int \<Rightarrow> int \<Rightarrow> string list \<Rightarrow> bool" where
  "dup_members chash threshold members = list_ex (\<lambda>raw. case py_int raw of
       None \<Rightarrow> False
     | Some existing \<Rightarrow> int (hamming chash existing) \<le> threshold) members"

fun dup_bands :: "env \<Rightarrow> int \<Rightarrow> int \<Rightarrow> nat \<Rightarrow> int list \<Rightarrow> ('z world_scheme, bool) prog" where
  "dup_bands env chash threshold i [] = ret False"
| "dup_bands env chash threshold i (bv # ks) =
     bindP (call_texts env (Smembers (band_key i bv))) (\<lambda>members.
       if dup_members chash threshold members then ret True
       else dup_bands env chash threshold (Suc i) ks)"

definition is_duplicate ::
  "env \<Rightarrow> (string \<Rightarrow> nat list) \<Rightarrow> nat \<Rightarrow> nat \<Rightarrow> int \<Rightarrow> string \<Rightarrow> ('z world_scheme, bool \<times> int) prog" where
  "is_duplicate env dig bits bands threshold text =
     (let chash = simhash dig text bits
      in bindP (liftE (bucket_keys chash bits bands)) (\<lambda>ks.
         bindP (dup_bands env chash threshold 0 ks) (\<lambda>d. ret (d, chash))))"

definition index_cmds :: "int \<Rightarrow> int \<Rightarrow> int list \<Rightarrow> cmd list" where
  "index_cmds ttl chash ks = concat (map (\<lambda>(i, bv).
     Sadd (band_key i bv) (show_int chash) # (if ttl > 0 then [Expire (band_key i bv) ttl] else []))
     (enumerate 0 ks))"

definition index :: "env \<Rightarrow> nat \<Rightarrow> nat \<Rightarrow> int \<Rightarrow> int \<Rightarrow> ('z world_scheme, unit) prog" where
  "index env bits bands ttl chash =
     bindP (liftE (bucket_keys chash bits bands)) (\<lambda>ks. pipe_execute env (index_cmds ttl chash ks))"

definition warm_sentinel :: string where
  "warm_sentinel = ''simhash:warmed:v1''"

text \<open>
  The loop of \<open>warm_from_db\<close>: the queue of the pipeline, which is flushed after every 500
  fingerprints, and the count. It returns the commands still queued.
\<close>

fun warm_loop ::
  "env \<Rightarrow> nat \<Rightarrow> nat \<Rightarrow> int \<Rightarrow> cmd list \<Rightarrow> nat \<Rightarrow> int option list \<Rightarrow> ('z world_scheme, cmd list) prog" where
  "warm_loop env bits bands ttl queue count [] = ret queue"
| "warm_loop env bits bands ttl queue count (None # hs) =
     warm_loop env bits bands ttl queue count hs"
| "warm_loop env bits bands ttl queue count (Some h # hs) =
     bindP (liftE (bucket_keys h bits bands)) (\<lambda>ks.
       (let queue' = queue @ index_cmds ttl h ks; count' = Suc count
        in if count' mod 500 = 0
           then bindP (pipe_execute env queue') (\<lambda>_. warm_loop env bits bands ttl [] count' hs)
           else warm_loop env bits bands ttl queue' count' hs))"

text \<open>The part of \<open>warm_from_db\<close> after the query, and the whole.\<close>

definition warm_body ::
  "env \<Rightarrow> nat \<Rightarrow> nat \<Rightarrow> int \<Rightarrow> int option list \<Rightarrow> ('z world_scheme, unit) prog" where
  "warm_body env bits bands ttl hs =
     bindP (warm_loop env bits bands ttl [] 0 hs) (\<lambda>queue.
     bindP (pipe_execute env queue) (\<lambda>_. call_unit env (SetKey warm_sentinel ''1'')))"

definition warm_from_db :: "env \<Rightarrow> nat \<Rightarrow> nat \<Rightarrow> int \<Rightarrow> ('z world_scheme, unit) prog" where
  "warm_from_db env bits bands ttl =
     bindP (call_num env (Exists warm_sentinel)) (\<lambda>n.
       if n \<noteq> 0 then ret ()
       else bindP (call env SelectContentHashes) (\<lambda>r. case r of
           Hashes hs \<Rightarrow> warm_body env bits bands ttl hs
         | _ \<Rightarrow> throw bad_reply))"

section \<open>What Redis promises\<close>

definition never_expires :: "event list \<Rightarrow> string \<Rightarrow> bool" where
  "never_expires tr k \<longleftrightarrow> (\<forall>n r. (Expire k n, r) \<notin> set tr)"

definition sets_persist :: "env \<Rightarrow> bool" where
  "sets_persist env \<longleftrightarrow> (\<forall>tr k v r ms. (Sadd k v, r) \<in> set tr \<longrightarrow> ok_reply r \<longrightarrow> never_expires tr k \<longrightarrow>
     env tr (Smembers k) = Texts ms \<longrightarrow> v \<in> set ms)"

definition sets_only_added :: "env \<Rightarrow> bool" where
  "sets_only_added env \<longleftrightarrow> (\<forall>tr k v ms. env tr (Smembers k) = Texts ms \<longrightarrow> v \<in> set ms \<longrightarrow>
     (\<exists>r. (Sadd k v, r) \<in> set tr))"

text \<open>The same without commands that took effect although they failed for the client.\<close>

definition sets_only_acked :: "env \<Rightarrow> bool" where
  "sets_only_acked env \<longleftrightarrow> (\<forall>tr k v ms. env tr (Smembers k) = Texts ms \<longrightarrow> v \<in> set ms \<longrightarrow>
     (\<exists>r. ok_reply r \<and> (Sadd k v, r) \<in> set tr))"

lemma sets_persistD:
  "sets_persist env \<Longrightarrow> (Sadd k v, r) \<in> set tr \<Longrightarrow> ok_reply r \<Longrightarrow> never_expires tr k \<Longrightarrow>
   env tr (Smembers k) = Texts ms \<Longrightarrow> v \<in> set ms"
  unfolding sets_persist_def by blast

fun fake_members :: "event list \<Rightarrow> string \<Rightarrow> string list" where
  "fake_members [] k = []"
| "fake_members ((Sadd k' v, r) # tr) k =
     (if k' = k \<and> ok_reply r then List.insert v (fake_members tr k) else fake_members tr k)"
| "fake_members (_ # tr) k = fake_members tr k"

definition fake_redis :: env where
  "fake_redis tr c = (case c of Smembers k \<Rightarrow> Texts (fake_members tr k) | _ \<Rightarrow> Done)"

lemma fake_members_iff:
  "v \<in> set (fake_members tr k) \<longleftrightarrow> (\<exists>r. ok_reply r \<and> (Sadd k v, r) \<in> set tr)"
  by (induction tr k rule: fake_members.induct) auto

lemma fake_redis_sets:
  "sets_persist fake_redis" "sets_only_added fake_redis" "sets_only_acked fake_redis"
  by (auto simp: sets_persist_def sets_only_added_def sets_only_acked_def fake_redis_def
      fake_members_iff)

section \<open>Lemmas\<close>

definition smembers_only :: "event list \<Rightarrow> bool" where
  "smembers_only es \<longleftrightarrow> (\<forall>(c, r) \<in> set es. \<exists>k. c = Smembers k)"

lemma smembers_only_simps [simp]:
  "smembers_only []" "smembers_only ((c, r) # es) \<longleftrightarrow> (\<exists>k. c = Smembers k) \<and> smembers_only es"
  by (auto simp: smembers_only_def)

lemma dup_bands_True:
  "dup_bands env c t i ks s = (Inr True, s') \<Longrightarrow>
   \<exists>j < length ks. \<exists>es ms. smembers_only es \<and> dup_members c t ms
     \<and> env (trace s @ es) (Smembers (band_key (i + j) (ks ! j))) = Texts ms"
proof (induction ks arbitrary: i s)
  case Nil
  then show ?case by (simp add: ret_def)
next
  case (Cons bv ks)
  let ?k = "Smembers (band_key i bv)"
  from Cons.prems obtain ms s1 where ms: "env (trace s) ?k = Texts ms"
      "s1 = s\<lparr>trace := trace s @ [(?k, Texts ms)]\<rparr>"
    and rest: "(if dup_members c t ms then ret True else dup_bands env c t (Suc i) ks) s1 = (Inr True, s')"
    by (auto simp: bindP_eq_Inr call_texts_Inr)
  show ?case
  proof (cases "dup_members c t ms")
    case True
    with ms show ?thesis
      by (intro exI [of _ 0] conjI exI [of _ "[]"] exI [of _ ms]) simp_all
  next
    case False
    with rest obtain j es ms' where j: "j < length ks" "smembers_only es" "dup_members c t ms'"
        "env (trace s1 @ es) (Smembers (band_key (Suc i + j) (ks ! j))) = Texts ms'"
      using Cons.IH [of "Suc i" s1] by auto
    then show ?thesis
      using ms by (intro exI [of _ "Suc j"] conjI exI [of _ "(?k, Texts ms) # es"] exI [of _ ms'])
        simp_all
  qed
qed

lemma dup_bands_False:
  "dup_bands env c t i ks s = (Inr False, s') \<Longrightarrow> j < length ks \<Longrightarrow>
   \<exists>es ms. smembers_only es \<and> \<not> dup_members c t ms
     \<and> env (trace s @ es) (Smembers (band_key (i + j) (ks ! j))) = Texts ms"
proof (induction ks arbitrary: i s j)
  case Nil
  then show ?case by simp
next
  case (Cons bv ks)
  let ?k = "Smembers (band_key i bv)"
  from Cons.prems(1) obtain ms s1 where ms: "env (trace s) ?k = Texts ms" "\<not> dup_members c t ms"
      "s1 = s\<lparr>trace := trace s @ [(?k, Texts ms)]\<rparr>"
    and rest: "dup_bands env c t (Suc i) ks s1 = (Inr False, s')"
    by (auto simp: bindP_eq_Inr call_texts_Inr ret_def split: if_splits)
  show ?case
  proof (cases j)
    case 0
    with ms show ?thesis by (intro exI [of _ "[]"] exI [of _ ms]) simp
  next
    case (Suc j')
    with Cons.prems have "j' < length ks" by simp
    from Cons.IH [OF rest this] obtain es ms' where "smembers_only es" "\<not> dup_members c t ms'"
        "env (trace s1 @ es) (Smembers (band_key (Suc i + j') (ks ! j'))) = Texts ms'"
      by blast
    with ms Suc show ?thesis
      by (intro exI [of _ "(?k, Texts ms) # es"] exI [of _ ms']) simp
  qed
qed

lemma dup_members_iff:
  "dup_members c t ms \<longleftrightarrow> (\<exists>raw \<in> set ms. \<exists>h. py_int raw = Some h \<and> int (hamming c h) \<le> t)"
  by (fastforce simp: dup_members_def list_ex_iff split: option.splits)

lemma is_duplicate_Inr:
  "is_duplicate env dig bits bands t text s = (Inr (d, c), s') \<longleftrightarrow>
     c = simhash dig text bits
     \<and> (\<exists>ks. bucket_keys c bits bands = Inr ks \<and> dup_bands env c t 0 ks s = (Inr d, s'))"
  by (auto simp: is_duplicate_def Let_def bindP_eq_Inr liftE_def ret_def)

lemma index_cmds_Sadd:
  "j < length ks \<Longrightarrow> Sadd (band_key j (ks ! j)) (show_int h) \<in> set (index_cmds ttl h ks)"
  by (force simp: index_cmds_def in_set_enumerate_eq)

text \<open>A fingerprint is indexed in a trace when each of its bands has got its member.\<close>

definition indexed :: "event list \<Rightarrow> nat \<Rightarrow> nat \<Rightarrow> int \<Rightarrow> bool" where
  "indexed tr bits bands h \<longleftrightarrow> (\<exists>ks. bucket_keys h bits bands = Inr ks \<and>
     (\<forall>j < length ks. \<exists>r. ok_reply r \<and> (Sadd (band_key j (ks ! j)) (show_int h), r) \<in> set tr))"

lemma indexed_mono: "indexed tr bits bands h \<Longrightarrow> set tr \<subseteq> set tr' \<Longrightarrow> indexed tr' bits bands h"
  unfolding indexed_def by (meson subsetD)

lemma pipe_execute_Sadd:
  assumes "pipe_execute env cs s = (Inr u, s')" "c \<in> set cs"
  shows "\<exists>r. ok_reply r \<and> (c, r) \<in> set (trace s')"
proof -
  obtain rs where rs: "length rs = length cs" "list_all ok_reply rs"
      "s' = s\<lparr>trace := trace s @ zip cs rs\<rparr>"
    using pipe_execute_Inr [OF assms(1)] by blast
  obtain n where n: "n < length cs" "cs ! n = c"
    using assms(2) by (auto simp: in_set_conv_nth)
  then have "(c, rs ! n) \<in> set (zip cs rs)"
    using rs(1) by (auto simp: set_zip)
  with rs n show ?thesis by (auto simp: list_all_length)
qed

lemma index_indexed:
  assumes "index env bits bands ttl h s = (Inr u, s')"
  shows "indexed (trace s') bits bands h"
proof -
  obtain ks where ks: "bucket_keys h bits bands = Inr ks"
      "pipe_execute env (index_cmds ttl h ks) s = (Inr u, s')"
    using assms by (auto simp: index_def bindP_eq_Inr liftE_def)
  with pipe_execute_Sadd [OF ks(2)] index_cmds_Sadd show ?thesis
    unfolding indexed_def by blast
qed

lemma never_expires_append:
  "never_expires tr k \<Longrightarrow> smembers_only es \<Longrightarrow> never_expires (tr @ es) k"
  by (fastforce simp: never_expires_def smembers_only_def)

text \<open>The heart of recall: an indexed near neighbour sits in a bucket that gets read.\<close>

lemma indexed_found:
  assumes "sets_persist env" and expiry: "\<And>k. never_expires (trace s) k"
    and div: "bits mod bands = 0" "t < int bands"
    and h: "in_range bits h" "indexed (trace s) bits bands h"
      "int (hamming (simhash dig text bits) h) \<le> t"
    and run: "is_duplicate env dig bits bands t text s = (Inr (d, c), s')"
  shows d
proof (rule ccontr)
  assume "\<not> d"
  let ?c = "simhash dig text bits"
  have pos: "0 < bands" using div(2) h(3) by simp
  obtain ks where ks: "bucket_keys ?c bits bands = Inr ks"
      "dup_bands env ?c t 0 ks s = (Inr False, s')"
    using run \<open>\<not> d\<close> by (auto simp: is_duplicate_Inr)
  obtain kh where kh: "bucket_keys h bits bands = Inr kh"
      "\<And>j. j < length kh \<Longrightarrow> \<exists>r. ok_reply r \<and> (Sadd (band_key j (kh ! j)) (show_int h), r) \<in> set (trace s)"
    using h(2) by (auto simp: indexed_def)
  have near: "hamming ?c h < bands" using h(3) div(2) by simp
  obtain j where j: "j < bands" "ks ! j = kh ! j"
    using band_collision [OF div(1) simhash_in_range h(1) near] ks(1) kh(1)
      bucket_keys_slices [OF pos div(1) simhash_in_range] bucket_keys_slices [OF pos div(1) h(1)]
    by fastforce
  have len: "length ks = bands" "length kh = bands"
    using ks(1) kh(1) bucket_keys_slices [OF pos div(1) simhash_in_range]
      bucket_keys_slices [OF pos div(1) h(1)] by fastforce+
  obtain es ms where es: "smembers_only es" "\<not> dup_members ?c t ms"
      "env (trace s @ es) (Smembers (band_key j (ks ! j))) = Texts ms"
    using dup_bands_False [OF ks(2), of j] j len by auto
  obtain r where r: "ok_reply r" "(Sadd (band_key j (kh ! j)) (show_int h), r) \<in> set (trace s @ es)"
    using kh(2) [of j] j len by auto
  have "show_int h \<in> set ms"
    by (rule sets_persistD [OF assms(1) r(2,1) never_expires_append [OF expiry es(1)]])
      (use es j in simp)
  then have "dup_members ?c t ms"
    using h(3) py_int_show_int by (auto simp: dup_members_iff)
  with es(2) show False by simp
qed

section \<open>The index as a set of fingerprints\<close>

text \<open>
  \<open>filed tr S\<close>: the members of the band sets that the trace built up are those of the
  fingerprints in \<open>S\<close>, each filed under all four of its bands. This relates the Redis
  keys to the abstract index of the banding contract.
\<close>

definition added :: "event list \<Rightarrow> string \<Rightarrow> string \<Rightarrow> bool" where
  "added tr k v \<longleftrightarrow> (\<exists>r. ok_reply r \<and> (Sadd k v, r) \<in> set tr)"

lemma sets_read:
  assumes "sets_persist env" "sets_only_acked env" "never_expires tr k"
    "env tr (Smembers k) = Texts ms"
  shows "v \<in> set ms \<longleftrightarrow> added tr k v"
proof
  show "v \<in> set ms \<Longrightarrow> added tr k v"
    using assms(2,4) unfolding sets_only_acked_def added_def by blast
  show "added tr k v \<Longrightarrow> v \<in> set ms"
    using sets_persistD [OF assms(1) _ _ assms(3,4)] unfolding added_def by blast
qed

definition filed :: "event list \<Rightarrow> int set \<Rightarrow> bool" where
  "filed tr S \<longleftrightarrow> (\<forall>i k v. i < 4 \<longrightarrow>
     (added tr (band_key i k) v \<longleftrightarrow> (\<exists>h \<in> lsh.bucket S i k. v = show_int h)))
     \<and> (\<forall>k. never_expires tr k)"

lemma show_int_inject: "show_int a = show_int b \<longleftrightarrow> a = b"
  by (metis option.inject py_int_show_int)

lemma colon_not_digit: "\<not> is_digit CHR '':''"
  by (simp add: is_digit_def code_def)

lemma digits_then_colon:
  "list_all is_digit a \<Longrightarrow> list_all is_digit b \<Longrightarrow>
   a @ CHR '':'' # u = b @ CHR '':'' # v \<Longrightarrow> a = b \<and> u = v"
proof (induction a arbitrary: b)
  case Nil
  then show ?case using colon_not_digit by (cases b) auto
next
  case (Cons x a)
  then show ?case using colon_not_digit by (cases b) auto
qed

lemma band_key_inject: "band_key i k = band_key j l \<longleftrightarrow> i = j \<and> k = l"
proof
  assume "band_key i k = band_key j l"
  then have eq: "show_nat i @ CHR '':'' # show_int k = show_nat j @ CHR '':'' # show_int l"
    by (simp add: band_key_def)
  from digits_then_colon [OF show_nat_digits show_nat_digits eq]
  have "show_nat i = show_nat j" "show_int k = show_int l" by auto
  then have "show_int (int i) = show_int (int j)" by (simp add: show_int_def)
  with \<open>show_int k = show_int l\<close> show "i = j \<and> k = l"
    by (simp add: show_int_inject)
qed simp

lemma filed_Nil: "filed [] {}"
  by (simp add: filed_def added_def never_expires_def lsh.bucket_def)

lemma added_append: "added (tr @ es) k v \<longleftrightarrow> added tr k v \<or> added es k v"
  by (auto simp: added_def)

lemma added_reads: "smembers_only es \<Longrightarrow> \<not> added es k v"
  by (fastforce simp: added_def smembers_only_def)

text \<open>Reading keeps the relation; indexing adds the fingerprint.\<close>

lemma filed_reads: "filed tr S \<Longrightarrow> smembers_only es \<Longrightarrow> filed (tr @ es) S"
  by (simp add: filed_def added_append added_reads never_expires_append)

lemma band_keys_64:
  assumes "in_range 64 h"
  shows "bucket_keys h 64 4 = Inr (band_keys 64 4 h)" and "length (band_keys 64 4 h) = 4"
proof -
  show "bucket_keys h 64 4 = Inr (band_keys 64 4 h)"
    using assms by (simp add: band_keys_eq bucket_keys_slices)
  show "length (band_keys 64 4 h) = 4" by (rule lsh.keys_length [OF assms])
qed

lemma filed_index:
  assumes "filed (trace s) S" "in_range 64 h" and ttl: "ttl \<le> 0"
    and run: "index env 64 4 ttl h s = (Inr u, s')"
  shows "filed (trace s') (insert h S)"
proof -
  let ?ks = "band_keys 64 4 h"
  let ?cs = "index_cmds ttl h ?ks"
  note ks = band_keys_64 [OF assms(2)]
  have cs: "?cs = map (\<lambda>(i, bv). Sadd (band_key i bv) (show_int h)) (enumerate 0 ?ks)"
    using ttl by (simp add: index_cmds_def split_def concat_map_singleton)
  obtain rs where rs: "length rs = length ?cs" "list_all ok_reply rs"
      "trace s' = trace s @ zip ?cs rs"
    using run pipe_execute_Inr by (force simp: index_def bindP_eq_Inr liftE_def ks)
  have "added (zip ?cs rs) (band_key i k) v \<longleftrightarrow> v = show_int h \<and> ?ks ! i = k" if "i < 4" for i k v
  proof
    assume "added (zip ?cs rs) (band_key i k) v"
    then have "Sadd (band_key i k) v \<in> set ?cs"
      by (auto simp: added_def dest: set_zip_leftD)
    then show "v = show_int h \<and> ?ks ! i = k"
      by (auto simp: cs band_key_inject in_set_enumerate_eq)
  next
    assume a: "v = show_int h \<and> ?ks ! i = k"
    have "?cs ! i = Sadd (band_key i k) v" "i < length ?cs"
      using a that ks(2) by (simp_all add: cs nth_enumerate_eq)
    then have "(Sadd (band_key i k) v, rs ! i) \<in> set (zip ?cs rs)"
      using rs(1) unfolding set_zip by (auto intro!: exI [of _ i])
    then show "added (zip ?cs rs) (band_key i k) v"
      using rs \<open>i < length ?cs\<close> by (auto simp: added_def list_all_length)
  qed
  moreover have "(Expire k n, r) \<notin> set (zip ?cs rs)" for k n r
    by (auto simp: cs dest!: set_zip_leftD)
  ultimately show ?thesis
    using assms(1) unfolding rs(3) filed_def added_append never_expires_def
    by (auto simp: lsh.bucket_def)
qed

text \<open>The lookup is the probe of the banding contract.\<close>

lemma is_duplicate_probe:
  assumes env: "sets_persist env" "sets_only_acked env"
    and filed: "filed (trace s) S"
    and run: "is_duplicate env dig 64 4 3 text s = (Inr (d, c), s')"
  shows "d \<longleftrightarrow> lsh.probe S c"
proof -
  have range: "in_range 64 c"
    using run simhash_in_range by (auto simp: is_duplicate_Inr)
  have run': "dup_bands env c 3 0 (band_keys 64 4 c) s = (Inr d, s')"
    using run band_keys_64(1) [OF range] by (auto simp: is_duplicate_Inr)
  have bucket: "dup_members c 3 ms \<longleftrightarrow> (\<exists>h \<in> lsh.bucket S i k. hamming c h \<le> 3)"
    if "smembers_only es" "env (trace s @ es) (Smembers (band_key i k)) = Texts ms" "i < 4"
    for es ms i k
  proof -
    have f: "filed (trace s @ es) S" by (rule filed_reads [OF filed that(1)])
    have "never_expires (trace s @ es) (band_key i k)"
      using f by (simp add: filed_def)
    then have "v \<in> set ms \<longleftrightarrow> added (trace s @ es) (band_key i k) v" for v
      by (rule sets_read [OF env _ that(2)])
    then have "v \<in> set ms \<longleftrightarrow> (\<exists>h \<in> lsh.bucket S i k. v = show_int h)" for v
      using f that(3) by (simp add: filed_def)
    then have "set ms = show_int ` lsh.bucket S i k" by auto
    then have "dup_members c 3 ms \<longleftrightarrow> (\<exists>h \<in> lsh.bucket S i k. \<exists>h'. py_int (show_int h) = Some h' \<and> int (hamming c h') \<le> 3)"
      unfolding dup_members_iff by simp
    then show ?thesis by (simp add: py_int_show_int)
  qed
  let ?near = "\<lambda>j. \<exists>h \<in> lsh.bucket S j (band_keys 64 4 c ! j). hamming c h \<le> 3"
  have probe: "lsh.probe S c \<longleftrightarrow> (\<exists>j < 4. ?near j)"
    by (simp add: lsh.probe_def)
  show ?thesis
  proof (cases d)
    case True
    then obtain j es ms where "j < 4" "smembers_only es" "dup_members c 3 ms"
        "env (trace s @ es) (Smembers (band_key j (band_keys 64 4 c ! j))) = Texts ms"
      using dup_bands_True [of env c 3 0 "band_keys 64 4 c" s s'] run' band_keys_64(2) [OF range]
      by auto
    then have "?near j" using bucket by blast
    with \<open>j < 4\<close> True probe show ?thesis by blast
  next
    case False
    have "\<not> ?near j" if j: "j < 4" for j
    proof -
      obtain es ms where "smembers_only es" "\<not> dup_members c 3 ms"
          "env (trace s @ es) (Smembers (band_key j (band_keys 64 4 c ! j))) = Texts ms"
        using dup_bands_False [of env c 3 0 "band_keys 64 4 c" s s' j] run' False j
          band_keys_64(2) [OF range] by auto
      then show ?thesis using bucket j by blast
    qed
    with False probe show ?thesis by blast
  qed
qed

section \<open>Warming the index\<close>

lemma warm_loop_pipe:
  fixes s :: "'a world_scheme"
  shows "warm_loop env bits bands ttl q n hs s = (Inr q', s1) \<Longrightarrow>
   pipe_execute env q' s1 = (Inr u, s2) \<Longrightarrow>
   (\<forall>c \<in> set q. \<exists>r. ok_reply r \<and> (c, r) \<in> set (trace s2))
   \<and> (\<forall>h. Some h \<in> set hs \<longrightarrow> indexed (trace s2) bits bands h)"
proof (induction hs arbitrary: q n s)
  case Nil
  then show ?case using pipe_execute_Sadd by (fastforce simp: ret_def)
next
  case (Cons oh hs)
  show ?case
  proof (cases oh)
    case None
    with Cons show ?thesis by auto
  next
    case (Some h)
    obtain ks where ks: "bucket_keys h bits bands = Inr ks"
      using Cons.prems(1) Some by (auto simp: bindP_eq_Inr liftE_def)
    let ?q = "q @ index_cmds ttl h ks"
    have ext: "set (trace t) \<subseteq> set (trace s2)"
      if "warm_loop env bits bands ttl [] (Suc n) hs t = (Inr q', s1)" for t
    proof -
      have w: "emits (\<lambda>_. True) (warm_loop env bits bands ttl p m gs :: ('a world_scheme, cmd list) prog)"
        for p m gs
        by (induction env bits bands ttl p m gs rule: warm_loop.induct)
          (auto simp: Let_def intro!: emits_rules)
      have p: "emits (\<lambda>_. True) (pipe_execute env q' :: ('a world_scheme, unit) prog)"
        by (rule emits_pipe) simp
      show ?thesis
        using emitsD [OF w that] emitsD [OF p, of s1 "Inr u" s2] Cons.prems(2) by fastforce
    qed
    have all: "\<forall>c \<in> set ?q. \<exists>r. ok_reply r \<and> (c, r) \<in> set (trace s2)"
      and rest: "\<forall>h. Some h \<in> set hs \<longrightarrow> indexed (trace s2) bits bands h"
    proof (atomize (full), cases "Suc n mod 500 = 0")
      case True
      then obtain s' where s': "pipe_execute env ?q s = (Inr (), s')"
          "warm_loop env bits bands ttl [] (Suc n) hs s' = (Inr q', s1)"
        using Cons.prems(1) Some ks by (auto simp: bindP_eq_Inr liftE_def Let_def)
      show "(\<forall>c \<in> set ?q. \<exists>r. ok_reply r \<and> (c, r) \<in> set (trace s2))
          \<and> (\<forall>h. Some h \<in> set hs \<longrightarrow> indexed (trace s2) bits bands h)"
        using pipe_execute_Sadd [OF s'(1)] ext [OF s'(2)] Cons.IH [OF s'(2) Cons.prems(2)]
        by blast
    next
      case False
      then have "warm_loop env bits bands ttl ?q (Suc n) hs s = (Inr q', s1)"
        using Cons.prems(1) Some ks by (simp add: bindP_eq_Inr liftE_def Let_def)
      from Cons.IH [OF this Cons.prems(2)]
      show "(\<forall>c \<in> set ?q. \<exists>r. ok_reply r \<and> (c, r) \<in> set (trace s2))
          \<and> (\<forall>h. Some h \<in> set hs \<longrightarrow> indexed (trace s2) bits bands h)" .
    qed
    have "indexed (trace s2) bits bands h"
      unfolding indexed_def using ks all index_cmds_Sadd by fastforce
    with all rest Some show ?thesis by auto
  qed
qed

lemma warm_loop_emits:
  "emits (\<lambda>e. \<forall>v. fst e \<noteq> SetKey warm_sentinel v)
     (warm_loop env bits bands ttl q n hs :: ('a world_scheme, cmd list) prog)"
  if "\<forall>c \<in> set q. \<forall>v. c \<noteq> SetKey warm_sentinel v"
  using that
proof (induction env bits bands ttl q n hs rule: warm_loop.induct)
  case (3 env bits bands ttl queue count h hs)
  have new: "\<forall>c \<in> set (queue @ index_cmds ttl h ks). \<forall>v. c \<noteq> SetKey warm_sentinel v" for ks
    using "3.prems" by (auto simp: index_cmds_def)
  show ?case
    using "3.IH"(1) [OF refl refl] "3.IH"(2) [OF refl refl _ new] new
    by (auto simp: Let_def intro!: emits_rules)
qed (auto intro: emits_rules)

lemma warm_loop_queue:
  "warm_loop env bits bands ttl q n hs s = (Inr q', s') \<Longrightarrow>
   \<forall>c \<in> set q. \<forall>v. c \<noteq> SetKey warm_sentinel v \<Longrightarrow> \<forall>c \<in> set q'. \<forall>v. c \<noteq> SetKey warm_sentinel v"
proof (induction env bits bands ttl q n hs arbitrary: s rule: warm_loop.induct)
  case (3 env bits bands ttl queue count h hs)
  have new: "\<forall>c \<in> set (queue @ index_cmds ttl h ks). \<forall>v. c \<noteq> SetKey warm_sentinel v" for ks
    using "3.prems" by (auto simp: index_cmds_def)
  obtain ks s1 where ks: "liftE (bucket_keys h bits bands) s = (Inr ks, s1)"
    using "3.prems"(1) by (auto simp: bindP_eq_Inr)
  show ?case
  proof (cases "Suc count mod 500 = 0")
    case True
    then obtain s2 where "warm_loop env bits bands ttl [] (Suc count) hs s2 = (Inr q', s')"
      using "3.prems"(1) ks by (auto simp: Let_def bindP_eq_Inr)
    from "3.IH"(1) [OF refl refl True this] show ?thesis by simp
  next
    case False
    then have "warm_loop env bits bands ttl (queue @ index_cmds ttl h ks) (Suc count) hs s1 = (Inr q', s')"
      using "3.prems"(1) ks by (simp add: Let_def bindP_Inr)
    from "3.IH"(2) [OF refl refl False this new] show ?thesis .
  qed
qed (auto simp: ret_def)

text \<open>The stub never fails, and indexing without a TTL sets no expiry.\<close>

lemma fake_pipe: "\<exists>s'. pipe_execute fake_redis cs s = (Inr (), s')"
proof (induction cs arbitrary: s)
  case (Cons c cs)
  have "\<exists>r s1. call fake_redis c s = (Inr r, s1)"
    by (cases c) (simp_all add: call_def fake_redis_def Let_def)
  with Cons show ?case by auto
qed (simp add: ret_def)

lemma fake_index:
  "bucket_keys h bits bands = Inr ks \<Longrightarrow> \<exists>s'. index fake_redis bits bands ttl h s = (Inr (), s')"
  using fake_pipe by (simp add: index_def liftE_def bindP_def)

lemma fake_smembers:
  "call_texts fake_redis (Smembers k) s = (Inr (fake_members (trace s) k),
     s\<lparr>trace := trace s @ [(Smembers k, Texts (fake_members (trace s) k))]\<rparr>)"
  by (simp add: call_texts_def bindP_def call_def fake_redis_def ret_def Let_def)

lemma fake_lookup: "\<exists>d s'. dup_bands fake_redis c t i ks s = (Inr d, s')"
  by (induction ks arbitrary: i s) (simp_all add: bindP_def fake_smembers ret_def ex_bool_eq)

lemma index_never_expires:
  assumes "index env bits bands ttl h s = (Inr u, s')" "ttl \<le> 0" "never_expires (trace s) k"
  shows "never_expires (trace s') k"
proof -
  obtain ks where "pipe_execute env (index_cmds ttl h ks) s = (Inr u, s')"
    using assms(1) by (auto simp: index_def bindP_eq_Inr liftE_def)
  from pipe_execute_Inr [OF this] assms(2,3) show ?thesis
    by (auto simp: never_expires_def index_cmds_def dest!: set_zip_leftD)
qed

lemma warm_body_extends:
  "emits (\<lambda>_. True) (warm_body env bits bands ttl hs :: ('a world_scheme, unit) prog)"
  unfolding warm_body_def
  by (intro emits_rules emits_mono [OF warm_loop_emits]) auto

lemma warm_body_complete:
  fixes s :: "'a world_scheme"
  assumes run: "warm_body env bits bands ttl hs s = (r, s')" and es: "trace s' = trace s @ es"
    and key: "(SetKey warm_sentinel v, rep) \<in> set es"
  shows "\<forall>h. Some h \<in> set hs \<longrightarrow> indexed (trace s') bits bands h"
proof -
  let ?N = "\<lambda>e :: event. \<forall>v. fst e \<noteq> SetKey warm_sentinel v"
  have no: "\<not> list_all ?N es" using key by (fastforce simp: list_all_iff)
  obtain r1 s1 where w: "warm_loop env bits bands ttl [] 0 hs s = (r1, s1)"
    by (cases "warm_loop env bits bands ttl [] 0 hs s")
  obtain es1 where es1: "trace s1 = trace s @ es1" "list_all ?N es1"
    using emitsD [OF warm_loop_emits w] by auto
  obtain q where q: "r1 = Inr q"
    using run w es es1 no by (cases r1) (auto simp: warm_body_def bindP_def)
  have qN: "\<forall>c \<in> set q. \<forall>v. c \<noteq> SetKey warm_sentinel v"
    using warm_loop_queue [OF w [unfolded q]] by simp
  obtain r2 s2 where p: "pipe_execute env q s1 = (r2, s2)" by (cases "pipe_execute env q s1")
  have "emits ?N (pipe_execute env q :: ('a world_scheme, unit) prog)"
    using qN by (intro emits_pipe) simp
  from emitsD [OF this p] obtain es2 where es2: "trace s2 = trace s1 @ es2" "list_all ?N es2"
    by blast
  have r2: "r2 = Inr ()"
    using run w q p es es1 es2 no by (cases r2) (auto simp: warm_body_def bindP_def)
  have "indexed (trace s2) bits bands h" if "Some h \<in> set hs" for h
    using warm_loop_pipe [OF w [unfolded q] p [unfolded r2]] that by blast
  moreover have "set (trace s2) \<subseteq> set (trace s')"
    using run w q p r2 emitsD [OF emits_calls(1) [of "\<lambda>_. True"], of env _ s2 r s']
    by (fastforce simp: warm_body_def bindP_def)
  ultimately show ?thesis using indexed_mono by blast
qed

text \<open>A server with one stored fingerprint and one row without.\<close>

definition warm_example :: env where
  "warm_example tr c = (case c of
     Exists _ \<Rightarrow> Num 0 | SelectContentHashes \<Rightarrow> Hashes [Some 201, None] | _ \<Rightarrow> Done)"

section \<open>Properties\<close>

text \<open>
  C20: Recall. Once \<open>index\<close> has returned for a fingerprint, every later \<open>is_duplicate\<close>
  that returns reports a text whose fingerprint is within the threshold as a duplicate,
  whatever else happened in between, provided the number of bands exceeds the threshold,
  the sets have no expiry and Redis keeps set members.
\<close>

theorem neardup_recall:
  assumes "sets_persist env" "\<And>k. never_expires (trace s) k"
    and "bits mod bands = 0" "threshold < int bands" "in_range bits h"
    and "index env bits bands ttl h s0 = (Inr u, s1)" "trace s = trace s1 @ later"
    and "int (hamming (simhash dig text bits) h) \<le> threshold"
    and "is_duplicate env dig bits bands threshold text s = (Inr (d, c), s')"
  shows "d \<and> c = simhash dig text bits"
proof
  have "indexed (trace s) bits bands h"
    using indexed_mono [OF index_indexed [OF assms(6)]] assms(7) by simp
  then show d
    using indexed_found [OF assms(1,2,3,4,5) _ assms(8,9)] by blast
  show "c = simhash dig text bits"
    using assms(9) by (simp add: is_duplicate_Inr)
qed

theorem neardup_recall_witness:
  "\<exists>s1 s2. index fake_redis 8 4 0 201 \<lparr>trace = []\<rparr> = (Inr (), s1)
     \<and> is_duplicate fake_redis (\<lambda>t. [200]) 8 4 3 ''hello'' s1 = (Inr (True, 200), s2)"
proof -
  let ?s0 = "\<lparr>trace = []\<rparr> :: world"
  have keys: "bucket_keys 201 8 4 = Inr [3, 0, 2, 1]" "bucket_keys 200 8 4 = Inr [3, 0, 2, 0]"
    by code_simp+
  obtain s1 where s1: "index fake_redis 8 4 0 201 ?s0 = (Inr (), s1)"
    using fake_index [OF keys(1)] by blast
  have exp: "never_expires (trace s1) k" for k
    by (rule index_never_expires [OF s1]) (simp_all add: never_expires_def)
  have sh: "simhash (\<lambda>t. [200]) ''hello'' 8 = 200" by code_simp
  have near: "int (hamming (simhash (\<lambda>t. [200]) ''hello'' 8) 201) \<le> 3"
    by (simp add: sh hamming_def bit_count_def nat_bit_count.simps)
  obtain d c s2 where run: "is_duplicate fake_redis (\<lambda>t. [200]) 8 4 3 ''hello'' s1 = (Inr (d, c), s2)"
    using fake_lookup [of 200 3 0 "[3, 0, 2, 0]" s1] by (auto simp: is_duplicate_Inr sh keys)
  have "d \<and> c = simhash (\<lambda>t. [200]) ''hello'' 8"
    by (rule neardup_recall [OF fake_redis_sets(1) exp _ _ _ s1 _ near run, of "[]"])
      (simp_all add: in_range_def)
  with s1 run sh show ?thesis by auto
qed

text \<open>
  C21: Soundness. A text is only called a duplicate on the evidence of a member that somebody put
  into the set of one of the text's own bands, that is an integer, and that is within the
  threshold of the text's own fingerprint; sharing a band by chance is never enough, nor is a
  fingerprint filed under a band the text does not have.
\<close>

theorem neardup_sound:
  assumes "sets_only_added env"
    and "is_duplicate env dig bits bands threshold text s = (Inr (True, c), s')"
  shows "\<exists>ks j raw h r. bucket_keys (simhash dig text bits) bits bands = Inr ks \<and> j < length ks
    \<and> (Sadd (band_key j (ks ! j)) raw, r) \<in> set (trace s) \<and> py_int raw = Some h
    \<and> int (hamming (simhash dig text bits) h) \<le> threshold"
proof -
  obtain ks where ks: "bucket_keys (simhash dig text bits) bits bands = Inr ks"
    and "dup_bands env (simhash dig text bits) threshold 0 ks s = (Inr True, s')"
    using assms(2) by (auto simp: is_duplicate_Inr)
  from dup_bands_True [OF this(2)] obtain j es ms where es: "smembers_only es"
      "dup_members (simhash dig text bits) threshold ms"
      "env (trace s @ es) (Smembers (band_key j (ks ! j))) = Texts ms" and j: "j < length ks"
    by auto
  then obtain raw h where raw: "raw \<in> set ms" "py_int raw = Some h"
      "int (hamming (simhash dig text bits) h) \<le> threshold"
    by (auto simp: dup_members_iff)
  then obtain r where "(Sadd (band_key j (ks ! j)) raw, r) \<in> set (trace s @ es)"
    using assms(1) es(3) unfolding sets_only_added_def by blast
  then have "(Sadd (band_key j (ks ! j)) raw, r) \<in> set (trace s)"
    using es(1) by (fastforce simp: smembers_only_def)
  with ks j raw show ?thesis by blast
qed

theorem neardup_sound_witness:
  "\<exists>s' ks j raw h r. is_duplicate fake_redis (\<lambda>t. [200]) 8 4 3 ''hello'' \<lparr>trace = [(Sadd (band_key 0 3) ''201'', Done)]\<rparr>
       = (Inr (True, 200), s')
     \<and> bucket_keys (simhash (\<lambda>t. [200]) ''hello'' 8) 8 4 = Inr ks \<and> j < length ks
     \<and> (Sadd (band_key j (ks ! j)) raw, r) \<in> set [(Sadd (band_key 0 3) ''201'', Done)]
     \<and> py_int raw = Some h \<and> int (hamming (simhash (\<lambda>t. [200]) ''hello'' 8) h) \<le> 3"
proof -
  let ?s = "\<lparr>trace = [(Sadd (band_key 0 3) ''201'', Done)]\<rparr> :: world"
  have sh: "simhash (\<lambda>t. [200]) ''hello'' 8 = 200" by code_simp
  have keys: "bucket_keys 200 8 4 = Inr [3, 0, 2, 0]" by code_simp
  have "py_int ''201'' = Some 201" by code_simp
  then obtain s' where run: "is_duplicate fake_redis (\<lambda>t. [200]) 8 4 3 ''hello'' ?s = (Inr (True, 200), s')"
    by (simp add: is_duplicate_def sh keys Let_def liftE_def bindP_def call_texts_def
        call_def fake_redis_def ret_def dup_members_def ok_reply_def hamming_def bit_count_def
        nat_bit_count.simps)
  from neardup_sound [OF fake_redis_sets(2) run] obtain ks j raw h and r :: reply where
    "bucket_keys (simhash (\<lambda>t. [200]) ''hello'' 8) 8 4 = Inr ks" "j < length ks"
    "(Sadd (band_key j (ks ! j)) raw, r) \<in> set (trace ?s)" "py_int raw = Some h"
    "int (hamming (simhash (\<lambda>t. [200]) ''hello'' 8) h) \<le> 3"
    by blast
  with run show ?thesis by (simp only: world.select_convs) blast
qed

text \<open>
  C22: Refinement. In the shipped configuration (64 bits, 4 bands, threshold 3) the Redis
  index implements a set of fingerprints: when the band sets hold exactly the fingerprints
  of a set \<open>S\<close>, \<open>index\<close> of a new one makes them hold exactly \<open>insert h S\<close>, and a
  lookup answers whether \<open>S\<close> has a fingerprint at distance at most 3.
\<close>

theorem neardup_refines_set:
  assumes "sets_persist env" "sets_only_acked env"
    and "filed (trace s) S" "\<forall>h \<in> S. in_range 64 h"
  shows "(in_range 64 h \<longrightarrow> index env 64 4 0 h s = (Inr u, s1) \<longrightarrow> filed (trace s1) (insert h S))
    \<and> (is_duplicate env dig 64 4 3 text s = (Inr (d, c), s2) \<longrightarrow>
        (d \<longleftrightarrow> (\<exists>h \<in> S. hamming (simhash dig text 64) h \<le> 3)))"
proof (intro conjI impI)
  assume "in_range 64 h" "index env 64 4 0 h s = (Inr u, s1)"
  then show "filed (trace s1) (insert h S)"
    using filed_index [OF assms(3)] by blast
next
  assume run: "is_duplicate env dig 64 4 3 text s = (Inr (d, c), s2)"
  then have c: "c = simhash dig text 64" by (simp add: is_duplicate_Inr)
  have "d \<longleftrightarrow> lsh.probe S c"
    by (rule is_duplicate_probe [OF assms(1,2,3) run])
  then show "d \<longleftrightarrow> (\<exists>h \<in> S. hamming (simhash dig text 64) h \<le> 3)"
    using lsh.probe_iff [of c S] assms(4) simhash_in_range c by simp
qed

theorem neardup_refines_set_witness:
  "\<exists>s1. index fake_redis 64 4 0 5 \<lparr>trace = []\<rparr> = (Inr (), s1) \<and> filed (trace s1) {5}"
proof -
  have "bucket_keys 5 64 4 = Inr (band_keys 64 4 5)"
    by (rule band_keys_64) (simp add: in_range_def)
  from fake_index [OF this]
  obtain s1 where "index fake_redis 64 4 0 5 (\<lparr>trace = []\<rparr> :: world) = (Inr (), s1)"
    by blast
  moreover have "filed (trace (\<lparr>trace = []\<rparr> :: world)) {}" by (simp add: filed_Nil)
  ultimately show ?thesis
    using neardup_refines_set [OF fake_redis_sets(1,3), of "\<lparr>trace = []\<rparr> :: world" "{}" 5]
    by (auto simp: in_range_def)
qed

text \<open>
  C23: The warm-up sentinel is only written over a complete index: whenever a run of
  \<open>warm_from_db\<close> sends the command that sets it, every stored fingerprint of the query
  result has been filed under all its bands, by commands that succeeded. An interrupted
  warm-up therefore runs again.
\<close>

theorem warm_sentinel_complete:
  fixes s :: "'a world_scheme"
  assumes "warm_from_db env bits bands ttl s = (r, s')" "trace s' = trace s @ es"
    and "(SetKey warm_sentinel v, rep) \<in> set es"
  shows "\<exists>hs. (SelectContentHashes, Hashes hs) \<in> set es
    \<and> (\<forall>h. Some h \<in> set hs \<longrightarrow> indexed (trace s') bits bands h)"
proof -
  let ?e0 = "(Exists warm_sentinel, env (trace s) (Exists warm_sentinel))"
  let ?s1 = "s\<lparr>trace := trace s @ [?e0]\<rparr>"
  let ?e1 = "(SelectContentHashes, env (trace ?s1) SelectContentHashes)"
  let ?s2 = "?s1\<lparr>trace := trace ?s1 @ [?e1]\<rparr>"
  have e1: "trace s' \<noteq> trace s @ [?e0]" "trace s' \<noteq> trace s @ [?e0, ?e1]"
    using assms(2,3) by auto
  obtain hs where hs: "env (trace ?s1) SelectContentHashes = Hashes hs"
      "warm_body env bits bands ttl hs ?s2 = (r, s')"
    using assms(1) e1
    by (auto simp: warm_from_db_def bindP_def call_num_def call_def Let_def ret_def throw_def
        split: reply.splits if_splits)
  then obtain es' where es': "trace s' = trace ?s2 @ es'"
    using emitsD [OF warm_body_extends] by blast
  then have "es = ?e0 # ?e1 # es'" using assms(2) by simp
  with assms(3) have "(SetKey warm_sentinel v, rep) \<in> set es'" by auto
  with warm_body_complete [OF hs(2) es'] \<open>es = _\<close> hs(1) show ?thesis
    by (intro exI [of _ hs]) auto
qed

theorem warm_sentinel_complete_witness:
  "\<exists>s'. warm_from_db warm_example 8 4 0 \<lparr>trace = []\<rparr> = (Inr (), s') \<and> indexed (trace s') 8 4 201"
proof -
  let ?s0 = "\<lparr>trace = []\<rparr> :: world"
  have keys: "bucket_keys 201 8 4 = Inr [3, 0, 2, 1]" by code_simp
  obtain r s' where run: "warm_from_db warm_example 8 4 0 ?s0 = (r, s')"
    by (cases "warm_from_db warm_example 8 4 0 ?s0")
  then have s': "r = Inr ()" "(SetKey warm_sentinel ''1'', Done) \<in> set (trace s')"
    "(SelectContentHashes, Hashes hs) \<in> set (trace s') \<Longrightarrow> hs = [Some 201, None]" for hs
    by (auto simp: warm_from_db_def warm_body_def bindP_def call_num_def call_def warm_example_def
        ret_def liftE_def keys Let_def index_cmds_def call_unit_def split: if_splits)
  have "\<exists>hs. (SelectContentHashes, Hashes hs) \<in> set (trace s')
      \<and> (\<forall>h. Some h \<in> set hs \<longrightarrow> indexed (trace s') 8 4 h)"
    by (rule warm_sentinel_complete [OF run _ s'(2)]) simp
  with s' run show ?thesis by fastforce
qed

end
