(* ===== verification/Quality.thy ===== *)
theory Quality
  imports Regex Config
begin

text \<open>
  \<open>py-processor/quality.py\<close>: the quality gate. The patterns are the source's, in the
  notation of \<open>Regex\<close>; ratios and scores are exact rationals, where Python computes in
  double precision. \<open>round3\<close> is \<open>round(x, 3)\<close>: to the nearest thousandth, ties to even.
\<close>

section \<open>Patterns\<close>

definition backtick :: char where "backtick = CHR 0x60"

definition fence_re :: regex where
  "fence_re = seqs [lit [backtick, backtick, backtick], Star dot, ch lf,
     Grp 1 (LStar anychar), lit [backtick, backtick, backtick]]"

definition inline_code_re :: regex where
  "inline_code_re = seqs [ch backtick, plus1 (Cls (\<lambda>c. c \<noteq> backtick \<and> c \<noteq> lf)), ch backtick]"

definition http_re :: regex where
  "http_re = seqs [lit ''http'', opt (ch CHR ''s''), lit ''://'', plus1 nspc]"

definition link_re :: regex where
  "link_re = Alt http_re
     (seqs [ch CHR ''['', plus1 (Cls (\<lambda>c. c \<noteq> CHR '']'')), ch CHR '']'', ch CHR ''('', http_re, ch CHR '')''])"

definition word_re :: regex where
  "word_re = Seq (Cls is_ascii_letter)
     (plus1 (Cls (\<lambda>c. is_ascii_letter c \<or> c = CHR 0x27 \<or> c = CHR ''-'')))"

definition ws1 :: regex where "ws1 = plus1 spc"

definition spam_patterns :: "regex list" where
  "spam_patterns = [
     seqs [WordB, liti ''please'', ws1,
       Grp 1 (alts [liti ''help'', liti ''subscribe'', liti ''follow'', liti ''upvote'', liti ''donate'']), WordB],
     seqs [WordB, liti ''check'', ws1, liti ''out'', ws1, liti ''my'', ws1,
       Grp 2 (alts [liti ''channel'', liti ''blog'', liti ''repo'', liti ''github'']), WordB],
     seqs [WordB, Grp 3 (alts [liti ''free'', liti ''discount'', liti ''coupon'', liti ''promo'']), ws1,
       liti ''code'', WordB],
     seqs [WordB, liti ''buy'', ws1, liti ''now'', WordB],
     seqs [WordB, liti ''click'', ws1, liti ''here'', WordB],
     seqs [WordB, Grp 4 (alts [liti ''job opening'', liti ''we are hiring'', liti ''hiring now'']), WordB]]"

definition spam_re :: regex where
  "spam_re = alts spam_patterns"

definition help_re :: regex where
  "help_re = seqs [WordB, Grp 1 (alts [liti ''can someone help me'', liti ''how do i fix'',
     liti ''i am stuck'', liti (''i'' @ [CHR 0x27] @ ''m stuck''), liti ''anyone know how'',
     liti ''please help me'', liti ''urgent help'']), WordB]"

section \<open>Measures\<close>

definition code_chars :: "string \<Rightarrow> nat" where
  "code_chars text =
     sum_list (map (\<lambda>(w, caps). length (group 1 caps)) (finditer fence_re text))
     + sum_list (map (\<lambda>(w, caps). length w) (finditer inline_code_re text))"

definition link_ratio :: "string \<Rightarrow> rat" where
  "link_ratio text =
     (let links = length (findall link_re text); words = length (findall word_re text)
      in if words < 20 then 0 else rat_of_nat links / rat_of_nat words)"

definition unique_word_ratio :: "string \<Rightarrow> rat" where
  "unique_word_ratio text =
     (let words = findall word_re (lower text)
      in if length words < 20 then 1
         else rat_of_nat (length (remdups words)) / rat_of_nat (length words))"

definition strip_code :: "string \<Rightarrow> string" where
  "strip_code text = re_sub inline_code_re '' '' (re_sub fence_re '' '' text)"

definition quality_score_of :: "nat \<Rightarrow> nat \<Rightarrow> rat \<Rightarrow> rat \<Rightarrow> rat" where
  "quality_score_of n cc lr ur =
     (let length_s = min (rat_of_nat n / 3000) 1;
          code_s = min (rat_of_nat cc / 800) 1;
          diversity_s = max 0 (min ur 1);
          link_pen = min (lr / (3 / 10)) 1;
          score = 4 / 10 * length_s + 3 / 10 * code_s + 3 / 10 * diversity_s - 5 / 10 * link_pen
      in max 0 (min score 1))"

definition round_half_even :: "rat \<Rightarrow> int" where
  "round_half_even x =
     (let f = \<lfloor>x\<rfloor>; d = x - of_int f
      in if d < 1 / 2 then f else if d > 1 / 2 then f + 1 else if even f then f else f + 1)"

definition round3 :: "rat \<Rightarrow> rat" where
  "round3 x = of_int (round_half_even (x * 1000)) / 1000"

section \<open>The gate\<close>

record meta =
  m_len :: nat
  m_code_chars :: nat
  m_link_ratio :: rat
  m_unique_ratio :: rat
  m_quality_score :: rat

definition assess :: "config \<Rightarrow> string \<Rightarrow> bool \<times> string \<times> meta option" where
  "assess cfg text =
     (if text = [] then (False, ''empty'', None)
      else (let n = length text; cc = code_chars text; lr = link_ratio text;
                ur = unique_word_ratio text;
                mt = Some \<lparr>m_len = n, m_code_chars = cc, m_link_ratio = round3 lr,
                  m_unique_ratio = round3 ur, m_quality_score = round3 (quality_score_of n cc lr ur)\<rparr>
        in if re_search spam_re text then (False, ''spam'', mt)
           else if int cc \<ge> MIN_CODE_CHARS cfg then (True, ''code_rich'', mt)
           else if lr > MAX_LINK_RATIO cfg then (False, ''link_dump'', mt)
           else if ur < MIN_UNIQUE_RATIO cfg then (False, ''low_diversity'', mt)
           else if int n < MIN_CONTENT_LEN cfg then (False, ''too_short'', mt)
           else (let words = length (findall word_re text)
             in if int words < MIN_WORDS_NO_CODE cfg then (False, ''thin_prose'', mt)
                else if re_search help_re text \<and> int words < MIN_WORDS_NO_CODE cfg * 2
                then (False, ''help_request'', mt)
                else (True, ''ok'', mt))))"

section \<open>Lemmas\<close>

lemma quality_score_of_bounds: "0 \<le> quality_score_of n cc lr ur \<and> quality_score_of n cc lr ur \<le> 1"
  by (simp add: quality_score_of_def Let_def)

lemma round_half_even_le: "x \<le> of_int k \<Longrightarrow> round_half_even x \<le> k"
  by (auto simp: round_half_even_def Let_def not_less) linarith+

lemma round_half_even_ge: "of_int k \<le> x \<Longrightarrow> k \<le> round_half_even x"
  by (auto simp: round_half_even_def Let_def le_floor_iff) linarith+

lemma round3_bounds:
  assumes "0 \<le> x" "x \<le> 1"
  shows "0 \<le> round3 x \<and> round3 x \<le> 1"
proof -
  have "0 \<le> round_half_even (x * 1000)" "round_half_even (x * 1000) \<le> 1000"
    using assms by (auto intro!: round_half_even_ge round_half_even_le)
  then show ?thesis by (simp add: round3_def)
qed

lemma link_ratio_nonneg: "0 \<le> link_ratio text"
  by (simp add: link_ratio_def Let_def)

lemma unique_word_ratio_bounds: "0 \<le> unique_word_ratio text \<and> unique_word_ratio text \<le> 1"
  using length_remdups_leq by (auto simp: unique_word_ratio_def Let_def divide_le_eq_1)

lemma matched_le: "sum_list (map (\<lambda>(w, caps). length w) (finditer r text)) \<le> length text"
  using finditer_length_sum [of r "text"] by (simp add: comp_def case_prod_unfold)

lemma code_chars_le: "code_chars text \<le> 2 * length text"
proof -
  have "sum_list (map (\<lambda>(w, caps). length (group 1 caps)) (finditer fence_re text))
      \<le> sum_list (map (\<lambda>(w, caps). length w) (finditer fence_re text))"
    by (intro sum_list_mono) (auto simp: group_length)
  then show ?thesis
    using matched_le [of fence_re "text"] matched_le [of inline_code_re "text"]
    unfolding code_chars_def by linarith
qed

section \<open>Properties\<close>

text \<open>
  C35: The metadata the gate attaches is in range: the quality score and the share of
  distinct words lie between 0 and 1 after rounding, and the code share counts at most
  twice the characters of the text.
\<close>

theorem assess_meta_bounds:
  assumes "assess cfg text = (keep, reason, Some m)"
  shows "0 \<le> m_quality_score m \<and> m_quality_score m \<le> 1
    \<and> 0 \<le> m_unique_ratio m \<and> m_unique_ratio m \<le> 1
    \<and> m_len m = length text \<and> m_code_chars m \<le> 2 * m_len m"
proof -
  note cc = code_chars_le [of "text"]
  have "m_quality_score m = round3 (quality_score_of (length text) (code_chars text)
        (link_ratio text) (unique_word_ratio text))"
      "m_unique_ratio m = round3 (unique_word_ratio text)"
      "m_len m = length text" "m_code_chars m = code_chars text"
    using assms by (auto simp: assess_def Let_def split: if_splits)
  with cc show ?thesis
    using round3_bounds quality_score_of_bounds unique_word_ratio_bounds by simp
qed

theorem assess_meta_bounds_witness:
  "\<exists>keep reason m. assess default_config ''Buy now'' = (keep, reason, Some m)
     \<and> m_quality_score m \<le> 1 \<and> m_code_chars m \<le> 2 * m_len m"
proof -
  have "snd (snd (assess default_config ''Buy now'')) \<noteq> None" by code_simp
  then obtain keep reason m where "assess default_config ''Buy now'' = (keep, reason, Some m)"
    by (metis not_None_eq prod.collapse)
  then show ?thesis using assess_meta_bounds by blast
qed

text \<open>
  Code is only found between backticks: a text without a backtick has no code
  characters, and stripping its code for the language detector leaves it unchanged.
\<close>

theorem no_backtick_no_code:
  assumes "backtick \<notin> set text"
  shows "code_chars text = 0 \<and> strip_code text = text"
proof -
  have fence: "search_from fence_re None text = None"
    by (rule not_search_without [OF _ assms])
      (auto simp: fence_re_def ch_def elim!: inlang_SeqE)
  have inline: "search_from inline_code_re None text = None"
    by (rule not_search_without [OF _ assms])
      (auto simp: inline_code_re_def ch_def elim!: inlang_SeqE)
  have "strip_code text = text"
    using fence inline by (simp add: strip_code_def re_sub_no_match re_search_def)
  moreover have "code_chars text = 0"
    using fence inline by (simp add: code_chars_def finditer_def scan_None)
  ultimately show ?thesis by simp
qed

theorem no_backtick_no_code_witness:
  "code_chars ''plain prose'' = 0 \<and> strip_code ''plain prose'' = ''plain prose''"
  by (rule no_backtick_no_code) (simp add: backtick_def)

text \<open>
  The count of code characters is not a count of characters: inline code inside a
  fenced block is counted once with the block and once more by itself, so a text can have
  more code characters than a fence has content.
\<close>

theorem code_chars_counts_twice:
  "code_chars (replicate 3 backtick @ [lf, backtick, CHR ''a'', backtick, lf] @ replicate 3 backtick) = 7
   \<and> length [backtick, CHR ''a'', backtick, lf] = 4"
  by code_simp

end
