(* ===== verification/Fetcher.thy ===== *)
theory Fetcher
  imports Config Effects
begin

text \<open>
  \<open>py-processor/fetcher.py\<close>: the rate limiters, the retry policy of one fetch and the
  collection of many. A worker's critical section (the body of \<open>with self._lock\<close>) is one
  step on a bucket; the results about the limiter hold for every interleaving of such steps by
  any number of threads. \<open>fetch_many\<close> runs its workers one after another and collects them
  in an arbitrary order of completion.

  The loop of \<open>acquire\<close> takes fuel; it is proved that it always returns when the clock keeps
  up with the sleeping.
\<close>

section \<open>Host names\<close>

text \<open>\<open>urlsplit(url).hostname or ''\<close>, with the exception for unbalanced brackets.\<close>

definition scheme_char :: "char \<Rightarrow> bool" where
  "scheme_char c \<longleftrightarrow> is_ascii_letter c \<or> is_digit c \<or> c \<in> set ''+-.''"

definition drop_scheme :: "string \<Rightarrow> string" where
  "drop_scheme url =
     (let s = takeWhile (\<lambda>c. c \<noteq> CHR '':'') url; r = dropWhile (\<lambda>c. c \<noteq> CHR '':'') url
      in if r \<noteq> [] \<and> s \<noteq> [] \<and> is_ascii_letter (hd s) \<and> list_all scheme_char s then tl r else url)"

definition netloc_of :: "string \<Rightarrow> string" where
  "netloc_of url =
     (let u = drop_scheme (filter (\<lambda>c. code c \<notin> {9, 10, 13}) (dropWhile (\<lambda>c. code c \<le> 32) url))
      in if take 2 u = ''//'' then takeWhile (\<lambda>c. c \<notin> set ''/?#'') (drop 2 u) else [])"

definition after_at :: "string \<Rightarrow> string" where
  "after_at s = (case rpartition CHR ''@'' s of None \<Rightarrow> s | Some (_, t) \<Rightarrow> t)"

definition url_host :: "(string \<Rightarrow> bool) \<Rightarrow> string \<Rightarrow> exn + string" where
  "url_host ip_ok url =
     (let netloc = netloc_of url; info = after_at netloc;
          op = CHR ''['' \<in> set netloc; cl = CHR '']'' \<in> set netloc
      in if op \<noteq> cl then Inl (ValueError ''Invalid IPv6 URL'')
         else if op \<and> \<not> ip_ok (takeWhile (\<lambda>c. c \<noteq> CHR '']'') (tl (dropWhile (\<lambda>c. c \<noteq> CHR ''['') netloc)))
         then Inl (ValueError ''not an IP address'')
         else let h = (if CHR ''['' \<in> set info
                       then takeWhile (\<lambda>c. c \<noteq> CHR '']'') (tl (dropWhile (\<lambda>c. c \<noteq> CHR ''['') info))
                       else takeWhile (\<lambda>c. c \<noteq> CHR '':'') info)
              in Inr (lower h))"

text \<open>
  The per-host rates: \<open>dict\<close> of the entries \<open>host:rate\<close>, a later entry winning.
\<close>

definition host_override :: "string \<Rightarrow> (string \<times> py_float) option" where
  "host_override part =
     (case rpartition CHR '':'' (strip part) of
        None \<Rightarrow> None
      | Some (host, rate) \<Rightarrow> map_option (Pair (lower (strip host))) (py_float rate))"

definition parse_host_overrides :: "string \<Rightarrow> string \<rightharpoonup> py_float" where
  "parse_host_overrides spec =
     foldl (\<lambda>d part. case host_override part of None \<Rightarrow> d | Some (h, r) \<Rightarrow> d(h \<mapsto> r))
       Map.empty (split_on CHR '','' spec)"

section \<open>Token buckets\<close>

text \<open>
  The refill clock can be any float: a \<open>Retry-After\<close> of \<open>inf\<close> or \<open>nan\<close> is accepted by
  \<open>float()\<close> and moves it there.
\<close>

record bucket =
  b_rate :: rat
  b_capacity :: rat
  b_tokens :: rat
  b_last :: py_float

record fworld = world +
  g_bucket :: "bucket option"
  h_buckets :: "string \<rightharpoonup> bucket"

definition new_bucket :: "env \<Rightarrow> rat \<Rightarrow> rat option \<Rightarrow> ('z fworld_scheme, bucket) prog" where
  "new_bucket env rate capacity =
     (let c = (case capacity of Some c \<Rightarrow> if c \<noteq> 0 then c else max 1 rate | None \<Rightarrow> max 1 rate)
      in bindP (call_time env Monotonic) (\<lambda>now.
           ret \<lparr>b_rate = rate, b_capacity = c, b_tokens = c, b_last = Fin now\<rparr>))"

text \<open>
  One critical section of \<open>acquire(n)\<close> at the time \<open>now\<close>: \<open>Inr None\<close> is a granted
  request, \<open>Inr (Some wait)\<close> a pause before the next attempt. The rates are not negative.
\<close>

definition acquire_step :: "rat \<Rightarrow> rat \<Rightarrow> bucket \<Rightarrow> bucket \<times> (exn + py_float option)" where
  "acquire_step n now b =
     (let refilled = (\<lambda>t. let b' = b\<lparr>b_tokens := t, b_last := Fin now\<rparr>
            in if t \<ge> n then (b'\<lparr>b_tokens := t - n\<rparr>, Inr None)
               else (b', if b_rate b = 0 then Inl ZeroDivisionError
                         else Inr (Some (Fin ((n - t) / b_rate b)))))
      in case b_last b of
           Fin l \<Rightarrow> if l - now \<le> 0
             then refilled (min (b_capacity b) (b_tokens b + (now - l) * b_rate b))
             else (b, Inr (Some (Fin (min (l - now) 5))))
         | NInf \<Rightarrow> refilled (b_capacity b)
         | PInf \<Rightarrow> (b, Inr (Some (Fin 5)))
         | NaN \<Rightarrow> (b, Inr (Some NaN)))"

fun float_add :: "rat \<Rightarrow> py_float \<Rightarrow> py_float" where
  "float_add x (Fin y) = Fin (x + y)"
| "float_add x y = y"

definition penalise_step :: "rat \<Rightarrow> py_float \<Rightarrow> bucket \<Rightarrow> bucket" where
  "penalise_step now seconds b = b\<lparr>b_tokens := 0, b_last := float_add now seconds\<rparr>"

text \<open>The buckets live in the process: the global one and one per host.\<close>

datatype which = Global | Host string

definition bucket_at :: "which \<Rightarrow> 'z fworld_scheme \<Rightarrow> bucket option" where
  "bucket_at w s = (case w of Global \<Rightarrow> g_bucket s | Host h \<Rightarrow> h_buckets s h)"

definition set_bucket :: "which \<Rightarrow> bucket \<Rightarrow> 'z fworld_scheme \<Rightarrow> 'z fworld_scheme" where
  "set_bucket w b s = (case w of Global \<Rightarrow> s\<lparr>g_bucket := Some b\<rparr>
     | Host h \<Rightarrow> s\<lparr>h_buckets := (h_buckets s)(h \<mapsto> b)\<rparr>)"

definition the_bucket :: "which \<Rightarrow> ('z fworld_scheme, bucket) prog" where
  "the_bucket w = bindP (getP (bucket_at w))
     (\<lambda>ob. case ob of Some b \<Rightarrow> ret b | None \<Rightarrow> throw (AttributeError ''NoneType''))"

definition min5 :: "py_float \<Rightarrow> py_float" where
  "min5 d = (case d of Fin x \<Rightarrow> Fin (min x 5) | PInf \<Rightarrow> Fin 5 | NInf \<Rightarrow> NInf | NaN \<Rightarrow> NaN)"

fun acquire :: "env \<Rightarrow> nat \<Rightarrow> which \<Rightarrow> ('z fworld_scheme, unit) prog" where
  "acquire env 0 w = throw NoReturn"
| "acquire env (Suc fuel) w =
     bindP (call_time env Monotonic) (\<lambda>now.
     bindP (the_bucket w) (\<lambda>b.
       case acquire_step 1 now b of (b', res) \<Rightarrow>
         bindP (updP (set_bucket w b')) (\<lambda>_. case res of
             Inl e \<Rightarrow> throw e
           | Inr None \<Rightarrow> ret ()
           | Inr (Some wait) \<Rightarrow> bindP (py_sleep env (min5 wait)) (\<lambda>_. acquire env fuel w))))"

definition penalise :: "env \<Rightarrow> which \<Rightarrow> py_float \<Rightarrow> ('z fworld_scheme, unit) prog" where
  "penalise env w seconds =
     bindP (the_bucket w) (\<lambda>b.
     bindP (call_time env Monotonic) (\<lambda>now. updP (set_bucket w (penalise_step now seconds b))))"

text \<open>\<open>_get_bucket\<close> and \<open>_get_host_bucket\<close>: created on first use.\<close>

definition get_bucket :: "env \<Rightarrow> config \<Rightarrow> ('z fworld_scheme, unit) prog" where
  "get_bucket env cfg = bindP (getP g_bucket) (\<lambda>ob. case ob of
     Some b \<Rightarrow> ret ()
   | None \<Rightarrow> bindP (new_bucket env (FETCH_QPS cfg) None) (\<lambda>b. updP (set_bucket Global b)))"

definition host_rate :: "config \<Rightarrow> string \<Rightarrow> exn + rat" where
  "host_rate cfg host = (case parse_host_overrides (FETCH_HOST_OVERRIDES cfg) host of
     None \<Rightarrow> Inr (FETCH_HOST_QPS cfg)
   | Some (Fin r) \<Rightarrow> Inr r
   | Some _ \<Rightarrow> Inl (RuntimeError ''rate outside the model''))"

definition get_host_bucket ::
  "env \<Rightarrow> config \<Rightarrow> (string \<Rightarrow> bool) \<Rightarrow> string \<Rightarrow> ('z fworld_scheme, string option) prog" where
  "get_host_bucket env cfg ip_ok url =
     bindP (liftE (url_host ip_ok url)) (\<lambda>host.
       if host = [] then ret None
       else bindP (getP (\<lambda>s. h_buckets s host)) (\<lambda>ob. case ob of
           Some b \<Rightarrow> ret (Some host)
         | None \<Rightarrow> bindP (liftE (host_rate cfg host)) (\<lambda>rate.
             bindP (new_bucket env rate None) (\<lambda>b.
             bindP (updP (set_bucket (Host host) b)) (\<lambda>_. ret (Some host))))))"

section \<open>One fetch\<close>

definition is_date_error :: "exn \<Rightarrow> bool" where
  "is_date_error e = (case e of TypeError _ \<Rightarrow> True | ValueError _ \<Rightarrow> True | _ \<Rightarrow> False)"

text \<open>
  \<open>DateDelta\<close> is the date branch: the parsed date less the wall clock, in seconds, or the
  exception of the date parser.
\<close>

definition parse_retry_after :: "env \<Rightarrow> string option \<Rightarrow> ('z world_scheme, py_float option) prog" where
  "parse_retry_after env value = (case value of
     None \<Rightarrow> ret None
   | Some v \<Rightarrow> (case py_float (strip v) of
       Some x \<Rightarrow> ret (Some x)
     | None \<Rightarrow> tryP (bindP (call_time env (DateDelta (strip v)))
                 (\<lambda>delta. ret (Some (Fin (if delta > 0 then delta else 0)))))
               is_date_error (\<lambda>_. ret None)))"

definition backoff_delay ::
  "env \<Rightarrow> config \<Rightarrow> nat \<Rightarrow> py_float option \<Rightarrow> ('z world_scheme, py_float) prog" where
  "backoff_delay env cfg attempt retry_after = (case retry_after of
     Some x \<Rightarrow> ret x
   | None \<Rightarrow> bindP (call_time env (Uniform 0 (min (FETCH_MAX_BACKOFF cfg) (2 ^ attempt))))
       (\<lambda>d. ret (Fin d)))"

definition is_request_error :: "exn \<Rightarrow> bool" where
  "is_request_error e = (case e of RequestException _ \<Rightarrow> True | _ \<Rightarrow> False)"

definition back_off :: "env \<Rightarrow> config \<Rightarrow> nat \<Rightarrow> py_float option \<Rightarrow> ('z world_scheme, unit) prog" where
  "back_off env cfg attempt ra =
     bindP (backoff_delay env cfg attempt ra) (\<lambda>d. py_sleep env d)"

text \<open>The \<open>try\<close> of an attempt: both limiters, then the request.\<close>

definition request_once ::
  "env \<Rightarrow> nat \<Rightarrow> config \<Rightarrow> string \<Rightarrow> string option \<Rightarrow> ('z fworld_scheme, reply) prog" where
  "request_once env fuel cfg url hb =
     bindP (acquire env fuel Global) (\<lambda>_.
     bindP (case hb of None \<Rightarrow> ret () | Some h \<Rightarrow> acquire env fuel (Host h)) (\<lambda>_.
       call env (HttpGet url (FETCH_TIMEOUT cfg))))"

text \<open>What is done with a status: \<open>Some\<close> ends the loop, \<open>None\<close> goes on to the next attempt.\<close>

definition on_response ::
  "env \<Rightarrow> config \<Rightarrow> nat \<Rightarrow> string option \<Rightarrow> nat \<Rightarrow> string option \<Rightarrow> string
     \<Rightarrow> ('z fworld_scheme, string option option) prog" where
  "on_response env cfg attempt hb status retry_after body =
     (if status = 200 then ret (Some (Some body))
      else if status = 404 \<or> status = 410
      then throw (PermanentFetchError (''HTTP '' @ show_nat status))
      else if status = 429
      then bindP (parse_retry_after env retry_after) (\<lambda>ra.
           bindP (penalise env Global (case ra of Some x \<Rightarrow> x | None \<Rightarrow> Fin 5)) (\<lambda>_.
           bindP (back_off env cfg attempt ra) (\<lambda>_. ret None)))
      else if status = 403
      then bindP (case hb of None \<Rightarrow> ret ()
             | Some h \<Rightarrow> penalise env (Host h)
                 (Fin (FETCH_403_COOLDOWN cfg * of_nat (attempt + 1)))) (\<lambda>_.
           bindP (py_sleep env (Fin 2)) (\<lambda>_. ret None))
      else if status \<ge> 500
      then bindP (back_off env cfg attempt None) (\<lambda>_. ret None)
      else ret (Some None))"

definition attempt_fetch ::
  "env \<Rightarrow> nat \<Rightarrow> config \<Rightarrow> string \<Rightarrow> string option \<Rightarrow> nat
     \<Rightarrow> ('z fworld_scheme, string option option) prog" where
  "attempt_fetch env fuel cfg url hb attempt =
     bindP (tryP (bindP (request_once env fuel cfg url hb) (\<lambda>r. ret (Some r)))
              is_request_error
              (\<lambda>_. bindP (back_off env cfg attempt None) (\<lambda>_. ret None)))
       (\<lambda>o'. case o' of
          None \<Rightarrow> ret None
        | Some (Response status ra body) \<Rightarrow> on_response env cfg attempt hb status ra body
        | Some _ \<Rightarrow> throw bad_reply)"

fun fetch_loop ::
  "env \<Rightarrow> nat \<Rightarrow> config \<Rightarrow> string \<Rightarrow> string option \<Rightarrow> nat list
     \<Rightarrow> ('z fworld_scheme, string option) prog" where
  "fetch_loop env fuel cfg url hb [] = ret None"
| "fetch_loop env fuel cfg url hb (attempt # rest) =
     bindP (attempt_fetch env fuel cfg url hb attempt) (\<lambda>o'. case o' of
         Some result \<Rightarrow> ret result
       | None \<Rightarrow> fetch_loop env fuel cfg url hb rest)"

definition fetch_one ::
  "env \<Rightarrow> nat \<Rightarrow> config \<Rightarrow> (string \<Rightarrow> bool) \<Rightarrow> string \<Rightarrow> ('z fworld_scheme, string option) prog" where
  "fetch_one env fuel cfg ip_ok url =
     bindP (get_bucket env cfg) (\<lambda>_.
     bindP (get_host_bucket env cfg ip_ok url) (\<lambda>hb.
       fetch_loop env fuel cfg url hb [0..<nat (FETCH_RETRIES cfg + 1)]))"

section \<open>Many fetches\<close>

text \<open>
  A future holds the outcome of its worker, exceptions included; only a worker that never
  returns keeps the pool from finishing.
\<close>

type_synonym outcome = "exn + string option"

fun run_workers ::
  "env \<Rightarrow> nat \<Rightarrow> config \<Rightarrow> (string \<Rightarrow> bool) \<Rightarrow> string list \<Rightarrow> ('z fworld_scheme, outcome list) prog" where
  "run_workers env fuel cfg ip_ok [] = ret []"
| "run_workers env fuel cfg ip_ok (url # urls) =
     (\<lambda>s. case fetch_one env fuel cfg ip_ok url s of (out, s') \<Rightarrow>
        if out = Inl NoReturn then (Inl NoReturn, s')
        else bindP (run_workers env fuel cfg ip_ok urls) (\<lambda>outs. ret (out # outs)) s')"

type_synonym fetched = "(string \<rightharpoonup> string) \<times> (string \<rightharpoonup> string)"

text \<open>The \<open>as_completed\<close> loop over the finished futures.\<close>

fun collect :: "fetched \<Rightarrow> (string \<times> outcome) list \<Rightarrow> exn + fetched" where
  "collect acc [] = Inr acc"
| "collect (results, permanent) ((url, out) # rest) = (case out of
     Inl (PermanentFetchError msg) \<Rightarrow> collect (results, permanent(url \<mapsto> msg)) rest
   | Inl e \<Rightarrow> Inl e
   | Inr None \<Rightarrow> collect (results, permanent) rest
   | Inr (Some body) \<Rightarrow> collect (results(url \<mapsto> body), permanent) rest)"

definition fetch_many ::
  "env \<Rightarrow> lib \<Rightarrow> nat \<Rightarrow> config \<Rightarrow> string list \<Rightarrow> ('z fworld_scheme, fetched) prog" where
  "fetch_many env lb fuel cfg urls =
     bindP (if FETCH_WORKERS cfg \<le> 0
            then throw (ValueError ''max_workers must be greater than 0'')
            else run_workers env fuel cfg (is_ip lb) urls) (\<lambda>outs.
       liftE (collect (Map.empty, Map.empty)
         (map (\<lambda>i. (urls ! i, outs ! i)) (completion lb (length urls)))))"

section \<open>The interface of a rate limiter\<close>

text \<open>
  Several threads run the steps of a shared limiter, each step under its lock, so a run is a
  sequence of steps with the times at which they read the clock. The second component of a
  step's result is the number of requests it grants.
\<close>

fun run_steps :: "(rat \<Rightarrow> 'op \<Rightarrow> 'b \<Rightarrow> 'b \<times> nat) \<Rightarrow> 'b \<Rightarrow> (rat \<times> 'op) list \<Rightarrow> 'b \<times> nat" where
  "run_steps step b [] = (b, 0)"
| "run_steps step b ((t, op) # es) =
     (case step t op b of (b1, g) \<Rightarrow> case run_steps step b1 es of (b2, g') \<Rightarrow> (b2, g + g'))"

text \<open>The clock readings do not decrease and lie in an interval.\<close>

fun timed :: "rat \<Rightarrow> rat \<Rightarrow> (rat \<times> 'op) list \<Rightarrow> bool" where
  "timed t0 t1 [] = (t0 \<le> t1)"
| "timed t0 t1 ((t, op) # es) = (t0 \<le> t \<and> timed t t1 es)"

locale rate_limiter =
  fixes step :: "rat \<Rightarrow> 'op \<Rightarrow> 'b \<Rightarrow> 'b \<times> nat"
    and level :: "'b \<Rightarrow> rat \<Rightarrow> rat"
    and rate :: rat
    and cap :: rat
    and valid :: "'b \<Rightarrow> bool"
    and fair :: "'op \<Rightarrow> bool"
  assumes level_nonneg: "valid b \<Longrightarrow> 0 \<le> level b t"
    and level_cap: "valid b \<Longrightarrow> level b t \<le> cap"
    and level_grows: "valid b \<Longrightarrow> t \<le> u \<Longrightarrow> level b u \<le> level b t + rate * (u - t)"
    and step_valid: "valid b \<Longrightarrow> valid (fst (step t op b))"
    and step_pays: "valid b \<Longrightarrow> fair op \<Longrightarrow>
          level (fst (step t op b)) t + of_nat (snd (step t op b)) \<le> level b t"
begin

lemma run_valid: "valid b \<Longrightarrow> valid (fst (run_steps step b es))"
proof (induction es arbitrary: b)
  case (Cons e es)
  obtain t op where e: "e = (t, op)" by fastforce
  have "valid (fst (step t op b))" using Cons.prems by (rule step_valid)
  from Cons.IH [OF this] show ?case by (simp add: e case_prod_unfold)
qed simp

lemma run_pays:
  assumes "valid b" "timed t0 t1 es" "list_all (\<lambda>(t, op). fair op) es" "0 \<le> rate"
  shows "level (fst (run_steps step b es)) t1 + of_nat (snd (run_steps step b es))
    \<le> level b t0 + rate * (t1 - t0)"
  using assms
proof (induction es arbitrary: b t0)
  case Nil
  then show ?case using level_grows by simp
next
  case (Cons e es)
  obtain t op where e: "e = (t, op)" by fastforce
  obtain b1 g where b1: "step t op b = (b1, g)" by fastforce
  obtain b2 g' where b2: "run_steps step b1 es = (b2, g')" by fastforce
  have "valid b1" using step_valid [OF Cons.prems(1), of t op] b1 by simp
  then have "level b2 t1 + of_nat g' \<le> level b1 t + rate * (t1 - t)"
    using Cons.IH [of b1 t] Cons.prems b2 e by simp
  moreover have "level b1 t + of_nat g \<le> level b t"
    using step_pays [OF Cons.prems(1), of op t] b1 Cons.prems(3) e by simp
  moreover have "level b t \<le> level b t0 + rate * (t - t0)"
    using level_grows [OF Cons.prems(1)] Cons.prems(2) e by simp
  ultimately show ?case using e b1 b2 by (simp add: algebra_simps)
qed

lemma granted_bound:
  assumes "valid b" "timed t0 t1 es" "list_all (\<lambda>(t, op). fair op) es" "0 \<le> rate"
  shows "of_nat (snd (run_steps step b es)) \<le> cap + rate * (t1 - t0)"
proof -
  have "0 \<le> level (fst (run_steps step b es)) t1"
    using run_valid assms(1) level_nonneg by blast
  with run_pays [OF assms] level_cap [OF assms(1), of t0] show ?thesis by linarith
qed

end

section \<open>The token bucket is a rate limiter\<close>

datatype bucket_op = Acquire | Penalise py_float

fun bucket_step :: "rat \<Rightarrow> bucket_op \<Rightarrow> bucket \<Rightarrow> bucket \<times> nat" where
  "bucket_step now Acquire b =
     (case acquire_step 1 now b of (b', res) \<Rightarrow> (b', if res = Inr None then 1 else 0))"
| "bucket_step now (Penalise seconds) b = (penalise_step now seconds b, 0)"

definition bucket_ok :: "rat \<Rightarrow> rat \<Rightarrow> bucket \<Rightarrow> bool" where
  "bucket_ok r c b \<longleftrightarrow> b_rate b = r \<and> b_capacity b = c \<and> 0 \<le> r \<and> 0 \<le> c \<and> 0 \<le> b_tokens b \<and> b_tokens b \<le> c"

text \<open>The tokens there will be at a time if nothing is taken until then.\<close>

definition level :: "bucket \<Rightarrow> rat \<Rightarrow> rat" where
  "level b t = (case b_last b of
     Fin l \<Rightarrow> min (b_capacity b) (b_tokens b + max 0 (t - l) * b_rate b)
   | NInf \<Rightarrow> b_capacity b
   | _ \<Rightarrow> b_tokens b)"

definition fair_op :: "bucket_op \<Rightarrow> bool" where
  "fair_op op \<longleftrightarrow> (case op of Penalise (Fin s) \<Rightarrow> 0 \<le> s | Penalise NInf \<Rightarrow> False | _ \<Rightarrow> True)"

lemma acquire_step_ok: "bucket_ok r c b \<Longrightarrow> acquire_step 1 now b = (b', res) \<Longrightarrow> bucket_ok r c b'"
  by (auto simp: acquire_step_def bucket_ok_def Let_def split: py_float.splits if_splits)

lemma acquire_step_pays:
  assumes "bucket_ok r c b" "acquire_step 1 now b = (b', res)"
  shows "level b' now + (if res = Inr None then 1 else 0) \<le> level b now"
  using assms
  by (auto simp: acquire_step_def bucket_ok_def level_def Let_def max_def
      split: py_float.splits if_splits)

lemma level_drift:
  assumes "bucket_ok r c b" "t \<le> u"
  shows "level b u \<le> level b t + r * (u - t)"
proof (cases "b_last b")
  case (Fin l)
  have r: "0 \<le> r" using assms(1) by (simp add: bucket_ok_def)
  have "max 0 (u - l) \<le> max 0 (t - l) + (u - t)" using assms(2) by auto
  then have "max 0 (u - l) * r \<le> (max 0 (t - l) + (u - t)) * r"
    using r by (rule mult_right_mono)
  then have "max 0 (u - l) * r \<le> max 0 (t - l) * r + r * (u - t)"
    by (simp add: algebra_simps)
  moreover have "0 \<le> r * (u - t)" using r assms(2) by simp
  ultimately show ?thesis
    using assms(1) Fin unfolding level_def bucket_ok_def by (simp add: min_def)
next
  case PInf
  then show ?thesis using assms by (simp add: level_def bucket_ok_def)
next
  case NInf
  then show ?thesis using assms by (simp add: level_def bucket_ok_def)
next
  case NaN
  then show ?thesis using assms by (simp add: level_def bucket_ok_def)
qed

lemma level_range: "bucket_ok r c b \<Longrightarrow> 0 \<le> level b t \<and> level b t \<le> c"
  by (auto simp: level_def bucket_ok_def split: py_float.split)

lemma penalise_level: "bucket_ok r c b \<Longrightarrow> fair_op (Penalise s) \<Longrightarrow> level (penalise_step t s b) t = 0"
  by (cases s) (auto simp: level_def penalise_step_def bucket_ok_def fair_op_def)

lemma bucket_step_ok: "bucket_ok r c b \<Longrightarrow> bucket_ok r c (fst (bucket_step t op b))"
proof (cases op)
  case Acquire
  assume "bucket_ok r c b"
  then show ?thesis using Acquire by (auto intro: acquire_step_ok split: prod.split)
next
  case (Penalise s)
  assume "bucket_ok r c b"
  then show ?thesis using Penalise by (simp add: penalise_step_def bucket_ok_def)
qed

interpretation tb: rate_limiter bucket_step level r c "bucket_ok r c" fair_op for r c
proof (unfold_locales, goal_cases)
  case (4 b t op)
  then show ?case by (rule bucket_step_ok)
next
  case (5 b op t)
  then show ?case
    by (cases op) (auto simp: penalise_level level_range split: prod.split
        dest: acquire_step_pays)
qed (use level_range level_drift in auto)

text \<open>
  The bucket's invariant: whatever sequence of requests and penalties any number of
  threads runs, with any arguments, the token count stays between zero and the capacity. No
  debt accumulates in a penalty window.
\<close>

theorem bucket_invariant:
  assumes "bucket_ok r c b"
  shows "bucket_ok r c (fst (run_steps bucket_step b es))"
  using assms by (rule tb.run_valid)

theorem bucket_invariant_witness:
  "bucket_ok 1 1 (fst (run_steps bucket_step \<lparr>b_rate = 1, b_capacity = 1, b_tokens = 1, b_last = Fin 0\<rparr>
     [(0, Acquire), (1, Penalise (Fin 90)), (2, Acquire)]))"
  by (rule bucket_invariant) (simp add: bucket_ok_def)

text \<open>
  C11: The rate is bounded. Over any time span, and for any interleaving of threads, the limiter
  grants at most its capacity plus rate times span requests, as long as no penalty is negative.
\<close>

theorem rate_bound:
  assumes "bucket_ok r c b" "timed t0 t1 es" "list_all (\<lambda>(t, op). fair_op op) es"
  shows "of_nat (snd (run_steps bucket_step b es)) \<le> c + r * (t1 - t0)"
  using assms by (intro tb.granted_bound) (auto simp: bucket_ok_def)

theorem rate_bound_witness:
  "of_nat (snd (run_steps bucket_step \<lparr>b_rate = 1, b_capacity = 1, b_tokens = 1, b_last = Fin 0\<rparr>
     [(0, Acquire), (1, Penalise (Fin 2)), (3, Acquire), (4, Acquire)])) \<le> (1 + 1 * (4 - 0) :: rat)"
  by (rule rate_bound) (simp_all add: bucket_ok_def fair_op_def)

section \<open>Waiting ends\<close>

lemma le_nat_ceiling: "(x::rat) \<le> of_nat (nat \<lceil>x\<rceil>)"
  by (rule of_nat_ceiling)

text \<open>
  The clock and \<open>sleep\<close> as the operating system documents them: both always answer, and a
  later reading is at least an earlier one plus the time slept in between.
\<close>

fun slept :: "event list \<Rightarrow> rat" where
  "slept [] = 0"
| "slept ((Sleep d, _) # es) = d + slept es"
| "slept (_ # es) = slept es"

definition keeps_time :: "env \<Rightarrow> bool" where
  "keeps_time env \<longleftrightarrow> (\<forall>tr. \<exists>t. env tr Monotonic = Time t)
     \<and> (\<forall>tr d. 0 \<le> d \<longrightarrow> ok_reply (env tr (Sleep d)))
     \<and> (\<forall>tr t es t'. env tr Monotonic = Time t \<longrightarrow>
          env (tr @ (Monotonic, Time t) # es) Monotonic = Time t' \<longrightarrow> t + slept es \<le> t')"

lemma keeps_timeD:
  assumes "keeps_time env"
  shows "\<exists>t. env tr Monotonic = Time t"
    and "0 \<le> d \<Longrightarrow> ok_reply (env tr (Sleep d))"
    and "env tr Monotonic = Time t \<Longrightarrow> env (tr @ (Monotonic, Time t) # es) Monotonic = Time t' \<Longrightarrow>
      t + slept es \<le> t'"
  using assms unfolding keeps_time_def by blast+

lemma bucket_at_simps [simp]:
  "bucket_at w (set_bucket w b s) = Some b"
  "bucket_at w (s\<lparr>trace := tr\<rparr>) = bucket_at w s"
  "trace (set_bucket w b s) = trace s"
  by (simp_all add: bucket_at_def set_bucket_def split: which.split)

lemma acquire_unfold:
  assumes "env (trace s) Monotonic = Time t" "bucket_at w s = Some b" "acquire_step 1 t b = (b', res)"
  shows "acquire env (Suc n) w s =
    (let s1 = set_bucket w b' (s\<lparr>trace := trace s @ [(Monotonic, Time t)]\<rparr>)
     in case res of Inl e \<Rightarrow> (Inl e, s1) | Inr None \<Rightarrow> (Inr (), s1)
       | Inr (Some d) \<Rightarrow> bindP (py_sleep env (min5 d)) (\<lambda>_. acquire env n w) s1)"
proof -
  have "call_time env Monotonic s = (Inr t, s\<lparr>trace := trace s @ [(Monotonic, Time t)]\<rparr>)"
    using assms(1) by (simp add: call_time_Inr)
  with assms(2,3) show ?thesis
    by (simp add: bindP_def the_bucket_def getP_def ret_def throw_def updP_def Let_def
        split: sum.split option.split)
qed

lemma py_sleep_ok:
  assumes "keeps_time env" "0 \<le> d"
  shows "py_sleep env (Fin d) s
    = (Inr (), s\<lparr>trace := trace s @ [(Sleep d, env (trace s) (Sleep d))]\<rparr>)"
  using keeps_timeD(2) [OF assms] assms(2) by (simp add: py_sleep_def call_unit_Inr)

text \<open>
  A pause: the request is not granted at time \<open>t\<close>, sleeps \<open>d\<close>, and tries again in a state
  in which the clock has moved on by \<open>d\<close>.
\<close>

lemma acquire_pause:
  assumes time: "keeps_time env" "env (trace s) Monotonic = Time t" and "bucket_at w s = Some b"
    and step: "acquire_step 1 t b = (b', Inr (Some (Fin d)))" and d: "0 \<le> d"
  obtains s2 t2 where "acquire env (Suc n) w s = acquire env n w s2" "bucket_at w s2 = Some b'"
    "env (trace s2) Monotonic = Time t2" "t + min d 5 \<le> t2"
proof -
  let ?d = "min d 5"
  let ?s1 = "set_bucket w b' (s\<lparr>trace := trace s @ [(Monotonic, Time t)]\<rparr>)"
  let ?s2 = "?s1\<lparr>trace := trace ?s1 @ [(Sleep ?d, env (trace ?s1) (Sleep ?d))]\<rparr>"
  obtain t2 where t2: "env (trace ?s2) Monotonic = Time t2"
    using keeps_timeD(1) [OF time(1)] by blast
  show ?thesis
  proof (rule that)
    show "acquire env (Suc n) w s = acquire env n w ?s2"
      using acquire_unfold [of env s t w b b' "Inr (Some (Fin d))" n, OF time(2) assms(3) step] py_sleep_ok [OF time(1), of ?d ?s1] d
      by (simp add: Let_def min5_def bindP_def)
    show "bucket_at w ?s2 = Some b'" by simp
    show "env (trace ?s2) Monotonic = Time t2" by (rule t2)
    show "t + ?d \<le> t2"
      using keeps_timeD(3) [OF time, of "[(Sleep ?d, env (trace ?s1) (Sleep ?d))]" t2] t2 by simp
  qed
qed

lemma acquire_refill:
  assumes "keeps_time env" "0 < r" "1 \<le> c"
  shows "bucket_at w s = Some b \<Longrightarrow> bucket_ok r c b \<Longrightarrow> b_last b = Fin l \<Longrightarrow>
    env (trace s) Monotonic = Time t \<Longrightarrow> l \<le> t \<Longrightarrow>
    1 - (b_tokens b + (t - l) * r) \<le> 5 * r * of_nat k \<Longrightarrow> k < fuel \<Longrightarrow>
    \<exists>s'. acquire env fuel w s = (Inr (), s')"
proof (induction k arbitrary: s b l t fuel)
  case (0 s b l t fuel)
  then obtain n where n: "fuel = Suc n" by (cases fuel) auto
  have "acquire_step 1 t b = (b\<lparr>b_tokens := min c (b_tokens b + (t - l) * r) - 1, b_last := Fin t\<rparr>, Inr None)"
    using 0 assms by (simp add: acquire_step_def bucket_ok_def Let_def)
  then show ?case using acquire_unfold [of env s t w b _ "Inr None" n] 0(1,4) n
    by (simp add: Let_def)
next
  case (Suc k s b l t fuel)
  then obtain n where n: "fuel = Suc n" "k < n" by (cases fuel) auto
  let ?t = "b_tokens b + (t - l) * r"
  show ?case
  proof (cases "1 \<le> ?t")
    case True
    then have "acquire_step 1 t b = (b\<lparr>b_tokens := min c ?t - 1, b_last := Fin t\<rparr>, Inr None)"
      using Suc.prems assms by (simp add: acquire_step_def bucket_ok_def Let_def)
    then show ?thesis using acquire_unfold [of env s t w b _ "Inr None" n] Suc.prems(1,4) n
      by (simp add: Let_def)
  next
    case False
    let ?b = "b\<lparr>b_tokens := ?t, b_last := Fin t\<rparr>" and ?d = "(1 - ?t) / r"
    have step: "acquire_step 1 t b = (?b, Inr (Some (Fin ?d)))"
      using False Suc.prems assms by (simp add: acquire_step_def bucket_ok_def Let_def min_def)
    have ok: "bucket_ok r c ?b" using acquire_step_ok [OF Suc.prems(2) step] .
    have "0 \<le> ?d" using False assms(2) by simp
    then obtain s2 t2 where s2: "acquire env (Suc n) w s = acquire env n w s2"
      "bucket_at w s2 = Some ?b" "env (trace s2) Monotonic = Time t2" "t + min ?d 5 \<le> t2"
      using acquire_pause [OF assms(1) Suc.prems(4,1) step] by metis
    have "min ?d 5 * r \<le> (t2 - t) * r" using s2(4) assms(2) by simp
    moreover have "1 - ?t - min ?d 5 * r \<le> 5 * r * of_nat k"
    proof (cases "?d \<le> 5")
      case True
      then show ?thesis using assms(2) by (simp add: min_def)
    next
      case False
      then show ?thesis using Suc.prems(6) by (simp add: min_def algebra_simps)
    qed
    ultimately have need: "1 - (b_tokens ?b + (t2 - t) * r) \<le> 5 * r * of_nat k" by simp
    have "t \<le> t2" using s2(4) \<open>0 \<le> ?d\<close> by (simp add: min_def split: if_splits)
    then show ?thesis
      using Suc.IH [OF s2(2) ok _ s2(3) _ need n(2)] s2(1) n(1) by simp
  qed
qed

lemma acquire_penalty:
  assumes "keeps_time env" "0 < r" "1 \<le> c" "1 \<le> 5 * r * of_nat k"
  shows "bucket_at w s = Some b \<Longrightarrow> bucket_ok r c b \<Longrightarrow> b_last b = Fin l \<Longrightarrow>
    env (trace s) Monotonic = Time t \<Longrightarrow> l - t \<le> 5 * of_nat j \<Longrightarrow> j + k < fuel \<Longrightarrow>
    \<exists>s'. acquire env fuel w s = (Inr (), s')"
proof (induction j arbitrary: s t fuel)
  case (0 s t fuel)
  have "0 \<le> (t - l) * r" using 0 assms(2) by simp
  then have "1 - (b_tokens b + (t - l) * r) \<le> 5 * r * of_nat k"
    using 0(2) assms(4) by (simp add: bucket_ok_def)
  with 0 show ?case by (intro acquire_refill [OF assms(1-3), of w s b l t k]) auto
next
  case (Suc j s t fuel)
  show ?case
  proof (cases "l \<le> t")
    case True
    then show ?thesis using Suc.IH [OF Suc.prems(1-4), of fuel] Suc.prems(6) by simp
  next
    case False
    obtain n where n: "fuel = Suc n" "j + k < n" using Suc.prems(6) by (cases fuel) auto
    have step: "acquire_step 1 t b = (b, Inr (Some (Fin (min (l - t) 5))))"
      using False Suc.prems(3) by (simp add: acquire_step_def Let_def)
    obtain s2 t2 where s2: "acquire env (Suc n) w s = acquire env n w s2"
      "bucket_at w s2 = Some b" "env (trace s2) Monotonic = Time t2" "t + min (l - t) 5 \<le> t2"
      by (rule acquire_pause [OF assms(1) Suc.prems(4,1) step]) (use False that in auto)
    have "l - t2 \<le> 5 * of_nat j"
      using s2(4) Suc.prems(5) False by (auto simp: min_def split: if_splits)
    then show ?thesis
      using Suc.IH [OF s2(2) Suc.prems(2,3) s2(3) _ n(2)] s2(1) n(1) by simp
  qed
qed

text \<open>
  C12: Acquiring a token always returns. With a positive rate and a clock that keeps up with the
  sleeping, a request is granted within as many rounds as the pending penalty and one token's
  refill have five-second slices, plus one, whatever the environment answers otherwise.
\<close>

theorem acquire_returns:
  assumes "keeps_time env" "bucket_at w s = Some b" "bucket_ok r c b" "0 < r" "1 \<le> c"
    and "b_last b = Fin l" "env (trace s) Monotonic = Time t"
    and "nat \<lceil>(l - t) / 5\<rceil> + nat \<lceil>1 / (5 * r)\<rceil> < fuel"
  shows "\<exists>s'. acquire env fuel w s = (Inr (), s')"
proof (rule acquire_penalty [OF assms(1,4,5) _ assms(2,3,6,7) _ assms(8)])
  have "1 / (5 * r) \<le> of_nat (nat \<lceil>1 / (5 * r)\<rceil>)" by (rule le_nat_ceiling)
  then show "1 \<le> 5 * r * of_nat (nat \<lceil>1 / (5 * r)\<rceil>)"
    using assms(4) by (simp only: pos_divide_le_eq mult.commute mult_pos_pos zero_less_numeral)
  have "(l - t) / 5 \<le> of_nat (nat \<lceil>(l - t) / 5\<rceil>)" by (rule le_nat_ceiling)
  then show "l - t \<le> 5 * of_nat (nat \<lceil>(l - t) / 5\<rceil>)" by simp
qed

text \<open>A world in which nothing fails and time passes by sleeping only.\<close>

definition calm_world :: env where
  "calm_world tr c = (case c of Monotonic \<Rightarrow> Time (slept tr) | _ \<Rightarrow> Done)"

lemma slept_append: "slept (xs @ ys) = slept xs + slept ys"
  by (induction xs rule: slept.induct) simp_all

lemma calm_world_keeps_time: "keeps_time calm_world"
  by (simp add: keeps_time_def calm_world_def ok_reply_def slept_append)

theorem acquire_returns_witness:
  "\<exists>s'. acquire calm_world 20 Global \<lparr>trace = [],
     g_bucket = Some \<lparr>b_rate = 1 / 5, b_capacity = 1, b_tokens = 0, b_last = Fin 90\<rparr>,
     h_buckets = Map.empty\<rparr> = (Inr (), s')"
  by (rule acquire_returns [where t = 0 and r = "1 / 5" and c = 1 and l = 90
        and b = "\<lparr>b_rate = 1 / 5, b_capacity = 1, b_tokens = 0, b_last = Fin 90\<rparr>"])
    (simp_all add: calm_world_keeps_time bucket_at_def bucket_ok_def calm_world_def)

section \<open>The retry policy\<close>

definition is_get :: "event \<Rightarrow> bool" where
  "is_get e \<longleftrightarrow> (case fst e of HttpGet _ _ \<Rightarrow> True | _ \<Rightarrow> False)"

lemma emits_the_bucket: "emits P (the_bucket w)"
  by (auto simp: the_bucket_def intro!: emits_rules split: option.split)

lemma emits_new_bucket:
  "(\<And>r. P (Monotonic, r)) \<Longrightarrow> emits P (new_bucket env rate c :: ('z fworld_scheme, bucket) prog)"
  by (auto simp: new_bucket_def Let_def intro!: emits_rules)

lemma emits_acquire:
  "(\<And>r. P (Monotonic, r)) \<Longrightarrow> (\<And>d r. P (Sleep d, r)) \<Longrightarrow>
   emits P (acquire env fuel w :: ('z fworld_scheme, unit) prog)"
proof (induction fuel)
  case 0
  then show ?case by (simp add: emits_rules)
next
  case (Suc n)
  then show ?case
    by (auto intro!: emits_rules emits_the_bucket emits_sleep split: prod.split sum.split option.split)
qed

lemma emits_penalise:
  "(\<And>r. P (Monotonic, r)) \<Longrightarrow> emits P (penalise env w d :: ('z fworld_scheme, unit) prog)"
  by (auto simp: penalise_def intro!: emits_rules emits_the_bucket)

lemma emits_back_off:
  "(\<And>a b r. P (Uniform a b, r)) \<Longrightarrow> (\<And>d r. P (Sleep d, r)) \<Longrightarrow> emits P (back_off env cfg k ra)"
  by (auto simp: back_off_def backoff_delay_def intro!: emits_rules emits_sleep split: option.split)

lemma emits_retry_after: "(\<And>v r. P (DateDelta v, r)) \<Longrightarrow> emits P (parse_retry_after env v)"
  by (auto simp: parse_retry_after_def intro!: emits_rules split: option.split)

lemma emits_on_response:
  assumes "\<And>r. P (Monotonic, r)" "\<And>d r. P (Sleep d, r)" "\<And>a b r. P (Uniform a b, r)"
    "\<And>v r. P (DateDelta v, r)"
  shows "emits P (on_response env cfg k hb st ra body :: ('z fworld_scheme, string option option) prog)"
  unfolding on_response_def
  by (auto intro!: emits_rules emits_penalise emits_sleep emits_back_off emits_retry_after assms
      split: option.split)

lemma attempt_one_get:
  "at_most is_get 1 (attempt_fetch env fuel cfg url hb k :: ('z fworld_scheme, string option option) prog)"
proof -
  have "emits (\<lambda>e. \<not> is_get e) (acquire env fuel w :: ('z fworld_scheme, unit) prog)" for w
    by (rule emits_acquire) (simp_all add: is_get_def)
  then have acq: "at_most is_get 0 (acquire env fuel w :: ('z fworld_scheme, unit) prog)" for w
    by (rule at_most_emits)
  have ret: "at_most is_get 0 (ret x :: ('z fworld_scheme, 'x) prog)" for x :: 'x
    by (intro at_most_emits emits_ret)
  have req: "at_most is_get (0 + (0 + 1)) (request_once env fuel cfg url hb :: ('z fworld_scheme, reply) prog)"
    unfolding request_once_def
    by (intro at_most_bind acq at_most_call) (auto intro: acq ret split: option.split)
  have hnd: "at_most is_get 0 (bindP (back_off env cfg k None) (\<lambda>_. ret None) :: ('z fworld_scheme, reply option) prog)"
    by (intro at_most_emits emits_bind emits_ret emits_back_off) (simp_all add: is_get_def)
  have resp: "at_most is_get 0 (on_response env cfg k hb st ra body :: ('z fworld_scheme, string option option) prog)"
    for st ra body
    by (intro at_most_emits emits_on_response) (simp_all add: is_get_def)
  have "at_most is_get (((0 + (0 + 1)) + 0 + 0) + 0)
      (attempt_fetch env fuel cfg url hb k :: ('z fworld_scheme, string option option) prog)"
    unfolding attempt_fetch_def
    by (intro at_most_bind at_most_try req ret hnd)
      (auto intro!: ret resp at_most_emits emits_throw split: option.split reply.split)
  then show ?thesis by simp
qed

lemma fetch_loop_gets:
  "at_most is_get (length ks) (fetch_loop env fuel cfg url hb ks :: ('z fworld_scheme, string option) prog)"
proof (induction ks)
  case Nil
  then show ?case by (simp add: at_most_emits emits_ret)
next
  case (Cons k ks)
  have "at_most is_get (1 + length ks)
      (fetch_loop env fuel cfg url hb (k # ks) :: ('z fworld_scheme, string option) prog)"
    unfolding fetch_loop.simps
    by (intro at_most_bind attempt_one_get)
      (auto intro: Cons.IH at_most_emits emits_ret split: option.split)
  then show ?case by simp
qed

lemma emits_get_buckets:
  "emits (\<lambda>e. \<not> is_get e) (get_bucket env cfg :: ('z fworld_scheme, unit) prog)"
  "emits (\<lambda>e. \<not> is_get e) (get_host_bucket env cfg ip url :: ('z fworld_scheme, string option) prog)"
  unfolding get_bucket_def get_host_bucket_def
  by (auto simp: is_get_def intro!: emits_rules emits_new_bucket split: option.split)

text \<open>
  A fetch asks a server at most the configured number of retries plus one times, whatever
  the server, the limiters and the clock do.
\<close>

theorem fetch_one_gets:
  "at_most is_get (nat (FETCH_RETRIES cfg + 1))
     (fetch_one env fuel cfg ip url :: ('z fworld_scheme, string option) prog)"
proof -
  have "at_most is_get (0 + (0 + length [0..<nat (FETCH_RETRIES cfg + 1)]))
      (fetch_one env fuel cfg ip url :: ('z fworld_scheme, string option) prog)"
    unfolding fetch_one_def
    by (intro at_most_bind fetch_loop_gets at_most_emits emits_get_buckets)
  then show ?thesis by simp
qed

section \<open>What a fetch returns\<close>

definition is_gone :: "exn \<Rightarrow> bool" where
  "is_gone e \<longleftrightarrow> (case e of PermanentFetchError _ \<Rightarrow> True | _ \<Rightarrow> False)"

lemma is_gone_simps [simp]: "is_gone (PermanentFetchError m)" "\<not> is_gone bad_reply"
  "\<not> is_gone (ValueError m)" "\<not> is_gone OverflowError" "\<not> is_gone ZeroDivisionError"
  "\<not> is_gone (AttributeError m)" "\<not> is_gone NoReturn" "\<not> is_gone (RuntimeError m)"
  by (simp_all add: is_gone_def bad_reply_def)

lemma sleep_not_gone: "env_avoids is_gone env \<Longrightarrow> avoids is_gone (py_sleep env d)"
  by (auto simp: py_sleep_def intro!: avoids_rules split: py_float.split)

lemma the_bucket_not_gone: "avoids is_gone (the_bucket w)"
  by (auto simp: the_bucket_def intro!: avoids_rules split: option.split)

lemma acquire_step_not_gone: "acquire_step n now b = (b', Inl e) \<Longrightarrow> \<not> is_gone e"
  by (auto simp: acquire_step_def Let_def split: py_float.splits if_splits)

lemma acquire_not_gone:
  "env_avoids is_gone env \<Longrightarrow> avoids is_gone (acquire env fuel w :: ('z fworld_scheme, unit) prog)"
proof (induction fuel)
  case 0
  then show ?case by (simp add: avoids_rules)
next
  case (Suc n)
  then show ?case
    by (auto intro!: avoids_rules the_bucket_not_gone sleep_not_gone
        split: prod.split sum.split option.split dest: acquire_step_not_gone)
qed

lemma back_off_not_gone: "env_avoids is_gone env \<Longrightarrow> avoids is_gone (back_off env cfg k ra)"
  by (auto simp: back_off_def backoff_delay_def intro!: avoids_rules sleep_not_gone split: option.split)

lemma penalise_not_gone:
  "env_avoids is_gone env \<Longrightarrow> avoids is_gone (penalise env w d :: ('z fworld_scheme, unit) prog)"
  by (auto simp: penalise_def intro!: avoids_rules the_bucket_not_gone)

lemma avoids_try_weak: "avoids p m \<Longrightarrow> (\<And>e. avoids p (h e)) \<Longrightarrow> avoids p (tryP m q h)"
  by (rule avoids_try) (auto dest: avoidsD)

lemma retry_after_not_gone:
  assumes "env_avoids is_gone env"
  shows "avoids is_gone (parse_retry_after env v)"
  unfolding parse_retry_after_def
  by (auto intro!: avoids_try_weak avoids_bind avoids_simple avoids_calls assms split: option.split)

lemma request_not_gone:
  "env_avoids is_gone env \<Longrightarrow>
   avoids is_gone (request_once env fuel cfg url hb :: ('z fworld_scheme, reply) prog)"
  by (auto simp: request_once_def intro!: avoids_rules acquire_not_gone split: option.split)

lemma buckets_not_gone:
  assumes "env_avoids is_gone env"
  shows "avoids is_gone (get_bucket env cfg :: ('z fworld_scheme, unit) prog)"
    and "avoids is_gone (get_host_bucket env cfg ip url :: ('z fworld_scheme, string option) prog)"
  using assms unfolding get_bucket_def get_host_bucket_def new_bucket_def Let_def
  by (auto intro!: avoids_rules split: option.split
      simp: url_host_def host_rate_def Let_def split: if_splits option.splits py_float.splits)

text \<open>The answer to the last request justifies the outcome.\<close>

definition answered :: "config \<Rightarrow> string \<Rightarrow> event list \<Rightarrow> nat \<Rightarrow> string \<Rightarrow> bool" where
  "answered cfg url tr st body \<longleftrightarrow>
     tr \<noteq> [] \<and> (\<exists>ra. last tr = (HttpGet url (FETCH_TIMEOUT cfg), Response st ra body))"

definition justified :: "config \<Rightarrow> string \<Rightarrow> outcome \<Rightarrow> event list \<Rightarrow> bool" where
  "justified cfg url out tr \<longleftrightarrow> (case out of
     Inr (Some body) \<Rightarrow> answered cfg url tr 200 body
   | Inr None \<Rightarrow> True
   | Inl e \<Rightarrow> is_gone e \<longrightarrow> (\<exists>st body. st \<in> {404, 410} \<and>
       e = PermanentFetchError (''HTTP '' @ show_nat st) \<and> answered cfg url tr st body))"

lemma request_once_Inr:
  "request_once env fuel cfg url hb s = (Inr r, s') \<Longrightarrow>
   trace s' \<noteq> [] \<and> last (trace s') = (HttpGet url (FETCH_TIMEOUT cfg), r)"
  by (auto simp: request_once_def bindP_eq_Inr call_Inr)

lemma on_response_outcome:
  fixes s :: "'z fworld_scheme"
  assumes "env_avoids is_gone env" "on_response env cfg k hb st ra body s = (res, s')"
  shows "res = Inr (Some (Some b)) \<Longrightarrow> st = 200 \<and> b = body \<and> s' = s"
    and "res = Inl (PermanentFetchError msg) \<Longrightarrow>
      st \<in> {404, 410} \<and> msg = ''HTTP '' @ show_nat st \<and> s' = s"
proof -
  show "res = Inr (Some (Some b)) \<Longrightarrow> st = 200 \<and> b = body \<and> s' = s"
    using assms(2) unfolding on_response_def
    by (auto simp: bindP_eq_Inr ret_def throw_def split: if_splits)
  have "avoids is_gone (on_response env cfg k hb st ra body :: ('z fworld_scheme, _) prog)"
    if "st \<notin> {404, 410}"
    using that assms(1) unfolding on_response_def
    by (auto intro!: avoids_rules penalise_not_gone sleep_not_gone back_off_not_gone
        retry_after_not_gone split: option.split)
  then have "res = Inl (PermanentFetchError msg) \<Longrightarrow> st \<in> {404, 410}"
    using assms(2) avoidsD by fastforce
  then show "res = Inl (PermanentFetchError msg) \<Longrightarrow>
      st \<in> {404, 410} \<and> msg = ''HTTP '' @ show_nat st \<and> s' = s"
    using assms(2) by (auto simp: on_response_def throw_def)
qed

lemma is_gone_cases: "is_gone e \<longleftrightarrow> (\<exists>m. e = PermanentFetchError m)"
  by (auto simp: is_gone_def split: exn.splits)

lemma attempt_fetch_justified:
  fixes s :: "'z fworld_scheme"
  assumes env: "env_avoids is_gone env" and run: "attempt_fetch env fuel cfg url hb k s = (res, s')"
  shows "case res of Inl e \<Rightarrow> justified cfg url (Inl e) (trace s')
    | Inr None \<Rightarrow> True | Inr (Some out) \<Rightarrow> justified cfg url (Inr out) (trace s')"
proof -
  let ?req = "bindP (request_once env fuel cfg url hb) (\<lambda>r. ret (Some r)) :: ('z fworld_scheme, _) prog"
  let ?guarded = "tryP ?req is_request_error (\<lambda>_. bindP (back_off env cfg k None) (\<lambda>_. ret None))"
  obtain t s1 where t: "?guarded s = (t, s1)" by fastforce
  have av: "avoids is_gone ?guarded"
    by (intro avoids_try_weak avoids_bind avoids_simple request_not_gone back_off_not_gone env)
  show ?thesis
  proof (cases t)
    case (Inl e)
    then have "res = Inl e" using run t by (simp add: attempt_fetch_def bindP_def)
    moreover have "\<not> is_gone e" using avoidsD [OF av] t Inl by blast
    ultimately show ?thesis by (simp add: justified_def)
  next
    case (Inr o')
    show ?thesis
    proof (cases "\<exists>st ra body. o' = Some (Response st ra body)")
      case False
      then show ?thesis
        using run t Inr
        by (auto simp: attempt_fetch_def bindP_def ret_def throw_def justified_def
            split: option.splits reply.splits)
    next
      case True
      then obtain st ra body where o': "o' = Some (Response st ra body)" by blast
      have "?req s = (Inr (Some (Response st ra body)), s1)"
        using t Inr o'
        by (auto simp: tryP_def bindP_eq_Inr ret_def split: prod.splits sum.splits if_splits)
      then have "request_once env fuel cfg url hb s = (Inr (Response st ra body), s1)"
        by (auto simp: bindP_eq_Inr ret_def)
      from request_once_Inr [OF this]
      have last: "answered cfg url (trace s1) st body" by (auto simp: answered_def)
      have resp: "on_response env cfg k hb st ra body s1 = (res, s')"
        using run t Inr o' by (simp add: attempt_fetch_def bindP_def)
      show ?thesis
        using last on_response_outcome [OF env resp]
        by (auto simp: justified_def is_gone_cases split: sum.split option.split) blast+
    qed
  qed
qed

lemma fetch_loop_justified:
  assumes "env_avoids is_gone env"
  shows "fetch_loop env fuel cfg url hb ks s = (out, s') \<Longrightarrow> justified cfg url out (trace s')"
proof (induction ks arbitrary: s)
  case Nil
  then show ?case by (auto simp: ret_def justified_def)
next
  case (Cons k ks)
  obtain res s1 where att: "attempt_fetch env fuel cfg url hb k s = (res, s1)" by fastforce
  from attempt_fetch_justified [OF assms att] Cons att show ?case
    by (auto simp: bindP_def ret_def split: sum.splits option.splits)
qed

text \<open>
  C18: The outcome of a fetch is what the server said: a text is the body of the last response,
  whose status was 200; the permanent error is raised only when the last response was a 404 or a
  410, and names that status; everything else is not taken for content.
\<close>

theorem fetch_one_justified:
  assumes "env_avoids is_gone env" "fetch_one env fuel cfg ip url s = (out, s')"
  shows "justified cfg url out (trace s')"
proof -
  obtain r1 s1 where 1: "get_bucket env cfg s = (r1, s1)" by fastforce
  obtain r2 s2 where 2: "get_host_bucket env cfg ip url s1 = (r2, s2)" by fastforce
  show ?thesis
  proof (cases "r1")
    case (Inl e)
    then have "\<not> is_gone e" using 1 avoidsD [OF buckets_not_gone(1) [OF assms(1)]] by blast
    with Inl show ?thesis using assms(2) 1 by (auto simp: fetch_one_def bindP_def justified_def)
  next
    case r1: (Inr u)
    show ?thesis
    proof (cases r2)
      case (Inl e)
      then have "\<not> is_gone e" using 2 avoidsD [OF buckets_not_gone(2) [OF assms(1)]] by blast
      with Inl show ?thesis
        using assms(2) 1 2 r1 by (auto simp: fetch_one_def bindP_def justified_def)
    next
      case (Inr hb)
      then show ?thesis
        using assms(2) 1 2 r1
        by (auto simp: fetch_one_def bindP_def intro: fetch_loop_justified [OF assms(1)])
    qed
  qed
qed

text \<open>A server that knows one page, and no other.\<close>

definition page_server :: "string \<Rightarrow> env" where
  "page_server page tr c = (case c of
     Monotonic \<Rightarrow> Time (slept tr) | Uniform a b \<Rightarrow> Time a
   | HttpGet url _ \<Rightarrow> if url = page then Response 200 None ''hello'' else Response 404 None []
   | _ \<Rightarrow> Done)"

definition start :: fworld where
  "start = \<lparr>trace = [], g_bucket = None, h_buckets = Map.empty\<rparr>"

theorem fetch_one_justified_witness:
  "justified default_config ''http://h/a''
     (fst (fetch_one (page_server ''http://h/a'') 5 default_config (\<lambda>_. True) ''http://h/a'' start))
     (trace (snd (fetch_one (page_server ''http://h/a'') 5 default_config (\<lambda>_. True) ''http://h/a'' start)))"
  by (rule fetch_one_justified [where env = "page_server ''http://h/a''"])
    (auto simp: env_avoids_def page_server_def split: cmd.splits if_splits)

section \<open>What a batch of fetches returns\<close>

lemma emits_fetch_one:
  "emits (\<lambda>_. True) (fetch_one env fuel cfg ip url :: ('z fworld_scheme, string option) prog)"
proof -
  have loop: "emits (\<lambda>_. True) (fetch_loop env fuel cfg url hb ks :: ('z fworld_scheme, string option) prog)"
    for hb ks
    by (induction ks) (auto simp: attempt_fetch_def request_once_def intro!: emits_rules
        emits_acquire emits_back_off emits_on_response split: option.split reply.split)
  show ?thesis
    unfolding fetch_one_def get_bucket_def get_host_bucket_def
    by (auto intro!: emits_rules emits_new_bucket loop split: option.split)
qed

lemma run_workers_justified:
  fixes s :: "'z fworld_scheme"
  assumes "env_avoids is_gone env"
  shows "run_workers env fuel cfg ip urls s = (Inr outs, s') \<Longrightarrow>
    length outs = length urls \<and> prefix (trace s) (trace s') \<and>
    list_all (\<lambda>(url, out). \<exists>tr. prefix tr (trace s') \<and> justified cfg url out tr) (zip urls outs)"
proof (induction urls arbitrary: s outs)
  case Nil
  then show ?case by (simp add: ret_def)
next
  case (Cons url urls)
  obtain out s1 where 1: "fetch_one env fuel cfg ip url s = (out, s1)" by fastforce
  obtain outs' where 2: "run_workers env fuel cfg ip urls s1 = (Inr outs', s')" "outs = out # outs'"
    using Cons.prems 1 by (auto simp: bindP_eq_Inr ret_def split: if_splits)
  note IH = Cons.IH [OF 2(1)]
  have "prefix (trace s) (trace s1)"
    using emitsD [OF emits_fetch_one 1] by auto
  moreover have "justified cfg url out (trace s1)"
    by (rule fetch_one_justified [OF assms 1])
  ultimately show ?case using IH 2(2) by (auto intro: prefix_order.trans)
qed

text \<open>One turn of the collecting loop that does not raise.\<close>

lemma collect_Cons:
  assumes "collect (R0, P0) ((u, out) # L) = Inr (R, P)"
  obtains "out = Inr None" "collect (R0, P0) L = Inr (R, P)"
    | b where "out = Inr (Some b)" "collect (R0(u \<mapsto> b), P0) L = Inr (R, P)"
    | m where "out = Inl (PermanentFetchError m)" "collect (R0, P0(u \<mapsto> m)) L = Inr (R, P)"
  using assms by (auto split: sum.splits exn.splits option.splits)

lemma collect_results:
  "collect (R0, P0) L = Inr (R, P) \<Longrightarrow> R u = Some b \<Longrightarrow> (u, Inr (Some b)) \<in> set L \<or> R0 u = Some b"
proof (induction L arbitrary: R0 P0)
  case (Cons x L)
  obtain v out where x: "x = (v, out)" by fastforce
  from Cons.prems(1)[unfolded x] show ?case
    by (cases rule: collect_Cons) (use Cons x in \<open>auto dest!: Cons.IH split: if_splits\<close>)
qed simp

lemma collect_permanent:
  "collect (R0, P0) L = Inr (R, P) \<Longrightarrow> P u = Some m \<Longrightarrow>
   (u, Inl (PermanentFetchError m)) \<in> set L \<or> P0 u = Some m"
proof (induction L arbitrary: R0 P0)
  case (Cons x L)
  obtain v out where x: "x = (v, out)" by fastforce
  from Cons.prems(1)[unfolded x] show ?case
    by (cases rule: collect_Cons) (use Cons x in \<open>auto dest!: Cons.IH split: if_splits\<close>)
qed simp

lemma collect_grows:
  "collect (R0, P0) L = Inr (R, P) \<Longrightarrow> (R0 u \<noteq> None \<longrightarrow> R u \<noteq> None) \<and> (P0 u \<noteq> None \<longrightarrow> P u \<noteq> None)"
proof (induction L arbitrary: R0 P0)
  case (Cons x L)
  obtain v out where x: "x = (v, out)" by fastforce
  from Cons.prems[unfolded x] show ?case
  proof (cases rule: collect_Cons)
    case 1
    from Cons.IH [OF 1(2)] show ?thesis .
  next
    case (2 b)
    from Cons.IH [OF 2(2)] show ?thesis by (auto split: if_splits)
  next
    case (3 m)
    from Cons.IH [OF 3(2)] show ?thesis by (auto split: if_splits)
  qed
qed simp

lemma collect_complete:
  "collect (R0, P0) L = Inr (R, P) \<Longrightarrow> (u, out) \<in> set L \<Longrightarrow> out \<noteq> Inr None \<Longrightarrow>
   R u \<noteq> None \<or> P u \<noteq> None"
proof (induction L arbitrary: R0 P0)
  case (Cons x L)
  obtain v out' where x: "x = (v, out')" by fastforce
  from Cons.prems(1)[unfolded x] show ?case
  proof (cases rule: collect_Cons)
    case 1
    then show ?thesis using Cons.IH [OF 1(2)] Cons.prems x by auto
  next
    case (2 b)
    then show ?thesis
      using Cons.IH [OF 2(2)] Cons.prems x collect_grows [OF 2(2), of u] by auto
  next
    case (3 m)
    then show ?thesis
      using Cons.IH [OF 3(2)] Cons.prems x collect_grows [OF 3(2), of u] by auto
  qed
qed simp

text \<open>
  C13: A batch never mixes up pages. A text filed under a URL is the body of a 200 response to a
  request for exactly that URL, an error filed under a URL is a 404 or 410 response to a request
  for it, only requested URLs are filed, and a URL in neither map had a worker that ended
  without content; all this whatever the order in which the workers finish.
\<close>

theorem fetch_many_faithful:
  fixes s :: "'z fworld_scheme"
  assumes "env_avoids is_gone env" "fetch_many env lb fuel cfg urls s = (Inr (results, permanent), s')"
    and "set (completion lb (length urls)) = {..<length urls}"
  shows "(\<forall>url body. results url = Some body \<longrightarrow> url \<in> set urls \<and>
            (\<exists>ra. (HttpGet url (FETCH_TIMEOUT cfg), Response 200 ra body) \<in> set (trace s')))
    \<and> (\<forall>url msg. permanent url = Some msg \<longrightarrow> url \<in> set urls \<and>
            (\<exists>st ra body. st \<in> {404, 410} \<and> msg = ''HTTP '' @ show_nat st \<and>
               (HttpGet url (FETCH_TIMEOUT cfg), Response st ra body) \<in> set (trace s')))
    \<and> (\<exists>outs. run_workers env fuel cfg (is_ip lb) urls s = (Inr outs, s') \<and>
            (\<forall>i < length urls. results (urls ! i) = None \<and> permanent (urls ! i) = None \<longrightarrow>
               outs ! i = Inr None))"
proof -
  let ?L = "\<lambda>outs. map (\<lambda>i. (urls ! i, outs ! i)) (completion lb (length urls))"
  obtain outs where run: "run_workers env fuel cfg (is_ip lb) urls s = (Inr outs, s')"
    and col: "collect (Map.empty, Map.empty) (?L outs) = Inr (results, permanent)"
    using assms(2) by (auto simp: fetch_many_def bindP_eq_Inr liftE_def throw_def split: if_splits)
  note W = run_workers_justified [OF assms(1) run]
  have just: "\<exists>tr. prefix tr (trace s') \<and> justified cfg (urls ! i) (outs ! i) tr" if "i < length urls" for i
    using W that by (auto simp: list_all_length)
  have mem: "\<exists>i < length urls. url = urls ! i \<and> out = outs ! i" if "(url, out) \<in> set (?L outs)" for url out
    using that assms(3) by auto
  have seen: "\<exists>ra. (HttpGet url (FETCH_TIMEOUT cfg), Response st ra body) \<in> set (trace s')"
    if "answered cfg url tr st body" "prefix tr (trace s')" for url tr st body
    using that unfolding answered_def by (metis last_in_set set_mono_prefix subsetD)
  have 1: "url \<in> set urls \<and>
      (\<exists>ra. (HttpGet url (FETCH_TIMEOUT cfg), Response 200 ra body) \<in> set (trace s'))"
    if r: "results url = Some body" for url body
  proof -
    obtain i where i: "i < length urls" "url = urls ! i" "outs ! i = Inr (Some body)"
      using collect_results [OF col r] mem [of url "Inr (Some body)"] by auto
    obtain tr where "prefix tr (trace s')" "answered cfg url tr 200 body"
      using just [OF i(1)] i by (auto simp: justified_def)
    with seen i show ?thesis by (simp add: nth_mem)
  qed
  have 2: "url \<in> set urls \<and> (\<exists>st ra body. st \<in> {404, 410} \<and> msg = ''HTTP '' @ show_nat st \<and>
      (HttpGet url (FETCH_TIMEOUT cfg), Response st ra body) \<in> set (trace s'))"
    if r: "permanent url = Some msg" for url msg
  proof -
    obtain i where i: "i < length urls" "url = urls ! i" "outs ! i = Inl (PermanentFetchError msg)"
      using collect_permanent [OF col r] mem [of url "Inl (PermanentFetchError msg)"] by auto
    obtain tr where tr: "prefix tr (trace s')" "justified cfg url (outs ! i) tr"
      using just [OF i(1)] i(2) by blast
    then obtain st body where st: "st \<in> {404, 410}" "msg = ''HTTP '' @ show_nat st"
      "answered cfg url tr st body"
      using i(3) unfolding justified_def by auto
    with seen [OF st(3) tr(1)] i show ?thesis by (metis nth_mem)
  qed
  have 3: "outs ! i = Inr None"
    if "i < length urls" "results (urls ! i) = None \<and> permanent (urls ! i) = None" for i
  proof -
    have "(urls ! i, outs ! i) \<in> set (?L outs)" using that(1) assms(3) by auto
    from collect_complete [OF col this] that(2) show ?thesis by auto
  qed
  from 1 2 3 run show ?thesis by (intro conjI) blast+
qed

text \<open>A batch of a page that exists and one that does not, finishing in reverse order.\<close>

definition test_lib :: lib where
  "test_lib = \<lparr>json_loads = (\<lambda>_. NotJson), json_dumps = (\<lambda>_. []), sha256_hex = (\<lambda>_. []),
     blake2b8 = (\<lambda>_. []), is_ip = (\<lambda>_. True), completion = (\<lambda>n. rev [0..<n])\<rparr>"

definition two_pages :: "(exn + fetched) \<times> fworld" where
  "two_pages = fetch_many (page_server ''http://h/a'') test_lib 5 default_config
     [''http://h/a'', ''http://h/b''] start"

theorem fetch_many_faithful_witness:
  "\<exists>results permanent. fst two_pages = Inr (results, permanent)
     \<and> results ''http://h/a'' = Some ''hello'' \<and> permanent ''http://h/b'' = Some ''HTTP 404''
     \<and> (\<exists>ra. (HttpGet ''http://h/a'' 15, Response 200 ra ''hello'') \<in> set (trace (snd two_pages)))"
proof -
  have "case fst two_pages of Inr (results, permanent) \<Rightarrow> results ''http://h/a'' = Some ''hello''
      \<and> permanent ''http://h/b'' = Some ''HTTP 404'' | Inl _ \<Rightarrow> False"
    by code_simp
  then obtain results permanent where r: "fst two_pages = Inr (results, permanent)"
    "results ''http://h/a'' = Some ''hello''" "permanent ''http://h/b'' = Some ''HTTP 404''"
    by (auto split: sum.splits)
  have "env_avoids is_gone (page_server ''http://h/a'')"
    by (auto simp: env_avoids_def page_server_def split: cmd.splits if_splits)
  moreover have "fetch_many (page_server ''http://h/a'') test_lib 5 default_config
     [''http://h/a'', ''http://h/b''] start = (Inr (results, permanent), snd two_pages)"
    using r(1) by (simp add: two_pages_def prod_eq_iff)
  moreover have "set (completion test_lib (length [''http://h/a'', ''http://h/b'']))
      = {..<length [''http://h/a'', ''http://h/b'']}"
    by (auto simp: test_lib_def)
  ultimately have "\<exists>ra. (HttpGet ''http://h/a'' (FETCH_TIMEOUT default_config), Response 200 ra ''hello'')
      \<in> set (trace (snd two_pages))"
    using fetch_many_faithful r(2) by blast
  with r show ?thesis by (simp add: default_config_def)
qed

section \<open>Requests that break a batch\<close>

definition raised :: "(exn + 'a) \<times> 's \<Rightarrow> exn option" where
  "raised res = (case fst res of Inl e \<Rightarrow> Some e | Inr _ \<Rightarrow> None)"

text \<open>
  One URL with an unbalanced bracket makes the whole batch raise: the host is looked up outside
  the \<open>try\<close>, and \<open>fut.result()\<close> hands the \<open>ValueError\<close> on.
\<close>

theorem malformed_url_raises:
  "raised (fetch_many (page_server ''http://h/a'') test_lib 5 default_config
     [''http://h/a'', ''http://[/'' ] start) = Some (ValueError ''Invalid IPv6 URL'')"
  by code_simp

text \<open>A server that answers 429 with a given \<open>Retry-After\<close>.\<close>

definition throttling_server :: "string \<Rightarrow> env" where
  "throttling_server ra tr c = (case c of
     Monotonic \<Rightarrow> Time (slept tr) | HttpGet url _ \<Rightarrow> Response 429 (Some ra) [] | _ \<Rightarrow> Done)"

text \<open>
  A negative or non-finite \<open>Retry-After\<close> reaches \<open>time.sleep\<close>, whose exception is no
  \<open>RequestException\<close>: the batch raises. After \<open>inf\<close> the global bucket never refills.
\<close>

theorem bad_retry_after_raises:
  "raised (fetch_many (throttling_server ''-1'') test_lib 5 default_config [''http://h/a''] start)
     = Some (ValueError ''sleep length must be non-negative'')
   \<and> raised (fetch_many (throttling_server ''nan'') test_lib 5 default_config [''http://h/a''] start)
     = Some (ValueError ''Invalid value NaN (not a number)'')
   \<and> raised (fetch_many (throttling_server ''inf'') test_lib 5 default_config [''http://h/a''] start)
     = Some OverflowError
   \<and> map_option b_last (g_bucket (snd (fetch_many (throttling_server ''inf'') test_lib 5
         default_config [''http://h/a''] start))) = Some PInf"
  by (intro conjI; code_simp)

end
