(* ===== verification/Processor.thy ===== *)
theory Processor
  imports Store Neardup Quality Fetcher
begin

text \<open>
  \<open>py-processor/main.py\<close>: the consumer of the article stream. \<open>process_batch\<close> is written
  in its phases (parse, split, fetch and extract, select, store, count, acknowledge), composed
  in the order of the code, over the state of the process: the trace of its calls, the rate
  limiters, the connection, the pool and the bounded list of fingerprints seen.

  The theorems are the failure policy of the module's documentation, as far as it holds: what is
  acknowledged and when, what is indexed and when, that every message is accounted for; and
  where the policy is broken.
\<close>

record pworld = fworld +
  p_pool :: bool
  p_conn :: bool
  p_seen :: "int list"

section \<open>Content and dead letters\<close>

definition extract_content :: "env \<Rightarrow> string option \<Rightarrow> ('z world_scheme, string option) prog" where
  "extract_content env html = (case html of
     None \<Rightarrow> ret None
   | Some h \<Rightarrow> if h = [] then ret None
       else bindP (call env (Extract h)) (\<lambda>r. case r of
           Txt t \<Rightarrow> ret (Some t) | Null \<Rightarrow> ret None | _ \<Rightarrow> throw bad_reply))"

definition get_or :: "'a option \<Rightarrow> 'a \<Rightarrow> 'a" where
  "get_or v dflt = (case v of None \<Rightarrow> dflt | Some x \<Rightarrow> x)"

text \<open>The Lua script, which Redis runs without interleaving.\<close>

definition dlq_script ::
  "env \<Rightarrow> string \<Rightarrow> string \<Rightarrow> string \<Rightarrow> fields \<Rightarrow> int \<Rightarrow> ('z world_scheme, int) prog" where
  "dlq_script env seen_key stream msg_id flds maxlen =
     bindP (call_num env (Sismember seen_key msg_id)) (\<lambda>n.
       if n = 1 then ret 0
       else bindP (call_unit env (Sadd seen_key msg_id)) (\<lambda>_.
            bindP (call_unit env (Xadd stream (Some maxlen) ((''stream_msg_id'', msg_id) # flds))) (\<lambda>_.
              ret 1)))"

definition dlq_metric :: string where "dlq_metric = ''metrics:articles:dlq''"

definition dlq_fields :: "lib \<Rightarrow> article \<Rightarrow> string \<Rightarrow> string \<Rightarrow> fields" where
  "dlq_fields lb article reason detail =
     [(''url'', get_or (a_url article) []), (''title'', get_or (a_title article) []),
      (''reason'', reason), (''detail'', take 500 detail),
      (''article'', take 10000 (json_dumps lb article))]"

definition push_dlq ::
  "env \<Rightarrow> lib \<Rightarrow> config \<Rightarrow> string \<Rightarrow> article \<Rightarrow> string \<Rightarrow> string \<Rightarrow> ('z world_scheme, bool) prog" where
  "push_dlq env lb cfg msg_id article reason detail =
     tryP (bindP (dlq_script env (DLQ_SEEN_KEY cfg) (DLQ_STREAM cfg) msg_id
                   (dlq_fields lb article reason detail) (DLQ_MAXLEN cfg)) (\<lambda>first.
           bindP (if first = 1 then call_unit env (Incr dlq_metric) else ret ()) (\<lambda>_.
             ret (first = 1))))
       is_Exception (\<lambda>_. ret False)"

section \<open>Phase 1: parsing\<close>

text \<open>A message without an article, or with one that is not JSON, is skipped.\<close>

definition parse_message :: "lib \<Rightarrow> message \<Rightarrow> (string \<times> payload) list" where
  "parse_message lb m = (case m of (msg_id, flds) \<Rightarrow>
     (case map_of flds ''article'' of
        None \<Rightarrow> []
      | Some raw \<Rightarrow> if raw = [] then []
          else (case json_loads lb raw of NotJson \<Rightarrow> [] | p \<Rightarrow> [(msg_id, p)])))"

definition parse_messages :: "lib \<Rightarrow> message list \<Rightarrow> (string \<times> payload) list" where
  "parse_messages lb ms = concat (map (parse_message lb) ms)"

section \<open>Phase 2: content\<close>

type_synonym ready = "string \<times> article \<times> string"

text \<open>An article that carries its content goes the fast path; JSON that is no object raises.\<close>

fun split_payloads ::
  "(string \<times> payload) list \<Rightarrow> exn + ready list \<times> (string \<times> article) list" where
  "split_payloads [] = Inr ([], [])"
| "split_payloads ((msg_id, p) # ps) = (case p of
     Obj article \<Rightarrow> bindE (split_payloads ps) (\<lambda>(direct, to_fetch).
       (case a_content_md article of
          Some md \<Rightarrow> if md \<noteq> [] then Inr ((msg_id, article, md) # direct, to_fetch)
                     else Inr (direct, (msg_id, article) # to_fetch)
        | None \<Rightarrow> Inr (direct, (msg_id, article) # to_fetch)))
   | _ \<Rightarrow> Inl (AttributeError ''get''))"

definition url_of :: "article \<Rightarrow> string" where
  "url_of article = get_or (a_url article) []"

text \<open>The counters of a batch: rejections by reason and by source.\<close>

record tally =
  t_stats :: "(string \<times> nat) list"
  t_src :: "(string \<times> nat) list"

definition reject :: "string \<Rightarrow> article \<Rightarrow> tally \<Rightarrow> tally" where
  "reject reason article t = t\<lparr>t_stats := bump reason 1 (t_stats t),
     t_src := bump (get_or (a_source_type article) ''?'') 1 (t_src t)\<rparr>"

definition extract_step ::
  "env \<Rightarrow> lib \<Rightarrow> config \<Rightarrow> fetched \<Rightarrow> tally \<times> ready list \<Rightarrow> string \<times> article
     \<Rightarrow> ('z world_scheme, tally \<times> ready list) prog" where
  "extract_step env lb cfg fetched acc item =
     (case acc of (t, extracted) \<Rightarrow> case item of (msg_id, article) \<Rightarrow>
        if snd fetched (url_of article) \<noteq> None
        then ret (reject ''not_found'' article t, extracted)
        else bindP (extract_content env (fst fetched (url_of article))) (\<lambda>content.
          if content = None \<or> content = Some []
          then bindP (push_dlq env lb cfg msg_id article ''extract_fail'' (url_of article)) (\<lambda>_.
                 ret (reject ''extract_fail'' article t, extracted))
          else ret (t, extracted @ [(msg_id, article, the content)])))"

section \<open>Phase 3: quality, language, duplicates\<close>

definition detect_lang :: "env \<Rightarrow> string \<Rightarrow> ('z world_scheme, string) prog" where
  "detect_lang env text = tryP (call_text env (Detect text))
     (\<lambda>e. e = LangDetectException) (\<lambda>_. ret ''unknown'')"

definition seen_max :: nat where "seen_max = 10000"

text \<open>\<open>deque(maxlen=10000).append\<close>\<close>

definition remember :: "int \<Rightarrow> int list \<Rightarrow> int list" where
  "remember h seen = (let s = seen @ [h] in drop (length s - seen_max) s)"

definition make_row :: "lib \<Rightarrow> article \<Rightarrow> string \<Rightarrow> string \<Rightarrow> int \<Rightarrow> rat \<Rightarrow> row" where
  "make_row lb article content lang chash score =
     \<lparr>r_url = url_of article, r_url_hash = sha256_hex lb (url_of article),
      r_title = a_title article, r_content = content, r_author = a_author article,
      r_published_at = a_published_at article, r_tags = get_or (a_tags article) (Some []),
      r_source = get_or (a_source_type article) ''devto'', r_lang = lang, r_hash = chash,
      r_score = score\<rparr>"

definition score_of :: "meta option \<Rightarrow> rat" where
  "score_of m = (case m of None \<Rightarrow> 0 | Some mt \<Rightarrow> m_quality_score mt)"

definition count_only :: "string \<Rightarrow> tally \<Rightarrow> tally" where
  "count_only reason t = t\<lparr>t_stats := bump reason 1 (t_stats t)\<rparr>"

definition select_step ::
  "env \<Rightarrow> lib \<Rightarrow> config \<Rightarrow> tally \<times> row list \<Rightarrow> ready \<Rightarrow> ('z pworld_scheme, tally \<times> row list) prog" where
  "select_step env lb cfg acc item =
     (case acc of (t, rows) \<Rightarrow> case item of (msg_id, article, content) \<Rightarrow>
      case assess cfg content of (keep, reason, meta) \<Rightarrow>
        if \<not> keep then ret (reject reason article t, rows)
        else let stripped = strip_code content;
                 probe_text = (if stripped \<noteq> [] then stripped else content)
          in bindP (detect_lang env probe_text) (\<lambda>lang.
            if lang \<notin> set (LANG_KEEP cfg) then ret (count_only ''lang'' t, rows)
            else bindP (is_duplicate env (blake2b8 lb) (nat (SIMHASH_BITS cfg)) (nat (SIMHASH_BANDS cfg))
                   (SIMHASH_HAMMING cfg) content) (\<lambda>(dup, chash).
              if dup then ret (count_only ''dup'' t, rows)
              else bindP (getP p_seen) (\<lambda>seen.
                if chash \<in> set seen then ret (count_only ''dup'' t, rows)
                else bindP (updP (p_seen_update (remember chash))) (\<lambda>_.
                  ret (t, rows @ [make_row lb article content lang chash (score_of meta)]))))))"

section \<open>Storing and counting\<close>

definition stored_metric :: string where "stored_metric = ''metrics:articles:stored''"
definition stored_by_source :: string where "stored_by_source = ''metrics:articles:stored_by_source''"
definition rejected_metric :: string where "rejected_metric = ''metrics:articles:rejected''"
definition rejected_by_reason :: string where "rejected_by_reason = ''metrics:articles:rejected_by_reason''"
definition rejected_by_source :: string where "rejected_by_source = ''metrics:articles:rejected_by_source''"

definition by_source :: "row list \<Rightarrow> (string \<times> nat) list" where
  "by_source rows = foldl (\<lambda>d r. bump (r_source r) 1 d) [] rows"

definition hincrs :: "string \<Rightarrow> (string \<times> nat) list \<Rightarrow> cmd list" where
  "hincrs key d = map (\<lambda>(k, n). Hincrby key k n) d"

definition store_rows :: "env \<Rightarrow> config \<Rightarrow> row list \<Rightarrow> ('z world_scheme, unit) prog" where
  "store_rows env cfg rows =
     (if rows = [] then ret ()
      else bindP (insert_articles env rows) (\<lambda>stored.
           bindP (if stored \<noteq> 0
                  then bindP (call_unit env (Incrby stored_metric stored)) (\<lambda>_.
                       pipe_execute env (hincrs stored_by_source (by_source rows)))
                  else ret ()) (\<lambda>_.
             forP (\<lambda>r. index env (nat (SIMHASH_BITS cfg)) (nat (SIMHASH_BANDS cfg)) (NEARDUP_TTL cfg)
                     (r_hash r)) rows)))"

definition write_metrics :: "env \<Rightarrow> tally \<Rightarrow> ('z world_scheme, unit) prog" where
  "write_metrics env t =
     (if t_stats t = [] then ret ()
      else pipe_execute env (Incrby rejected_metric (int (total (t_stats t)))
             # hincrs rejected_by_reason (t_stats t) @ hincrs rejected_by_source (t_src t)))"

definition ack :: "env \<Rightarrow> config \<Rightarrow> string list \<Rightarrow> ('z world_scheme, unit) prog" where
  "ack env cfg ids =
     (if ids = [] then ret () else call_unit env (Xack (STREAM cfg) (CONSUMER_GROUP cfg) ids))"

section \<open>A batch\<close>

definition gather ::
  "env \<Rightarrow> lib \<Rightarrow> nat \<Rightarrow> config \<Rightarrow> message list \<Rightarrow> ('z pworld_scheme, tally \<times> row list) prog" where
  "gather env lb fuel cfg messages =
     bindP (liftE (split_payloads (parse_messages lb messages))) (\<lambda>(direct, to_fetch).
     bindP (fetch_many env lb fuel cfg (map (url_of \<circ> snd) to_fetch)) (\<lambda>fetched.
     bindP (foldP (extract_step env lb cfg fetched) (\<lparr>t_stats = [], t_src = []\<rparr>, direct) to_fetch)
       (\<lambda>(t, extracted). foldP (select_step env lb cfg) (t, []) extracted)))"

definition process_messages ::
  "env \<Rightarrow> lib \<Rightarrow> nat \<Rightarrow> config \<Rightarrow> message list \<Rightarrow> ('z pworld_scheme, unit) prog" where
  "process_messages env lb fuel cfg messages =
     bindP (gather env lb fuel cfg messages) (\<lambda>(t, rows).
     bindP (store_rows env cfg rows) (\<lambda>_.
     bindP (write_metrics env t) (\<lambda>_. ack env cfg (map fst messages))))"

definition process_batch ::
  "env \<Rightarrow> lib \<Rightarrow> nat \<Rightarrow> config \<Rightarrow> (string \<times> message list) list \<Rightarrow> ('z pworld_scheme, unit) prog" where
  "process_batch env lb fuel cfg resp = (case resp of
     [] \<Rightarrow> ret () | (stream, messages) # _ \<Rightarrow> process_messages env lb fuel cfg messages)"

section \<open>The consumer\<close>

definition call_batches ::
  "env \<Rightarrow> cmd \<Rightarrow> ('z world_scheme, (string \<times> message list) list) prog" where
  "call_batches env c = bindP (call env c) (\<lambda>r. case r of
     Batches bs \<Rightarrow> ret bs | Null \<Rightarrow> ret [] | _ \<Rightarrow> throw bad_reply)"

fun recover_pending ::
  "env \<Rightarrow> lib \<Rightarrow> nat \<Rightarrow> nat \<Rightarrow> config \<Rightarrow> ('z pworld_scheme, unit) prog" where
  "recover_pending env lb fuel 0 cfg = throw NoReturn"
| "recover_pending env lb fuel (Suc rounds) cfg =
     bindP (call_texts env (XpendingRange (STREAM cfg) (CONSUMER_GROUP cfg) (nat (BATCH_SIZE cfg))
       (CONSUMER_NAME cfg))) (\<lambda>pending.
       if pending = [] then ret ()
       else bindP (call_batches env (XreadPending (CONSUMER_GROUP cfg) (CONSUMER_NAME cfg) (STREAM cfg)
              (nat (BATCH_SIZE cfg)))) (\<lambda>resp.
         if resp = [] then ret ()
         else bindP (process_batch env lb fuel cfg resp) (\<lambda>_.
                recover_pending env lb fuel rounds cfg)))"

definition drop_broken_conn :: "env \<Rightarrow> ('z pworld_scheme, unit) prog" where
  "drop_broken_conn env = bindP (getP p_conn) (\<lambda>conn.
     if \<not> conn then ret ()
     else bindP (tryP (call_unit env Rollback) is_Exception (\<lambda>_. ret ())) (\<lambda>_.
          tryP (bindP (getP p_pool) (\<lambda>pool.
                  if pool then call_unit env (PutConn True) else ret ()))
            is_Exception (\<lambda>_. ret ())))"

definition get_conn :: "env \<Rightarrow> config \<Rightarrow> ('z pworld_scheme, unit) prog" where
  "get_conn env cfg =
     bindP (getP p_pool) (\<lambda>pool.
     bindP (get_pool env cfg pool) (\<lambda>pool'.
     bindP (updP (p_pool_update (\<lambda>_. pool'))) (\<lambda>_.
     bindP (call_unit env GetConn) (\<lambda>_. updP (p_conn_update (\<lambda>_. True))))))"

text \<open>The inner loop after a failure: reconnect and drain, again and again.\<close>

fun reconnect ::
  "env \<Rightarrow> lib \<Rightarrow> nat \<Rightarrow> nat \<Rightarrow> nat \<Rightarrow> config \<Rightarrow> ('z pworld_scheme, unit) prog" where
  "reconnect env lb fuel rounds 0 cfg = throw NoReturn"
| "reconnect env lb fuel rounds (Suc tries) cfg =
     bindP (tryP (bindP (get_conn env cfg) (\<lambda>_.
                  bindP (recover_pending env lb fuel rounds cfg) (\<lambda>_. ret True)))
              is_Exception
              (\<lambda>_. bindP (call_unit env (Sleep 10)) (\<lambda>_. ret False)))
       (\<lambda>done. if done then ret () else reconnect env lb fuel rounds tries cfg)"

text \<open>One turn of the main loop: a batch, and on any exception the reconnection.\<close>

definition consume ::
  "env \<Rightarrow> lib \<Rightarrow> nat \<Rightarrow> config \<Rightarrow> ('z pworld_scheme, unit) prog" where
  "consume env lb fuel cfg =
     bindP (getP p_conn) (\<lambda>conn.
     bindP (if conn then ret () else get_conn env cfg) (\<lambda>_.
     bindP (call_batches env (XreadNew (CONSUMER_GROUP cfg) (CONSUMER_NAME cfg) (STREAM cfg)
       (nat (BATCH_SIZE cfg)) (BLOCK_MS cfg))) (\<lambda>resp.
       process_batch env lb fuel cfg resp)))"

definition main_step ::
  "env \<Rightarrow> lib \<Rightarrow> nat \<Rightarrow> nat \<Rightarrow> nat \<Rightarrow> config \<Rightarrow> ('z pworld_scheme, unit) prog" where
  "main_step env lb fuel rounds tries cfg =
     tryP (consume env lb fuel cfg) is_Exception
       (\<lambda>_. bindP (drop_broken_conn env) (\<lambda>_.
            bindP (updP (p_conn_update (\<lambda>_. False))) (\<lambda>_.
            bindP (call_unit env (Sleep 5)) (\<lambda>_. reconnect env lb fuel rounds tries cfg))))"

fun main_loop ::
  "env \<Rightarrow> lib \<Rightarrow> nat \<Rightarrow> nat \<Rightarrow> nat \<Rightarrow> config \<Rightarrow> nat \<Rightarrow> ('z pworld_scheme, unit) prog" where
  "main_loop env lb fuel rounds tries cfg 0 = ret ()"
| "main_loop env lb fuel rounds tries cfg (Suc n) =
     bindP (main_step env lb fuel rounds tries cfg) (\<lambda>_. main_loop env lb fuel rounds tries cfg n)"

definition is_busygroup :: "exn \<Rightarrow> bool" where
  "is_busygroup e = (case e of ResponseError m \<Rightarrow> sublist ''BUSYGROUP'' m | _ \<Rightarrow> False)"

text \<open>The start of the process, and its first \<open>n\<close> turns.\<close>

definition main ::
  "env \<Rightarrow> lib \<Rightarrow> nat \<Rightarrow> nat \<Rightarrow> nat \<Rightarrow> config \<Rightarrow> nat \<Rightarrow> ('z pworld_scheme, unit) prog" where
  "main env lb fuel rounds tries cfg n =
     bindP (tryP (call_unit env (XgroupCreate (STREAM cfg) (CONSUMER_GROUP cfg))) is_busygroup
              (\<lambda>_. ret ())) (\<lambda>_.
     bindP (get_conn env cfg) (\<lambda>_.
     bindP (warm_from_db env (nat (SIMHASH_BITS cfg)) (nat (SIMHASH_BANDS cfg)) (NEARDUP_TTL cfg)) (\<lambda>_.
     bindP (updP (p_seen_update (\<lambda>_. []))) (\<lambda>_.
     bindP (recover_pending env lb fuel rounds cfg) (\<lambda>_.
       main_loop env lb fuel rounds tries cfg n)))))"

end
