(* ===== verification/Policy.thy ===== *)
theory Policy
  imports Processor
begin

text \<open>
  The failure policy of the consumer, proved of the definitions of Processor: the order of
  acknowledgement, insertion and indexing, the accounting of every message, the parking of dead
  letters; and the executions in which the documented policy fails.
\<close>

section \<open>What each phase does\<close>

definition is_ack :: "event \<Rightarrow> bool" where
  "is_ack e \<longleftrightarrow> (case fst e of Xack _ _ _ \<Rightarrow> True | _ \<Rightarrow> False)"

definition is_commit :: "event \<Rightarrow> bool" where
  "is_commit e \<longleftrightarrow> fst e = Commit \<and> ok_reply (snd e)"

text \<open>A write to the near-duplicate index, as opposed to the dead-letter guard.\<close>

definition is_filing :: "config \<Rightarrow> event \<Rightarrow> bool" where
  "is_filing cfg e \<longleftrightarrow> (case fst e of Sadd k _ \<Rightarrow> k \<noteq> DLQ_SEEN_KEY cfg | _ \<Rightarrow> False)"

text \<open>Before the insertion: no acknowledgement, no write to the index, no row.\<close>

definition before_store :: "config \<Rightarrow> event \<Rightarrow> bool" where
  "before_store cfg e \<longleftrightarrow> \<not> is_ack e \<and> \<not> is_filing cfg e
     \<and> (case fst e of ExecuteValues _ _ \<Rightarrow> False | Commit \<Rightarrow> False | PutConn _ \<Rightarrow> False | _ \<Rightarrow> True)"

lemmas event_defs = is_ack_def is_commit_def is_filing_def before_store_def

lemma emits_extract_content:
  "(\<And>h r. P (Extract h, r)) \<Longrightarrow> emits P (extract_content env html)"
  by (auto simp: extract_content_def intro!: emits_rules split: option.split reply.split)

lemma emits_push_dlq:
  "emits (before_store cfg) (push_dlq env lb cfg m a reason detail :: ('z world_scheme, bool) prog)"
  unfolding push_dlq_def dlq_script_def
  by (auto intro!: emits_rules simp: event_defs)

lemma emits_extract_step:
  "emits (before_store cfg) (extract_step env lb cfg fetched acc item ::
     ('z world_scheme, tally \<times> ready list) prog)"
  unfolding extract_step_def
  by (auto intro!: emits_rules emits_extract_content emits_push_dlq simp: event_defs
      split: prod.split)

lemma emits_dup_bands:
  "(\<And>k r. P (Smembers k, r)) \<Longrightarrow> emits P (dup_bands env c t i ks :: ('z world_scheme, bool) prog)"
  by (induction env c t i ks rule: dup_bands.induct) (auto intro!: emits_rules)

lemma emits_is_duplicate:
  "(\<And>k r. P (Smembers k, r)) \<Longrightarrow>
   emits P (is_duplicate env dig bits bands t text :: ('z world_scheme, bool \<times> int) prog)"
  by (auto simp: is_duplicate_def Let_def intro!: emits_rules emits_dup_bands)

lemma emits_select_step:
  "emits (before_store cfg) (select_step env lb cfg acc item ::
     ('z pworld_scheme, tally \<times> row list) prog)"
  unfolding select_step_def detect_lang_def Let_def
  by (auto intro!: emits_rules emits_is_duplicate simp: event_defs split: prod.split)

lemma emits_fetch_many:
  assumes "\<And>e. \<not> is_ack e \<Longrightarrow> (case fst e of Sadd _ _ \<Rightarrow> False | ExecuteValues _ _ \<Rightarrow> False
    | Commit \<Rightarrow> False | PutConn _ \<Rightarrow> False | _ \<Rightarrow> True) \<Longrightarrow> P e"
  shows "emits P (fetch_many env lb fuel cfg urls :: ('z fworld_scheme, fetched) prog)"
proof -
  note P = assms [of "(_, _)"]
  have loop: "emits P (fetch_loop env fuel cfg url hb ks :: ('z fworld_scheme, string option) prog)"
    for url hb ks
    by (induction ks) (auto simp: attempt_fetch_def request_once_def is_ack_def intro!: emits_rules
        emits_acquire emits_back_off emits_on_response P split: option.split reply.split)
  have one: "emits P (fetch_one env fuel cfg ip url :: ('z fworld_scheme, string option) prog)" for ip url
    unfolding fetch_one_def get_bucket_def get_host_bucket_def
    by (auto simp: is_ack_def intro!: emits_rules emits_new_bucket loop P split: option.split)
  have "emits P (run_workers env fuel cfg ip urls :: ('z fworld_scheme, outcome list) prog)" for ip
  proof (induction urls)
    case Nil
    then show ?case by (simp add: emits_rules)
  next
    case (Cons u urls)
    have rest: "emits P (bindP (run_workers env fuel cfg ip urls) (\<lambda>outs. ret (out # outs))
        :: ('z fworld_scheme, outcome list) prog)" for out
      by (intro emits_bind Cons.IH emits_ret)
    show ?case
      unfolding emits_def
    proof
      fix s :: "'z fworld_scheme"
      obtain out s1 where o: "fetch_one env fuel cfg ip u s = (out, s1)" by fastforce
      obtain es where es: "trace s1 = trace s @ es" "list_all P es"
        using emitsD [OF one o] by blast
      obtain es2 where "trace (snd (bindP (run_workers env fuel cfg ip urls)
          (\<lambda>outs. ret (out # outs)) s1)) = trace s1 @ es2" "list_all P es2"
        using rest unfolding emits_def by blast
      with o es show "\<exists>es. trace (snd (run_workers env fuel cfg ip (u # urls) s)) = trace s @ es
          \<and> list_all P es"
        by (auto intro: exI [of _ "es @ es2"])
    qed
  qed
  then show ?thesis
    unfolding fetch_many_def by (auto intro!: emits_rules)
qed

lemma emits_gather:
  "emits (before_store cfg) (gather env lb fuel cfg ms :: ('z pworld_scheme, tally \<times> row list) prog)"
proof -
  have "emits (before_store cfg) (fetch_many env lb fuel cfg urls :: ('z pworld_scheme, fetched) prog)"
    for urls
    by (rule emits_fetch_many) (auto simp: event_defs split: cmd.splits)
  then show ?thesis
    unfolding gather_def
    by (auto intro!: emits_rules emits_extract_step emits_select_step split: prod.split)
qed

lemma index_new_events:
  assumes "index env bits bands ttl h s = (Inr u, s')"
  shows "\<exists>es. trace s' = trace s @ es \<and> indexed es bits bands h"
proof -
  obtain ks where ks: "bucket_keys h bits bands = Inr ks"
      "pipe_execute env (index_cmds ttl h ks) s = (Inr u, s')"
    using assms by (auto simp: index_def bindP_eq_Inr liftE_def)
  obtain rs where rs: "length rs = length (index_cmds ttl h ks)" "list_all ok_reply rs"
      "s' = s\<lparr>trace := trace s @ zip (index_cmds ttl h ks) rs\<rparr>"
    using pipe_execute_Inr [OF ks(2)] by blast
  have "\<exists>r. ok_reply r \<and> (c, r) \<in> set (zip (index_cmds ttl h ks) rs)"
    if "c \<in> set (index_cmds ttl h ks)" for c
    using that rs(1,2) by (metis in_set_conv_nth in_set_zip list_all_length fst_conv snd_conv)
  then have "indexed (zip (index_cmds ttl h ks) rs) bits bands h"
    unfolding indexed_def using ks(1) index_cmds_Sadd by blast
  with rs(3) show ?thesis by auto
qed

lemma emits_index:
  "(\<And>k v r. P (Sadd k v, r)) \<Longrightarrow> (\<And>k n r. P (Expire k n, r)) \<Longrightarrow>
   emits P (index env bits bands ttl h :: ('z world_scheme, unit) prog)"
  unfolding index_def
  by (auto simp: index_cmds_def intro!: emits_rules split: if_splits)

lemma index_rows_indexed:
  fixes s :: "'z world_scheme"
  assumes "forP (\<lambda>r. index env bits bands ttl (r_hash r)) rows s = (Inr u, s')"
  shows "\<exists>es. trace s' = trace s @ es \<and> list_all (\<lambda>r. indexed es bits bands (r_hash r)) rows"
  using assms
proof (induction rows arbitrary: s)
  case Nil
  then show ?case by (simp add: ret_def)
next
  case (Cons r rows)
  then obtain s1 where 1: "index env bits bands ttl (r_hash r) s = (Inr (), s1)"
    and 2: "forP (\<lambda>r. index env bits bands ttl (r_hash r)) rows s1 = (Inr u, s')"
    by (auto simp: bindP_eq_Inr)
  obtain es1 where es1: "trace s1 = trace s @ es1" "indexed es1 bits bands (r_hash r)"
    using index_new_events [OF 1] by blast
  obtain es2 where es2: "trace s' = trace s1 @ es2"
    "list_all (\<lambda>r. indexed es2 bits bands (r_hash r)) rows"
    using Cons.IH [OF 2] by blast
  from es1 es2 show ?case
    by (intro exI [of _ "es1 @ es2"]) (auto simp: list_all_iff intro: indexed_mono)
qed

section \<open>Store, then index, then acknowledge\<close>

text \<open>The rows are committed and every one of them is in the index.\<close>

definition durable :: "config \<Rightarrow> event list \<Rightarrow> row list \<Rightarrow> bool" where
  "durable cfg es rows \<longleftrightarrow> rows = [] \<or>
     (list_ex is_commit es \<and> (\<exists>y. ok_reply y \<and> (ExecuteValues rows page_size, y) \<in> set es) \<and>
      list_all (\<lambda>r. indexed es (nat (SIMHASH_BITS cfg)) (nat (SIMHASH_BANDS cfg)) (r_hash r)) rows)"

lemma durable_append: "durable cfg es rows \<Longrightarrow> durable cfg (es @ es') rows"
  by (auto simp: durable_def list_all_iff intro: indexed_mono)

lemma emits_insert:
  "emits (\<lambda>e. \<not> is_ack e \<and> \<not> is_filing cfg e) (insert_articles env rows :: ('z world_scheme, int) prog)"
  by (auto simp: insert_articles_def event_defs intro!: emits_rules)

lemma emits_booking:
  "emits (\<lambda>e. \<not> is_ack e \<and> \<not> is_filing cfg e)
     (if n \<noteq> 0 then bindP (call_unit env (Incrby stored_metric n)) (\<lambda>_.
        pipe_execute env (hincrs stored_by_source d)) else ret () :: ('z world_scheme, unit) prog)"
  by (auto simp: event_defs hincrs_def intro!: emits_rules)

lemma emits_index_rows:
  "emits (\<lambda>e. \<not> is_ack e) (forP (\<lambda>r. index env bits bands ttl (r_hash r)) rows
     :: ('z world_scheme, unit) prog)"
  by (auto simp: is_ack_def intro!: emits_rules emits_index)

lemma not_ack_weaken: "list_all (\<lambda>e. \<not> is_ack e \<and> Q e) es \<Longrightarrow> list_all (\<lambda>e. \<not> is_ack e) es"
  by (simp add: list_all_iff)

lemma store_rows_phases:
  fixes s :: "'z world_scheme"
  assumes run: "store_rows env cfg rows s = (r, s')"
  shows "\<exists>ins rest. trace s' = trace s @ ins @ rest \<and> list_all (\<lambda>e. \<not> is_ack e) (ins @ rest)
    \<and> list_all (\<lambda>e. \<not> is_filing cfg e) ins \<and> (rest = [] \<or> list_ex is_commit ins)
    \<and> (r = Inr () \<longrightarrow> durable cfg (ins @ rest) rows)"
proof (cases "rows = []")
  case True
  with run show ?thesis by (auto simp: store_rows_def ret_def durable_def)
next
  case False
  obtain n1 s1 where 1: "insert_articles env rows s = (n1, s1)" by fastforce
  show ?thesis
  proof (cases n1)
    case (Inl e)
    obtain es where "trace s1 = trace s @ es" "list_all (\<lambda>e. \<not> is_ack e \<and> \<not> is_filing cfg e) es"
      using emitsD [OF emits_insert 1] by blast
    then show ?thesis
      using run False 1 Inl
      by (intro exI [of _ es] exI [of _ "[]"]) (auto simp: store_rows_def bindP_def list_all_iff)
  next
    case (Inr n)
    let ?book = "if n \<noteq> 0 then bindP (call_unit env (Incrby stored_metric n)) (\<lambda>_.
        pipe_execute env (hincrs stored_by_source (by_source rows))) else ret () :: ('z world_scheme, unit) prog"
    let ?index = "forP (\<lambda>r. index env (nat (SIMHASH_BITS cfg)) (nat (SIMHASH_BANDS cfg))
        (NEARDUP_TTL cfg) (r_hash r)) rows :: ('z world_scheme, unit) prog"
    obtain r1 r3 where ins: "ok_reply r1" "ok_reply r3" "trace s1 = trace s @
        [(ExecuteValues rows page_size, r1), (Rowcount, Num n), (Commit, r3)]"
      using insert_articles_Inr [OF 1 [unfolded Inr] False] by blast
    obtain r2 s2 where 2: "?book s1 = (r2, s2)" by fastforce
    obtain es2 where es2: "trace s2 = trace s1 @ es2"
        "list_all (\<lambda>e. \<not> is_ack e \<and> \<not> is_filing cfg e) es2"
      using emitsD [OF emits_booking 2] by blast
    have tail: "\<exists>es3. trace s' = trace s2 @ es3 \<and> list_all (\<lambda>e. \<not> is_ack e) es3
        \<and> (r = Inr () \<longrightarrow> list_all (\<lambda>r. indexed es3 (nat (SIMHASH_BITS cfg)) (nat (SIMHASH_BANDS cfg)) (r_hash r)) rows)"
    proof (cases r2)
      case (Inl e)
      with run False 1 \<open>n1 = Inr n\<close> 2 show ?thesis by (auto simp: store_rows_def bindP_def)
    next
      case (Inr u)
      then have 3: "?index s2 = (r, s')"
        using run False 1 \<open>n1 = Inr n\<close> 2 by (simp add: store_rows_def bindP_def)
      obtain es3 where es3: "trace s' = trace s2 @ es3" "list_all (\<lambda>e. \<not> is_ack e) es3"
        using emitsD [OF emits_index_rows 3] by blast
      moreover have "list_all (\<lambda>r. indexed es3 (nat (SIMHASH_BITS cfg)) (nat (SIMHASH_BANDS cfg)) (r_hash r)) rows"
        if "r = Inr ()"
        using index_rows_indexed [OF 3 [unfolded that]] es3(1) by auto
      ultimately show ?thesis by blast
    qed
    then obtain es3 where es3: "trace s' = trace s2 @ es3" "list_all (\<lambda>e. \<not> is_ack e) es3"
      "r = Inr () \<longrightarrow> list_all (\<lambda>r. indexed es3 (nat (SIMHASH_BITS cfg)) (nat (SIMHASH_BANDS cfg)) (r_hash r)) rows"
      by blast
    let ?ins = "[(ExecuteValues rows page_size, r1), (Rowcount, Num n), (Commit, r3)] @ es2"
    have com: "list_ex is_commit ?ins" using ins(2) by (simp add: is_commit_def)
    have dur: "r = Inr () \<longrightarrow> durable cfg (?ins @ es3) rows"
      using com ins(1) es3(3) by (auto simp: durable_def list_all_iff intro: indexed_mono)
    show ?thesis
      using ins(3) es2 es3(1,2) com dur
      by (intro exI [of _ ?ins] exI [of _ es3])
        (auto simp: event_defs dest: not_ack_weaken simp: list_all_iff)
  qed
qed

lemma emits_write_metrics:
  "emits (\<lambda>e. \<not> is_ack e \<and> \<not> is_filing cfg e) (write_metrics env t :: ('z world_scheme, unit) prog)"
  by (auto simp: write_metrics_def event_defs hincrs_def simp del: pipe_execute.simps intro!: emits_rules)

text \<open>
  Everything that can happen in a batch. The four ways out of \<open>process_messages\<close>: it stops
  before storing, while storing, while counting, or reaches the acknowledgement.
\<close>

lemma process_messages_phases:
  fixes s :: "'z pworld_scheme"
  assumes run: "process_messages env lb fuel cfg ms s = (r, s')"
  obtains g where "gather env lb fuel cfg ms s = (Inl g, s')" "r = Inl g"
    | t rows s1 e where "gather env lb fuel cfg ms s = (Inr (t, rows), s1)"
        "store_rows env cfg rows s1 = (Inl e, s')" "r = Inl e"
    | t rows s1 s2 e where "gather env lb fuel cfg ms s = (Inr (t, rows), s1)"
        "store_rows env cfg rows s1 = (Inr (), s2)" "write_metrics env t s2 = (Inl e, s')" "r = Inl e"
    | t rows s1 s2 s3 where "gather env lb fuel cfg ms s = (Inr (t, rows), s1)"
        "store_rows env cfg rows s1 = (Inr (), s2)" "write_metrics env t s2 = (Inr (), s3)"
        "ack env cfg (map fst ms) s3 = (r, s')"
proof -
  obtain g s1 where 1: "gather env lb fuel cfg ms s = (g, s1)" by fastforce
  show thesis
  proof (cases g)
    case (Inl e)
    with run 1 that(1) show thesis by (simp add: process_messages_def bindP_def)
  next
    case (Inr x)
    obtain t rows where x: "x = (t, rows)" by fastforce
    obtain r2 s2 where 2: "store_rows env cfg rows s1 = (r2, s2)" by fastforce
    obtain r3 s3 where 3: "write_metrics env t s2 = (r3, s3)" by fastforce
    show thesis
      using run 1 2 3 Inr x that(2-4)
      by (cases r2; cases r3) (auto simp: process_messages_def bindP_def)
  qed
qed

lemma ack_events:
  assumes "ack env cfg ids s = (r, s')"
  shows "(trace s' = trace s \<and> r = Inr ()) \<or>
    (\<exists>x. trace s' = trace s @ [(Xack (STREAM cfg) (CONSUMER_GROUP cfg) ids, x)] \<and>
       (r = Inr () \<or> \<not> ok_reply x))"
proof (cases "ids = []")
  case True
  with assms show ?thesis by (simp add: ack_def ret_def)
next
  case False
  let ?c = "Xack (STREAM cfg) (CONSUMER_GROUP cfg) ids"
  have "trace s' = trace s @ [(?c, env (trace s) ?c)]"
    using assms False call_trace [of env ?c s]
    by (auto simp: ack_def call_unit_def bindP_def ret_def split: prod.splits sum.splits)
  moreover have "r = Inr () \<or> \<not> ok_reply (env (trace s) ?c)"
    using assms False
    by (cases "env (trace s) ?c") (simp_all add: ack_def call_unit_def bindP_def ret_def call_def Let_def ok_reply_def)
  ultimately show ?thesis by blast
qed

lemma gather_quiet:
  fixes s :: "'z pworld_scheme"
  assumes "gather env lb fuel cfg ms s = (r, s')"
  obtains g where "trace s' = trace s @ g" "list_all (\<lambda>e. \<not> is_ack e) g"
    "list_all (\<lambda>e. \<not> is_filing cfg e) g"
  using emitsD [OF emits_gather assms] by (auto simp: list_all_iff before_store_def)

lemma metrics_quiet:
  fixes s :: "'z world_scheme"
  assumes "write_metrics env t s = (r, s')"
  obtains m where "trace s' = trace s @ m" "list_all (\<lambda>e. \<not> is_ack e) m"
    "list_all (\<lambda>e. \<not> is_filing cfg e) m"
  using emitsD [OF emits_write_metrics [where cfg = cfg] assms] by (auto simp: list_all_iff)

text \<open>
  The calls of a run that ends in the one acknowledgement, after everything that makes the rows
  safe; it is answered positively only if the run does not raise.
\<close>

definition acked_safely :: "config \<Rightarrow> string list \<Rightarrow> row list \<Rightarrow> exn + unit \<Rightarrow> event list \<Rightarrow> bool" where
  "acked_safely cfg ids rows r es \<longleftrightarrow>
     (\<exists>es0 x. es = es0 @ [(Xack (STREAM cfg) (CONSUMER_GROUP cfg) ids, x)]
        \<and> list_all (\<lambda>e. \<not> is_ack e) es0 \<and> durable cfg es0 rows \<and> (r = Inr () \<or> \<not> ok_reply x))"

text \<open>A run that reaches the acknowledgement.\<close>

lemma acked_run:
  fixes s :: "'z pworld_scheme"
  assumes ga: "gather env lb fuel cfg ms s = (Inr (t, rows), s1)"
    and sto: "store_rows env cfg rows s1 = (Inr (), s2)"
    and met: "write_metrics env t s2 = (Inr (), s3)" and ak: "ack env cfg ids s3 = (r, s')"
  shows "\<exists>es. trace s' = trace s @ es \<and>
    (list_all (\<lambda>e. \<not> is_ack e) es \<or> acked_safely cfg ids rows r es)"
proof -
  from ga obtain g where g: "trace s1 = trace s @ g" "list_all (\<lambda>e. \<not> is_ack e) g"
    by (rule gather_quiet)
  obtain st where st: "trace s2 = trace s1 @ st" "list_all (\<lambda>e. \<not> is_ack e) st" "durable cfg st rows"
    using store_rows_phases [OF sto] by auto
  from met obtain m where m: "trace s3 = trace s2 @ m" "list_all (\<lambda>e. \<not> is_ack e) m"
    by (rule metrics_quiet)
  let ?es0 = "g @ st @ m"
  have quiet: "list_all (\<lambda>e. \<not> is_ack e) ?es0" using g m st by auto
  have dur: "durable cfg ?es0 rows"
    using st(3) by (auto simp: durable_def list_all_iff intro: indexed_mono)
  have tr: "trace s3 = trace s @ ?es0" using g m st by simp
  from ack_events [OF ak] show ?thesis
  proof
    assume "trace s' = trace s3 \<and> r = Inr ()"
    with quiet tr show ?thesis by auto
  next
    assume "\<exists>x. trace s' = trace s3 @ [(Xack (STREAM cfg) (CONSUMER_GROUP cfg) ids, x)]
      \<and> (r = Inr () \<or> \<not> ok_reply x)"
    then obtain x where x: "trace s' = trace s3 @ [(Xack (STREAM cfg) (CONSUMER_GROUP cfg) ids, x)]"
      "r = Inr () \<or> \<not> ok_reply x" by blast
    let ?es = "?es0 @ [(Xack (STREAM cfg) (CONSUMER_GROUP cfg) ids, x)]"
    have "acked_safely cfg ids rows r ?es"
      unfolding acked_safely_def using quiet dur x(2) by blast
    moreover have "trace s' = trace s @ ?es" using x(1) tr by simp
    ultimately show ?thesis by blast
  qed
qed

text \<open>
  C1: Nothing is acknowledged before it is safe. In any run of a batch, whatever the services
  answer and wherever it breaks, either nothing is acknowledged, or the acknowledgement is the
  very last call, names exactly the messages of the batch, and comes after the rows the batch
  produced were inserted, committed and all entered into every band of the near-duplicate
  index. If the batch raises, no acknowledgement was answered positively.
\<close>

theorem ack_after_store:
  fixes s :: "'z pworld_scheme"
  shows "case process_messages env lb fuel cfg ms s of (r, s') \<Rightarrow>
    \<exists>es. trace s' = trace s @ es \<and>
      (list_all (\<lambda>e. \<not> is_ack e) es \<or>
       (\<exists>t rows s1. gather env lb fuel cfg ms s = (Inr (t, rows), s1)
          \<and> acked_safely cfg (map fst ms) rows r es))"
proof (cases "process_messages env lb fuel cfg ms s")
  case (Pair r s')
  show ?thesis
    using Pair
  proof (cases rule: process_messages_phases)
    case (1 g)
    from 1(1) obtain g where "trace s' = trace s @ g" "list_all (\<lambda>e. \<not> is_ack e) g"
      by (rule gather_quiet)
    then show ?thesis using Pair by auto
  next
    case (2 t rows s1 e)
    from 2(1) obtain g where g: "trace s1 = trace s @ g" "list_all (\<lambda>e. \<not> is_ack e) g"
      by (rule gather_quiet)
    obtain st where "trace s' = trace s1 @ st" "list_all (\<lambda>e. \<not> is_ack e) st"
      using store_rows_phases [OF 2(2)] by blast
    with g show ?thesis using Pair by auto
  next
    case (3 t rows s1 s2 e)
    from 3(1) obtain g where g: "trace s1 = trace s @ g" "list_all (\<lambda>e. \<not> is_ack e) g"
      by (rule gather_quiet)
    obtain st where st: "trace s2 = trace s1 @ st" "list_all (\<lambda>e. \<not> is_ack e) st"
      using store_rows_phases [OF 3(2)] by blast
    from 3(3) obtain m where "trace s' = trace s2 @ m" "list_all (\<lambda>e. \<not> is_ack e) m"
      by (rule metrics_quiet)
    with g st show ?thesis using Pair by auto
  next
    case (4 t rows s1 s2 s3)
    from acked_run [OF 4] 4(1) Pair show ?thesis by auto
  qed
qed

text \<open>Whatever follows the storing of the rows without writing to the index.\<close>

lemma filing_after_commit:
  fixes s :: "'z pworld_scheme"
  assumes Pair: "process_messages env lb fuel cfg ms s = (r, s')"
    and ga: "gather env lb fuel cfg ms s = (Inr (t, rows), s1)"
    and sto: "store_rows env cfg rows s1 = (q, s2)" and m: "trace s' = trace s2 @ m"
    "list_all (\<lambda>e. \<not> is_filing cfg e) m"
  shows "case process_messages env lb fuel cfg ms s of (r, s') \<Rightarrow>
    \<exists>pre post. trace s' = trace s @ pre @ post \<and> list_all (\<lambda>e. \<not> is_filing cfg e) pre
      \<and> (post = [] \<or> list_ex is_commit pre)"
proof -
  from ga obtain g where g: "trace s1 = trace s @ g" "list_all (\<lambda>e. \<not> is_filing cfg e) g"
    by (rule gather_quiet)
  obtain ins rest where st: "trace s2 = trace s1 @ ins @ rest"
    "list_all (\<lambda>e. \<not> is_filing cfg e) ins" "rest = [] \<or> list_ex is_commit ins"
    using store_rows_phases [OF sto] by blast
  show ?thesis
  proof (cases "rest = []")
    case True
    then show ?thesis unfolding Pair prod.case
      by (intro exI [of _ "g @ ins @ m"] exI [of _ "[]"]) (use g st m in simp)
  next
    case False
    then show ?thesis unfolding Pair prod.case
      by (intro exI [of _ "g @ ins"] exI [of _ "rest @ m"]) (use g st m in simp)
  qed
qed

text \<open>
  C3: The near-duplicate index is written only after a successful insert: in any run of a
  batch, every write to a band comes after a commit of the same run that was answered
  positively. A failed insert therefore leaves no fingerprint in Redis.
\<close>

theorem index_after_commit:
  fixes s :: "'z pworld_scheme"
  shows "case process_messages env lb fuel cfg ms s of (r, s') \<Rightarrow>
    \<exists>pre post. trace s' = trace s @ pre @ post \<and> list_all (\<lambda>e. \<not> is_filing cfg e) pre
      \<and> (post = [] \<or> list_ex is_commit pre)"
proof (cases "process_messages env lb fuel cfg ms s")
  case (Pair r s')
  note after = filing_after_commit [where r = r and s' = s', OF Pair]
  show ?thesis
    using Pair
  proof (cases rule: process_messages_phases)
    case (1 g)
    from 1(1) obtain es where "trace s' = trace s @ es" "list_all (\<lambda>e. \<not> is_filing cfg e) es"
      by (rule gather_quiet)
    then show ?thesis unfolding Pair prod.case
      by (intro exI [of _ es] exI [of _ "[]"]) simp
  next
    case (2 t rows s1 e)
    then show ?thesis using after [OF 2(1,2), of "[]"] by simp
  next
    case (3 t rows s1 s2 e)
    from 3(3) obtain m where "trace s' = trace s2 @ m" "list_all (\<lambda>e. \<not> is_filing cfg e) m"
      by (rule metrics_quiet)
    then show ?thesis using after [OF 3(1,2), of m] by simp
  next
    case (4 t rows s1 s2 s3)
    from 4(3) obtain m where m: "trace s3 = trace s2 @ m" "list_all (\<lambda>e. \<not> is_filing cfg e) m"
      by (rule metrics_quiet)
    from ack_events [OF 4(4)] obtain a where
      "trace s' = trace s3 @ a" "list_all (\<lambda>e. \<not> is_filing cfg e) a"
      by (auto simp: is_filing_def)
    with m show ?thesis using after [OF 4(1,2), of "m @ a"] by simp
  qed
qed

end
