(* ===== verification/Ledger.thy ===== *)
theory Ledger
  imports Policy
begin

text \<open>
  The books of a batch: every message ends up in exactly one place, the rows that go to the
  database passed every gate, and no two rows of a batch have the same fingerprint.
\<close>

section \<open>Every message is accounted for\<close>

definition parsable :: "lib \<Rightarrow> message \<Rightarrow> bool" where
  "parsable lb m \<longleftrightarrow> parse_message lb m \<noteq> []"

lemma parse_message_length: "length (parse_message lb m) = (if parsable lb m then 1 else 0)"
  by (auto simp: parsable_def parse_message_def split: prod.splits option.splits payload.splits)

lemma parse_messages_length: "length (parse_messages lb ms) = length (filter (parsable lb) ms)"
  by (induction ms) (simp_all add: parse_messages_def parse_message_length)

lemma split_payloads_length:
  "split_payloads ps = Inr (direct, to_fetch) \<Longrightarrow> length direct + length to_fetch = length ps"
  by (induction ps arbitrary: direct to_fetch rule: split_payloads.induct)
    (auto simp: bindE_def split: payload.splits sum.splits option.splits if_splits)

lemma total_reject [simp]: "total (t_stats (reject reason a t)) = total (t_stats t) + 1"
  by (simp add: reject_def)

lemma total_count_only [simp]: "total (t_stats (count_only reason t)) = total (t_stats t) + 1"
  by (simp add: count_only_def)

definition entries :: "tally \<times> 'x list \<Rightarrow> nat" where
  "entries acc = total (t_stats (fst acc)) + length (snd acc)"

lemma extract_step_entry:
  "extract_step env lb cfg fetched acc item s = (Inr acc', s') \<Longrightarrow> entries acc' = entries acc + 1"
  by (auto simp: extract_step_def entries_def bindP_eq_Inr ret_def split: prod.splits if_splits)

lemma select_step_entry:
  "select_step env lb cfg acc item s = (Inr acc', s') \<Longrightarrow> entries acc' = entries acc + 1"
  by (auto simp: select_step_def entries_def bindP_eq_Inr ret_def Let_def split: prod.splits if_splits)

lemma gather_Inr:
  assumes "gather env lb fuel cfg ms s = (Inr (t, rows), s')"
  obtains direct to_fetch fetched s1 t1 extracted s2 where
    "split_payloads (parse_messages lb ms) = Inr (direct, to_fetch)"
    "fetch_many env lb fuel cfg (map (url_of \<circ> snd) to_fetch) s = (Inr fetched, s1)"
    "foldP (extract_step env lb cfg fetched) (\<lparr>t_stats = [], t_src = []\<rparr>, direct) to_fetch s1
       = (Inr (t1, extracted), s2)"
    "foldP (select_step env lb cfg) (t1, []) extracted s2 = (Inr (t, rows), s')"
  using assms by (auto simp: gather_def bindP_eq_Inr liftE_def)

lemma gather_entries:
  fixes s :: "'z pworld_scheme"
  assumes "gather env lb fuel cfg ms s = (Inr (t, rows), s')"
  shows "total (t_stats t) + length rows = length (filter (parsable lb) ms)"
proof -
  obtain direct to_fetch fetched s1 t1 extracted s2 where g:
    "split_payloads (parse_messages lb ms) = Inr (direct, to_fetch)"
    "foldP (extract_step env lb cfg fetched) (\<lparr>t_stats = [], t_src = []\<rparr>, direct) to_fetch s1
       = (Inr (t1, extracted), s2)"
    "foldP (select_step env lb cfg) (t1, []) extracted s2 = (Inr (t, rows), s')"
    using assms by (rule gather_Inr)
  have "entries (t1, extracted) = entries (\<lparr>t_stats = [], t_src = []\<rparr>, direct) + length to_fetch"
    using g(2) by (rule foldP_measure [where \<mu> = entries, rotated]) (rule extract_step_entry)
  moreover have "entries (t, rows) = entries (t1, [] :: row list) + length extracted"
    using g(3) by (rule foldP_measure [where \<mu> = entries, rotated]) (rule select_step_entry)
  moreover have "length direct + length to_fetch = length (filter (parsable lb) ms)"
    using split_payloads_length [OF g(1)] by (simp add: parse_messages_length)
  ultimately show ?thesis by (simp add: entries_def)
qed

text \<open>
  C4: The books balance. When the rows of a batch have been assembled, each message of the
  batch is exactly one of: not parsable, counted once under a reason of rejection, or turned
  into a row.
\<close>

theorem gather_accounts:
  fixes s :: "'z pworld_scheme"
  assumes "gather env lb fuel cfg ms s = (Inr (t, rows), s')"
  shows "length ms = length (filter (\<lambda>m. \<not> parsable lb m) ms) + total (t_stats t) + length rows"
  using gather_entries [OF assms] sum_length_filter_compl [of "parsable lb" ms] by linarith

section \<open>The rows\<close>

text \<open>What every row that reaches the database satisfies.\<close>

definition row_ok :: "lib \<Rightarrow> config \<Rightarrow> row \<Rightarrow> bool" where
  "row_ok lb cfg row \<longleftrightarrow> fst (assess cfg (r_content row)) \<and> r_lang row \<in> set (LANG_KEEP cfg)
     \<and> r_url_hash row = sha256_hex lb (r_url row)
     \<and> r_hash row = simhash (blake2b8 lb) (r_content row) (nat (SIMHASH_BITS cfg))"

lemma is_duplicate_hash:
  "is_duplicate env dig bits bands t text s = (Inr (d, c), s') \<Longrightarrow> c = simhash dig text bits"
  by (simp add: is_duplicate_Inr)

lemma detect_keeps_seen: "keeps p_seen (detect_lang env text :: ('z pworld_scheme, string) prog)"
  by (auto simp: detect_lang_def intro!: keeps_rules)

lemma dup_keeps_seen:
  "keeps p_seen (is_duplicate env dig bits bands t text :: ('z pworld_scheme, bool \<times> int) prog)"
proof -
  have "keeps p_seen (dup_bands env h k i ks :: ('z pworld_scheme, bool) prog)" for h k i ks
    by (induction env h k i ks rule: dup_bands.induct) (auto intro!: keeps_rules)
  then show ?thesis by (auto simp: is_duplicate_def Let_def intro!: keeps_rules)
qed

lemma select_step_Inr:
  fixes s :: "'z pworld_scheme"
  assumes "select_step env lb cfg (t, rows) item s = (Inr (t', rows'), s')"
  obtains "rows' = rows" "p_seen s' = p_seen s"
    | msg_id article content lang score where "item = (msg_id, article, content)"
      "rows' = rows @ [make_row lb article content lang
         (simhash (blake2b8 lb) content (nat (SIMHASH_BITS cfg))) score]"
      "fst (assess cfg content)" "lang \<in> set (LANG_KEEP cfg)"
      "simhash (blake2b8 lb) content (nat (SIMHASH_BITS cfg)) \<notin> set (p_seen s)"
      "p_seen s' = remember (simhash (blake2b8 lb) content (nat (SIMHASH_BITS cfg))) (p_seen s)"
proof -
  obtain msg_id article content where item: "item = (msg_id, article, content)" by (cases item)
  obtain keep reason meta where a: "assess cfg content = (keep, reason, meta)" by (cases "assess cfg content")
  show thesis
  proof (cases keep)
    case False
    with assms item a that(1) show thesis by (simp add: select_step_def ret_def)
  next
    case True
    let ?text = "if strip_code content \<noteq> [] then strip_code content else content"
    obtain lang s1 where l: "detect_lang env ?text s = (Inr lang, s1)"
      using assms item a True by (auto simp: select_step_def bindP_eq_Inr Let_def)
    have seen1: "p_seen s1 = p_seen s"
      by (rule keepsD [OF detect_keeps_seen l])
    show thesis
    proof (cases "lang \<in> set (LANG_KEEP cfg)")
      case False
      with assms item a True l that(1) seen1 show thesis
        by (simp add: select_step_def bindP_Inr Let_def ret_def)
    next
      case lang: True
      let ?dup = "is_duplicate env (blake2b8 lb) (nat (SIMHASH_BITS cfg)) (nat (SIMHASH_BANDS cfg))
        (SIMHASH_HAMMING cfg) content"
      obtain dup chash s2 where d: "?dup s1 = (Inr (dup, chash), s2)"
        using assms item a True l lang by (auto simp: select_step_def bindP_eq_Inr Let_def)
      have c: "chash = simhash (blake2b8 lb) content (nat (SIMHASH_BITS cfg))"
        using d by (rule is_duplicate_hash)
      have seen2: "p_seen s2 = p_seen s"
        using seen1 keepsD [OF dup_keeps_seen d] by simp
      show thesis
      proof (cases "dup \<or> chash \<in> set (p_seen s2)")
        case True
        with assms item a \<open>keep\<close> l lang d that(1) seen2 show thesis
          by (auto simp: select_step_def bindP_Inr Let_def ret_def getP_def split: if_splits)
      next
        case False
        with assms item a \<open>keep\<close> l lang d c seen2 that(2) show thesis
          by (auto simp: select_step_def bindP_Inr Let_def ret_def getP_def updP_def bindP_def)
      qed
    qed
  qed
qed

section \<open>The fetcher leaves the fingerprints alone\<close>

lemma seen_set_bucket [simp]: "p_seen (set_bucket w b s) = p_seen s"
  by (simp add: set_bucket_def split: which.split)

lemma sleep_keeps_seen: "keeps p_seen (py_sleep env d :: ('z pworld_scheme, unit) prog)"
  by (rule keeps_sleep) simp

lemma the_bucket_keeps_seen: "keeps p_seen (the_bucket w :: ('z pworld_scheme, bucket) prog)"
  by (auto simp: the_bucket_def intro!: keeps_rules split: option.split)

lemma acquire_keeps_seen: "keeps p_seen (acquire env fuel w :: ('z pworld_scheme, unit) prog)"
  by (induction fuel) (auto intro!: keeps_rules sleep_keeps_seen the_bucket_keeps_seen
      split: prod.split sum.split option.split)

lemma on_response_keeps_seen:
  "keeps p_seen (back_off env cfg k ra :: ('z pworld_scheme, unit) prog)"
  "keeps p_seen (on_response env cfg k hb st v body :: ('z pworld_scheme, string option option) prog)"
  by (auto simp: back_off_def backoff_delay_def on_response_def parse_retry_after_def penalise_def
      intro!: keeps_rules sleep_keeps_seen the_bucket_keeps_seen split: option.split)

lemma fetch_one_keeps_seen:
  "keeps p_seen (fetch_one env fuel cfg ip url :: ('z pworld_scheme, string option) prog)"
proof -
  have "keeps p_seen (fetch_loop env fuel cfg url hb ks :: ('z pworld_scheme, string option) prog)" for hb ks
    by (induction ks) (auto simp: attempt_fetch_def request_once_def intro!: keeps_rules
        acquire_keeps_seen on_response_keeps_seen split: option.split reply.split)
  then show ?thesis
    by (auto simp: fetch_one_def get_bucket_def get_host_bucket_def new_bucket_def Let_def
        intro!: keeps_rules split: option.split)
qed

lemma fetch_many_keeps_seen:
  "keeps p_seen (fetch_many env lb fuel cfg urls :: ('z pworld_scheme, fetched) prog)"
proof -
  have run: "keeps p_seen (run_workers env fuel cfg ip urls :: ('z pworld_scheme, outcome list) prog)" for ip
  proof (induction urls)
    case Nil
    then show ?case by (simp add: keeps_rules)
  next
    case (Cons u urls)
    show ?case
      unfolding keeps_def
    proof
      fix s :: "'z pworld_scheme"
      obtain out s1 where o: "fetch_one env fuel cfg ip u s = (out, s1)" by fastforce
      have "keeps p_seen (bindP (run_workers env fuel cfg ip urls) (\<lambda>outs. ret (out # outs))
          :: ('z pworld_scheme, outcome list) prog)"
        by (intro keeps_bind Cons.IH keeps_simple)
      then have "p_seen (snd (bindP (run_workers env fuel cfg ip urls) (\<lambda>outs. ret (out # outs)) s1)) = p_seen s1"
        by (simp add: keeps_def)
      with keepsD [OF fetch_one_keeps_seen o] o
      show "p_seen (snd (run_workers env fuel cfg ip (u # urls) s)) = p_seen s" by simp
    qed
  qed
  show ?thesis
    unfolding fetch_many_def by (auto intro!: keeps_rules run)
qed

lemma extract_step_keeps_seen:
  "keeps p_seen (extract_step env lb cfg fetched acc item :: ('z pworld_scheme, tally \<times> ready list) prog)"
  by (auto simp: extract_step_def extract_content_def push_dlq_def dlq_script_def
      intro!: keeps_rules split: prod.split option.split reply.split)

section \<open>Fingerprints\<close>

lemma foldP_invariant:
  assumes "\<And>acc x s acc' s'. I acc s \<Longrightarrow> f acc x s = (Inr acc', s') \<Longrightarrow> I acc' s'"
  shows "foldP f acc xs s = (Inr acc', s') \<Longrightarrow> I acc s \<Longrightarrow> I acc' s'"
proof (induction xs arbitrary: acc s)
  case Nil
  then show ?case by (simp add: ret_def)
next
  case (Cons x xs)
  then show ?case using assms by (auto simp: bindP_eq_Inr)
qed

definition window :: "int list \<Rightarrow> int list" where
  "window xs = drop (length xs - seen_max) xs"

lemma remember_window: "remember h (window xs) = window (xs @ [h])"
  by (cases "length xs \<le> seen_max") (auto simp: remember_def window_def Let_def Suc_diff_le)

lemma window_suffix: "length ys \<le> seen_max \<Longrightarrow> set ys \<subseteq> set (window (xs @ ys))"
  by (auto simp: window_def)

definition rows_inv :: "lib \<Rightarrow> config \<Rightarrow> int list \<Rightarrow> tally \<times> row list \<Rightarrow> 'z pworld_scheme \<Rightarrow> bool" where
  "rows_inv lb cfg seen0 acc s \<longleftrightarrow> list_all (row_ok lb cfg) (snd acc)
     \<and> p_seen s = window (seen0 @ map r_hash (snd acc))
     \<and> (length (snd acc) \<le> seen_max \<longrightarrow> distinct (map r_hash (snd acc)))"

lemma make_row_simps [simp]:
  "r_hash (make_row lb a content lang h score) = h" "r_lang (make_row lb a content lang h score) = lang"
  "r_content (make_row lb a content lang h score) = content"
  "r_url_hash (make_row lb a content lang h score) = sha256_hex lb (r_url (make_row lb a content lang h score))"
  by (simp_all add: make_row_def)

lemma select_step_inv:
  assumes "rows_inv lb cfg seen0 acc s" "select_step env lb cfg acc item s = (Inr acc', s')"
  shows "rows_inv lb cfg seen0 acc' s'"
proof -
  obtain t rows t' rows' where a: "acc = (t, rows)" "acc' = (t', rows')" by (cases acc; cases acc')
  have inv: "list_all (row_ok lb cfg) rows" "p_seen s = window (seen0 @ map r_hash rows)"
    "length rows \<le> seen_max \<Longrightarrow> distinct (map r_hash rows)"
    using assms(1) a by (simp_all add: rows_inv_def)
  from assms(2)[unfolded a] show ?thesis
  proof (cases rule: select_step_Inr)
    case 1
    with inv a show ?thesis by (simp add: rows_inv_def)
  next
    case (2 msg_id article content lang score)
    let ?h = "simhash (blake2b8 lb) content (nat (SIMHASH_BITS cfg))"
    have "?h \<notin> r_hash ` set rows" if "length rows \<le> seen_max"
      using 2(5) inv(2) window_suffix [of "map r_hash rows" seen0] that by auto
    then have "distinct (map r_hash rows')" if "length rows' \<le> seen_max"
      using 2(2) inv(3) that by simp
    moreover have "list_all (row_ok lb cfg) rows'"
      using 2(2-4) inv(1) by (simp add: row_ok_def)
    moreover have "p_seen s' = window (seen0 @ map r_hash rows')"
      using 2(2,6) inv(2) by (simp add: remember_window)
    ultimately show ?thesis using a by (simp add: rows_inv_def)
  qed
qed

lemma gather_rows_inv:
  fixes s :: "'z pworld_scheme"
  assumes "gather env lb fuel cfg ms s = (Inr (t, rows), s')"
    and "length (p_seen s) \<le> seen_max"
  shows "rows_inv lb cfg (p_seen s) (t, rows) s' \<and> length rows \<le> length ms"
proof -
  obtain direct to_fetch fetched s1 t1 extracted s2 where g:
    "fetch_many env lb fuel cfg (map (url_of \<circ> snd) to_fetch) s = (Inr fetched, s1)"
    "foldP (extract_step env lb cfg fetched) (\<lparr>t_stats = [], t_src = []\<rparr>, direct) to_fetch s1
       = (Inr (t1, extracted), s2)"
    "foldP (select_step env lb cfg) (t1, []) extracted s2 = (Inr (t, rows), s')"
    using assms(1) by (rule gather_Inr)
  have "p_seen s1 = p_seen s" by (rule keepsD [OF fetch_many_keeps_seen g(1)])
  moreover have "p_seen s2 = p_seen s1"
    by (rule keepsD [OF keeps_fold [OF extract_step_keeps_seen] g(2)])
  ultimately have "rows_inv lb cfg (p_seen s) (t1, []) s2"
    using assms(2) by (simp add: rows_inv_def window_def)
  with g(3) have inv: "rows_inv lb cfg (p_seen s) (t, rows) s'"
    by (rule foldP_invariant [where I = "rows_inv lb cfg (p_seen s)", rotated])
      (rule select_step_inv)
  have "length rows \<le> length ms"
    using gather_entries [OF assms(1)] length_filter_le [of "parsable lb" ms] by linarith
  with inv show ?thesis by simp
qed

lemma gather_rows_seen:
  fixes s :: "'z pworld_scheme"
  assumes "gather env lb fuel cfg ms s = (Inr (t, rows), s')" "length (p_seen s) \<le> seen_max" "length ms \<le> seen_max"
  shows "p_seen s' = window (p_seen s @ map r_hash rows)"
  using gather_rows_inv [OF assms(1,2)] by (simp add: rows_inv_def)

text \<open>
  C5: What reaches the database. Every row of a batch passed the quality gate on exactly the
  content it stores, is in a language that is kept, and carries the hash of its URL and the
  fingerprint of its content; no two rows of a batch of at most ten thousand messages have the
  same fingerprint; and the fingerprints remembered afterwards are the last ten thousand of the
  old ones followed by the new ones.
\<close>

theorem gather_rows:
  fixes s :: "'z pworld_scheme"
  assumes "gather env lb fuel cfg ms s = (Inr (t, rows), s')"
    and "length (p_seen s) \<le> seen_max" "length ms \<le> seen_max"
  shows "list_all (row_ok lb cfg) rows \<and> distinct (map r_hash rows)
    \<and> p_seen s' = window (p_seen s @ map r_hash rows)"
  using gather_rows_inv [OF assms(1,2)] assms(3) by (simp add: rows_inv_def)

end
