(* ===== verification/Retry.thy ===== *)
theory Retry
  imports Ledger
begin

text \<open>
  Delivering a batch again after a failed insertion: the fingerprints of the first attempt are
  still remembered in \<open>seen_hashes\<close>, so each article that had become a row is turned away by the
  second. The lemmas follow the two selections of the same articles side by side.
\<close>

section \<open>What leaves the remembered fingerprints alone\<close>

lemma insert_keeps_seen: "keeps p_seen (insert_articles env rows :: ('z pworld_scheme, int) prog)"
  unfolding insert_articles_def by (auto intro!: keeps_rules)

text \<open>Neither does anything between a failed batch and the next one.\<close>

lemma between_keeps_seen:
  "keeps p_seen (drop_broken_conn env :: ('z pworld_scheme, unit) prog)"
  "keeps p_seen (get_conn env cfg :: ('z pworld_scheme, unit) prog)"
  "keeps p_seen (call_batches env c :: ('z pworld_scheme, (string \<times> message list) list) prog)"
  unfolding drop_broken_conn_def get_conn_def get_pool_def call_batches_def
  by (auto intro!: keeps_rules split: reply.split)

section \<open>Turned away\<close>

text \<open>Articles counted as duplicates, or for their language.\<close>

definition turned_away :: "tally \<Rightarrow> nat" where
  "turned_away t = get0 (t_stats t) ''dup'' + get0 (t_stats t) ''lang''"

lemma turned_away_mono: "turned_away t \<le> turned_away (reject reason a t)" "turned_away t \<le> turned_away (count_only reason t)"
  by (simp_all add: turned_away_def reject_def count_only_def)

lemma turned_away_counts:
  "turned_away (count_only ''dup'' t) = turned_away t + 1" "turned_away (count_only ''lang'' t) = turned_away t + 1"
  by (simp_all add: turned_away_def count_only_def)

lemma select_step_tally:
  "select_step env lb cfg (t, rows) item s = (Inr (t', rows'), s') \<Longrightarrow> turned_away t \<le> turned_away t'"
  using turned_away_mono
  by (auto simp: select_step_def bindP_eq_Inr ret_def Let_def split: prod.splits if_splits)

definition fingerprint :: "lib \<Rightarrow> config \<Rightarrow> string \<Rightarrow> int" where
  "fingerprint lb cfg content = simhash (blake2b8 lb) content (nat (SIMHASH_BITS cfg))"

text \<open>An article the gate keeps and whose fingerprint is remembered is turned away.\<close>

lemma select_step_again:
  fixes s :: "'z pworld_scheme"
  assumes "select_step env lb cfg (t, rows) (m, a, content) s = (Inr (t', rows'), s')"
    and "fst (assess cfg content)" "fingerprint lb cfg content \<in> set (p_seen s)"
  shows "rows' = rows \<and> p_seen s' = p_seen s \<and> turned_away t' = turned_away t + 1"
proof -
  obtain reason mt where as: "assess cfg content = (True, reason, mt)"
    using assms(2) by (cases "assess cfg content") auto
  let ?text = "if strip_code content \<noteq> [] then strip_code content else content"
  obtain lang s1 where l: "detect_lang env ?text s = (Inr lang, s1)"
    using assms(1) as by (auto simp: select_step_def bindP_eq_Inr Let_def)
  have seen1: "p_seen s1 = p_seen s" by (rule keepsD [OF detect_keeps_seen l])
  show ?thesis
  proof (cases "lang \<in> set (LANG_KEEP cfg)")
    case False
    with assms(1) as l seen1 show ?thesis
      by (simp add: select_step_def bindP_Inr Let_def ret_def) (metis turned_away_counts(2) Suc_eq_plus1)
  next
    case True
    obtain dup h s2 where d: "is_duplicate env (blake2b8 lb) (nat (SIMHASH_BITS cfg)) (nat (SIMHASH_BANDS cfg))
        (SIMHASH_HAMMING cfg) content s1 = (Inr (dup, h), s2)"
      using assms(1) as l True by (auto simp: select_step_def bindP_eq_Inr Let_def)
    have "h = fingerprint lb cfg content" using is_duplicate_hash [OF d] by (simp add: fingerprint_def)
    moreover have "p_seen s2 = p_seen s" using seen1 keepsD [OF dup_keeps_seen d] by simp
    ultimately show ?thesis
      using assms(1,3) as l True d turned_away_counts(1)
      by (auto simp: select_step_def bindP_Inr Let_def ret_def getP_def bindP_def split: if_splits)
  qed
qed

section \<open>Two selections of the same articles\<close>

lemma select_rows_grow:
  "foldP (select_step env lb cfg) (t, rows) items s = (Inr (t', rows'), s') \<Longrightarrow> set rows \<subseteq> set rows'"
proof (induction items arbitrary: t rows s)
  case Nil
  then show ?case by (simp add: ret_def)
next
  case (Cons item items)
  then obtain t1 rows1 s1 where 1: "select_step env lb cfg (t, rows) item s = (Inr (t1, rows1), s1)"
    and 2: "foldP (select_step env lb cfg) (t1, rows1) items s1 = (Inr (t', rows'), s')"
    by (auto simp: bindP_eq_Inr)
  from 1 have "set rows \<subseteq> set rows1" by (cases rule: select_step_Inr) auto
  with Cons.IH [OF 2] show ?case by blast
qed

lemma second_selection:
  fixes s s2 :: "'z pworld_scheme"
  assumes "foldP (select_step env lb cfg) (t, rows) items s = (Inr (t1, rows1), s1)"
    and "foldP (select_step env lb cfg) (t', rows') items s2 = (Inr (t2, rows2), s3)"
    and "r_hash ` set rows1 \<subseteq> set hs" "p_seen s2 = window (pre @ hs @ mid)"
    and "length hs + length mid + length items \<le> seen_max" "r_hash ` set rows' \<inter> set hs = {}"
  shows "turned_away t' + length rows1 \<le> turned_away t2 + length rows
    \<and> r_hash ` set rows2 \<inter> set hs = {}"
  using assms
proof (induction items arbitrary: t rows s t' rows' s2 mid)
  case Nil
  then show ?case by (simp add: ret_def)
next
  case (Cons item items)
  obtain ta ra sa where a: "select_step env lb cfg (t, rows) item s = (Inr (ta, ra), sa)"
    "foldP (select_step env lb cfg) (ta, ra) items sa = (Inr (t1, rows1), s1)"
    using Cons.prems(1) by (auto simp: bindP_eq_Inr)
  obtain tb rb sb where b: "select_step env lb cfg (t', rows') item s2 = (Inr (tb, rb), sb)"
    "foldP (select_step env lb cfg) (tb, rb) items sb = (Inr (t2, rows2), s3)"
    using Cons.prems(2) by (auto simp: bindP_eq_Inr)
  have hs: "set hs \<subseteq> set (p_seen s2)"
    using Cons.prems(4,5) window_suffix [of "hs @ mid" pre] by auto
  have IH: "turned_away tb + length rows1 \<le> turned_away t2 + length ra
      \<and> r_hash ` set rows2 \<inter> set hs = {}"
    if "p_seen sb = window (pre @ hs @ mid @ new)" "length new \<le> 1" "r_hash ` set rb \<inter> set hs = {}" for new
    using Cons.IH [OF a(2) b(2) Cons.prems(3), of "mid @ new"] that Cons.prems(5) by simp
  from a(1) show ?case
  proof (cases rule: select_step_Inr)
    case 1
    from b(1) show ?thesis
    proof (cases rule: select_step_Inr)
      case 1
      then show ?thesis
        using IH [of "[]"] Cons.prems(4,6) \<open>ra = rows\<close> select_step_tally [OF b(1)] by fastforce
    next
      case (2 m art content lang score)
      let ?h = "simhash (blake2b8 lb) content (nat (SIMHASH_BITS cfg))"
      have "p_seen sb = window (pre @ hs @ mid @ [?h])"
        using 2(6) Cons.prems(4) remember_window [of ?h "pre @ hs @ mid"] by simp
      moreover have "r_hash ` set rb \<inter> set hs = {}"
        using 2(2,5) hs Cons.prems(6) by auto
      ultimately show ?thesis
        using IH [of "[?h]"] \<open>ra = rows\<close> select_step_tally [OF b(1)] by fastforce
    qed
  next
    case (2 m art content lang score)
    have "fingerprint lb cfg content \<in> r_hash ` set ra"
      using 2(2) by (simp add: fingerprint_def)
    then have "fingerprint lb cfg content \<in> set (p_seen s2)"
      using select_rows_grow [OF a(2)] Cons.prems(3) hs by blast
    then have again: "rb = rows' \<and> p_seen sb = p_seen s2 \<and> turned_away tb = turned_away t' + 1"
      using select_step_again [OF b(1) [unfolded 2(1)] 2(3)] by blast
    then have "turned_away tb + length rows1 \<le> turned_away t2 + length ra
        \<and> r_hash ` set rows2 \<inter> set hs = {}"
      using IH [of "[]"] Cons.prems(4,6) by simp
    then show ?thesis using again 2(2) by auto
  qed
qed

section \<open>What a batch sends\<close>

text \<open>Whether a call sends a row with one of these fingerprints to the database.\<close>

definition sends_any :: "int set \<Rightarrow> event \<Rightarrow> bool" where
  "sends_any hs e \<longleftrightarrow> (case fst e of ExecuteValues rs _ \<Rightarrow> r_hash ` set rs \<inter> hs \<noteq> {} | _ \<Rightarrow> False)"

lemma gather_sends_nothing:
  "emits (\<lambda>e. \<not> sends_any hs e) (gather env lb fuel cfg ms :: ('z pworld_scheme, tally \<times> row list) prog)"
  by (rule emits_mono [OF emits_gather]) (auto simp: before_store_def sends_any_def split: cmd.splits)

lemma sends_any_pair: "sends_any hs (c, r) \<longleftrightarrow> (case c of ExecuteValues rs _ \<Rightarrow> r_hash ` set rs \<inter> hs \<noteq> {} | _ \<Rightarrow> False)"
  by (simp add: sends_any_def)

lemma store_sends:
  "r_hash ` set rows \<inter> hs = {} \<Longrightarrow> emits (\<lambda>e. \<not> sends_any hs e) (store_rows env cfg rows :: ('z world_scheme, unit) prog)"
  unfolding store_rows_def insert_articles_def
  by (auto simp: sends_any_pair hincrs_def intro!: emits_rules emits_index)

lemma metrics_sends: "emits (\<lambda>e. \<not> sends_any hs e) (write_metrics env t :: ('z world_scheme, unit) prog)"
  unfolding write_metrics_def
  by (auto simp: sends_any_pair hincrs_def simp del: pipe_execute.simps intro!: emits_rules)

text \<open>A batch all of whose articles carry their content: both attempts select the same articles.\<close>

lemma inline_gather:
  fixes s :: "'z pworld_scheme"
  assumes "gather env lb fuel cfg ms s = (Inr (t, rows), s')"
    and "split_payloads (parse_messages lb ms) = Inr (direct, [])"
  obtains s1 where "p_seen s1 = p_seen s"
    "foldP (select_step env lb cfg) (\<lparr>t_stats = [], t_src = []\<rparr>, []) direct s1 = (Inr (t, rows), s')"
proof -
  obtain fetched s1 where f: "fetch_many env lb fuel cfg [] s = (Inr fetched, s1)"
    and fold: "foldP (select_step env lb cfg) (\<lparr>t_stats = [], t_src = []\<rparr>, []) direct s1 = (Inr (t, rows), s')"
    using assms by (auto simp: gather_def liftE_def bindP_eq_Inr ret_def)
  from that [OF keepsD [OF fetch_many_keeps_seen f] fold] show thesis .
qed

lemma second_attempt:
  fixes s s3 :: "'z pworld_scheme"
  assumes inline: "split_payloads (parse_messages lb ms) = Inr (direct, [])"
    and first: "gather env lb fuel cfg ms s = (Inr (t, rows), s1)"
    and again: "gather env lb fuel cfg ms s3 = (Inr (t2, rows2), s4)" "p_seen s3 = p_seen s1"
    and "length (p_seen s) \<le> seen_max" and len: "2 * length ms \<le> seen_max"
  shows "length rows \<le> turned_away t2 \<and> r_hash ` set rows2 \<inter> r_hash ` set rows = {}"
proof -
  have seen: "p_seen s1 = window (p_seen s @ map r_hash rows)"
    using gather_rows_seen [OF first assms(5)] len by simp
  obtain sa where a: "foldP (select_step env lb cfg) (\<lparr>t_stats = [], t_src = []\<rparr>, []) direct sa = (Inr (t, rows), s1)"
    using inline_gather [OF first inline] by blast
  obtain sb where b: "p_seen sb = p_seen s3"
    "foldP (select_step env lb cfg) (\<lparr>t_stats = [], t_src = []\<rparr>, []) direct sb = (Inr (t2, rows2), s4)"
    using inline_gather [OF again(1) inline] by blast
  have "length rows \<le> length ms"
    using gather_entries [OF first] length_filter_le [of "parsable lb" ms] by linarith
  moreover have "length direct \<le> length ms"
    using split_payloads_length [OF inline] length_filter_le [of "parsable lb" ms]
    by (simp add: parse_messages_length)
  ultimately have "length (map r_hash rows) + length ([] :: int list) + length direct \<le> seen_max" using len by simp
  from second_selection [OF a b(2) _ _ this, of "p_seen s"] seen again(2) b(1) show ?thesis
    by (auto simp: turned_away_def)
qed

end
