(* ===== verification/Failures.thy ===== *)
theory Failures
  imports Retry
begin

text \<open>
  Dead letters, and the executions in which the documented failure policy of \<open>main.py\<close> does
  not hold: an article lost by a retry, and a message that is never drained. The scenarios run on
  a small world whose services behave as documented.
\<close>

section \<open>Dead letters\<close>

text \<open>
  Parking a message never raises, whatever Redis does; only a call that never returns does
  not come back.
\<close>

theorem push_dlq_never_raises:
  "avoids is_Exception (push_dlq env lb cfg msg_id article reason detail :: ('z world_scheme, bool) prog)"
  unfolding push_dlq_def by (intro avoids_try avoids_simple) simp

text \<open>Redis sets: a member that was added is found; nothing here removes it.\<close>

definition members_stay :: "env \<Rightarrow> bool" where
  "members_stay env \<longleftrightarrow> (\<forall>tr k v r. (Sadd k v, r) \<in> set tr \<longrightarrow> ok_reply r \<longrightarrow> env tr (Sismember k v) = Num 1)"

lemma push_dlq_True:
  assumes "push_dlq env lb cfg m a reason detail s = (Inr True, s')"
  shows "\<exists>r. ok_reply r \<and> (Sadd (DLQ_SEEN_KEY cfg) m, r) \<in> set (trace s')"
proof -
  let ?script = "dlq_script env (DLQ_SEEN_KEY cfg) (DLQ_STREAM cfg) m (dlq_fields lb a reason detail)
    (DLQ_MAXLEN cfg)"
  obtain first s1 where 1: "?script s = (Inr first, s1)" "first = 1"
    using assms by (auto simp: push_dlq_def tryP_def bindP_eq_Inr ret_def split: prod.splits sum.splits if_splits)
  then have "\<exists>r. ok_reply r \<and> (Sadd (DLQ_SEEN_KEY cfg) m, r) \<in> set (trace s1)"
    by (auto simp: dlq_script_def bindP_eq_Inr call_num_Inr call_unit_Inr ret_def split: if_splits)
  moreover have "\<exists>es. trace s' = trace s1 @ es"
    using assms 1
    by (auto simp: push_dlq_def tryP_def bindP_eq_Inr ret_def call_unit_Inr split: prod.splits sum.splits if_splits)
  ultimately show ?thesis by auto
qed

text \<open>
  C36: A message is parked at most once: after a push that parked it, every later push of the
  same message, with whatever article and reason, only looks it up, adds nothing to the stream
  and reports that it parked nothing. Retried batches do not fill the dead-letter stream.
\<close>

theorem push_dlq_once:
  assumes "members_stay env" "push_dlq env lb cfg m a reason detail s = (Inr True, s1)"
    and "prefix (trace s1) (trace s2)"
  shows "push_dlq env lb cfg m a' reason' detail' s2
    = (Inr False, s2\<lparr>trace := trace s2 @ [(Sismember (DLQ_SEEN_KEY cfg) m, Num 1)]\<rparr>)"
proof -
  obtain r where "ok_reply r" "(Sadd (DLQ_SEEN_KEY cfg) m, r) \<in> set (trace s2)"
    using push_dlq_True [OF assms(2)] set_mono_prefix [OF assms(3)] by blast
  then have "env (trace s2) (Sismember (DLQ_SEEN_KEY cfg) m) = Num 1"
    using assms(1) unfolding members_stay_def by blast
  then show ?thesis
    by (simp add: push_dlq_def dlq_script_def tryP_def bindP_def call_num_def call_def Let_def ret_def)
qed

definition guard_redis :: env where
  "guard_redis tr c = (case c of
     Sismember k v \<Rightarrow> Num (if list_ex (\<lambda>(d, r). d = Sadd k v \<and> ok_reply r) tr then 1 else 0)
   | _ \<Rightarrow> Done)"

definition bare_article :: article where
  "bare_article = \<lparr>a_url = Some ''http://h/a'', a_title = None, a_author = None,
     a_published_at = None, a_tags = None, a_source_type = None, a_content_md = None\<rparr>"

theorem push_dlq_once_witness:
  "\<exists>s1. push_dlq guard_redis test_lib default_config ''1-0'' bare_article ''extract_fail'' [] \<lparr>trace = []\<rparr>
      = (Inr True, s1) \<and>
    fst (push_dlq guard_redis test_lib default_config ''1-0'' bare_article ''extract_fail'' [] s1) = Inr False"
proof -
  have "fst (push_dlq guard_redis test_lib default_config ''1-0'' bare_article ''extract_fail'' [] \<lparr>trace = []\<rparr>)
      = Inr True"
    by code_simp
  then obtain s1 where s1: "push_dlq guard_redis test_lib default_config ''1-0'' bare_article ''extract_fail'' []
      \<lparr>trace = []\<rparr> = (Inr True, s1)"
    by (metis prod.collapse)
  have "members_stay guard_redis"
    by (force simp: members_stay_def guard_redis_def list_ex_iff)
  from push_dlq_once [OF this s1 prefix_order.refl] s1 show ?thesis by auto
qed

section \<open>A small world\<close>

text \<open>One article with inline content that the gate keeps as code-rich.\<close>

definition dash :: string where "dash = [backtick, CHR ''-'', backtick]"

definition small_lib :: lib where
  "small_lib = test_lib\<lparr>json_loads := (\<lambda>raw. if raw = ''a'' then Obj (bare_article\<lparr>a_content_md := Some dash\<rparr>)
     else if raw = ''[]'' then NotObject else NotJson),
     sha256_hex := (\<lambda>u. u)\<rparr>"

definition small_config :: config where
  "small_config = default_config\<lparr>MIN_CODE_CHARS := 1\<rparr>"

definition has_event :: "cmd \<Rightarrow> event list \<Rightarrow> bool" where
  "has_event c tr \<longleftrightarrow> list_ex (\<lambda>e. fst e = c) tr"

definition attempts :: "event list \<Rightarrow> nat" where
  "attempts tr = length (filter (\<lambda>e. case fst e of ExecuteValues _ _ \<Rightarrow> True | _ \<Rightarrow> False) tr)"

text \<open>psycopg2's \<open>PoolError\<close>, raised when as many connections are taken as the pool may have.\<close>

definition pool_exhausted :: exn where
  "pool_exhausted = DatabaseError ''connection pool exhausted''"

text \<open>
  Services as documented, with one article pending until it is acknowledged; the database
  refuses the first \<open>n\<close> statements.
\<close>

definition small_world :: "nat \<Rightarrow> string \<Rightarrow> env" where
  "small_world n raw tr c = (case c of
     Rowcount \<Rightarrow> Num (int (snd (snd (db_of tr))))
   | ExecuteValues rows k \<Rightarrow> if attempts tr < n then Fail (DatabaseError ''server closed the connection'') else Done
   | Monotonic \<Rightarrow> Time (slept tr)
   | Smembers k \<Rightarrow> Texts (fake_members tr k)
   | Sismember k v \<Rightarrow> Num 0
   | GetConn \<Rightarrow> if held tr < int pool_max then Done else Fail pool_exhausted
   | Detect text \<Rightarrow> Txt ''en''
   | XreadNew _ _ _ _ _ \<Rightarrow> Batches [(''articles'', [(''1-0'', [(''article'', raw)])])]
   | XreadPending _ _ _ _ \<Rightarrow> Batches [(''articles'', [(''1-0'', [(''article'', raw)])])]
   | XpendingRange _ _ _ _ \<Rightarrow> Texts (if list_ex is_ack tr then [] else [''1-0''])
   | _ \<Rightarrow> Done)"

definition begin_state :: pworld where
  "begin_state = \<lparr>trace = [], g_bucket = None, h_buckets = Map.empty, p_pool = True, p_conn = True,
     p_seen = []\<rparr>"

definition small_batch :: "message list" where
  "small_batch = [(''1-0'', [(''article'', ''a'')]), (''2-0'', []), (''3-0'', [(''article'', ''a'')])]"

definition small_gather :: "(exn + tally \<times> row list) \<times> pworld" where
  "small_gather = gather (small_world 0 ''a'') small_lib 5 small_config small_batch begin_state"

lemma small_gather_result:
  "\<exists>t rows s'. small_gather = (Inr (t, rows), s') \<and> total (t_stats t) = 1 \<and> length rows = 1"
proof -
  have "case fst small_gather of Inr (t, rows) \<Rightarrow> total (t_stats t) = 1 \<and> length rows = 1 | Inl _ \<Rightarrow> False"
    by code_simp
  then obtain t rows where "fst small_gather = Inr (t, rows)" "total (t_stats t) = 1" "length rows = 1"
    by (auto split: sum.splits prod.splits)
  then show ?thesis by (metis prod.collapse)
qed

section \<open>The retry that loses an article\<close>

text \<open>
  C2: A database failure loses articles. The fingerprints of a batch are remembered in
  \<open>seen_hashes\<close> before the insert. Take any batch whose articles carry their content, assemble
  its rows, let the insertion raise, and deliver the batch again in any later state that has
  remembered the same fingerprints. If that retry returns, it has turned away at least as many
  articles as the first attempt had rows, as duplicates (or for their language, should the
  detector have changed its mind), it has sent none of their fingerprints to the database, and its
  last call acknowledges the whole batch. The module's documentation promises that a database blip
  never loses data and that a retry can never be rejected by its own fingerprint.
\<close>

theorem retry_loses_article:
  fixes s s3 :: "'z pworld_scheme"
  assumes inline: "split_payloads (parse_messages lb ms) = Inr (direct, [])"
    and first: "gather env lb fuel cfg ms s = (Inr (t, rows), s1)" "insert_articles env rows s1 = (Inl e, s2)"
    and retry: "process_messages env lb fuel cfg ms s3 = (Inr (), s')" "p_seen s3 = p_seen s2"
    and bounds: "length (p_seen s) \<le> seen_max" "2 * length ms \<le> seen_max"
  shows "\<exists>t2 rows2 s4 es x. gather env lb fuel cfg ms s3 = (Inr (t2, rows2), s4) \<and> length rows \<le> turned_away t2
    \<and> trace s' = trace s3 @ es @ [(Xack (STREAM cfg) (CONSUMER_GROUP cfg) (map fst ms), x)] \<and> ok_reply x
    \<and> list_all (\<lambda>e. \<not> sends_any (r_hash ` set rows) e) es"
proof -
  obtain t2 rows2 s4 s5 s6 where ga: "gather env lb fuel cfg ms s3 = (Inr (t2, rows2), s4)"
    and st: "store_rows env cfg rows2 s4 = (Inr (), s5)" and me: "write_metrics env t2 s5 = (Inr (), s6)"
    and ac: "ack env cfg (map fst ms) s6 = (Inr (), s')"
    using retry(1) by (auto simp: process_messages_def bindP_eq_Inr)
  have "p_seen s3 = p_seen s1" using retry(2) keepsD [OF insert_keeps_seen first(2)] by simp
  from second_attempt [OF inline first(1) ga this bounds] have away: "length rows \<le> turned_away t2"
    and new: "r_hash ` set rows2 \<inter> r_hash ` set rows = {}" by blast+
  let ?quiet = "list_all (\<lambda>e. \<not> sends_any (r_hash ` set rows) e)"
  obtain es1 es2 es3 where es: "trace s4 = trace s3 @ es1" "?quiet es1" "trace s5 = trace s4 @ es2" "?quiet es2"
    "trace s6 = trace s5 @ es3" "?quiet es3"
    using emitsD [OF gather_sends_nothing ga] emitsD [OF store_sends [OF new] st] emitsD [OF metrics_sends me]
    by blast
  have "ms \<noteq> []"
    using first gather_rows_inv [OF first(1) bounds(1)] by (auto simp: insert_articles_def ret_def)
  then obtain x where "trace s' = trace s6 @ [(Xack (STREAM cfg) (CONSUMER_GROUP cfg) (map fst ms), x)]" "ok_reply x"
    using ac by (auto simp: ack_def call_unit_Inr)
  with ga away es show ?thesis
    by (intro exI [of _ t2] exI [of _ rows2] exI [of _ s4] exI [of _ "es1 @ es2 @ es3"] exI [of _ x]) simp
qed

definition one_message :: "message list" where
  "one_message = [(''1-0'', [(''article'', ''a'')])]"

theorem retry_loses_article_witness:
  "\<exists>t rows s1 s2 s' es x. gather (small_world 1 ''a'') small_lib 5 small_config one_message begin_state = (Inr (t, rows), s1)
     \<and> length rows = 1 \<and> (\<exists>e. insert_articles (small_world 1 ''a'') rows s1 = (Inl e, s2))
     \<and> process_messages (small_world 1 ''a'') small_lib 5 small_config one_message s2 = (Inr (), s')
     \<and> trace s' = trace s2 @ es @ [(Xack (STREAM small_config) (CONSUMER_GROUP small_config) [''1-0''], x)]
     \<and> list_all (\<lambda>e. \<not> sends_any (r_hash ` set rows) e) es"
proof -
  let ?env = "small_world 1 ''a''"
  have run: "case gather ?env small_lib 5 small_config one_message begin_state of (Inr (t, rows), s1) \<Rightarrow> length rows = 1
      \<and> (case insert_articles ?env rows s1 of (Inl e, s2) \<Rightarrow>
           fst (process_messages ?env small_lib 5 small_config one_message s2) = Inr () | (Inr n, s2) \<Rightarrow> False)
    | (Inl e, s1) \<Rightarrow> False"
    by code_simp
  obtain q s1 where ga: "gather ?env small_lib 5 small_config one_message begin_state = (q, s1)" by fastforce
  then obtain t rows where q: "q = Inr (t, rows)" using run by (cases q) auto
  obtain i s2 where ins: "insert_articles ?env rows s1 = (i, s2)" by fastforce
  then obtain e where i: "i = Inl e" using run ga q by (cases i) auto
  have g: "gather ?env small_lib 5 small_config one_message begin_state = (Inr (t, rows), s1)" "length rows = 1"
      "insert_articles ?env rows s1 = (Inl e, s2)"
      "fst (process_messages ?env small_lib 5 small_config one_message s2) = Inr ()"
    using run ga q ins i by auto
  then obtain s' where p: "process_messages ?env small_lib 5 small_config one_message s2 = (Inr (), s')"
    by (metis prod.collapse)
  have "\<exists>direct. split_payloads (parse_messages small_lib one_message) = Inr (direct, [])"
    by (simp add: parse_messages_def parse_message_def one_message_def small_lib_def bindE_def dash_def)
  then obtain direct where "split_payloads (parse_messages small_lib one_message) = Inr (direct, [])" by blast
  from retry_loses_article [OF this g(1,3) p] g p show ?thesis
    by (simp add: begin_state_def one_message_def seen_max_def) blast
qed

text \<open>
  The same in one turn of the main loop, over a database that refuses a single statement: the turn
  ends normally, with one insertion attempted, no row committed, one duplicate counted and the
  message acknowledged.
\<close>

lemma main_step_loses_article:
  "case main_step (small_world 1 ''a'') small_lib 5 5 5 small_config begin_state of (r, s') \<Rightarrow>
     r = Inr () \<and> has_event (Xack ''articles'' ''py'' [''1-0'']) (trace s')
     \<and> has_event (Hincrby rejected_by_reason ''dup'' 1) (trace s')
     \<and> attempts (trace s') = 1 \<and> committed (trace s') = []"
  by code_simp

text \<open>The same turn over a database that works stores the article before acknowledging it.\<close>

theorem no_failure_stores_article:
  "case main_step (small_world 0 ''a'') small_lib 5 5 5 small_config begin_state of (r, s') \<Rightarrow>
     r = Inr () \<and> has_event (Xack ''articles'' ''py'' [''1-0'']) (trace s')
     \<and> committed (trace s') = [''http://h/a'']"
  by code_simp

section \<open>The message that is never drained\<close>

lemma split_payloads_Inl: "split_payloads ps = Inl e \<Longrightarrow> e = AttributeError ''get''"
proof (induction ps arbitrary: e rule: split_payloads.induct)
  case (2 i p ps)
  show ?case
  proof (cases p)
    case (Obj a)
    with 2 show ?thesis
      by (cases "split_payloads ps") (auto simp: bindE_def split: option.splits if_splits)
  qed (use 2 in auto)
qed simp

lemma split_payloads_NotObject:
  "(m, NotObject) \<in> set ps \<Longrightarrow> split_payloads ps = Inl (AttributeError ''get'')"
proof (induction ps rule: split_payloads.induct)
  case (2 i p ps)
  show ?case
  proof (cases p)
    case (Obj a)
    with 2 show ?thesis by (simp add: bindE_def)
  qed (use 2 in auto)
qed simp

lemma poison_raises:
  assumes "(m, NotObject) \<in> set (parse_messages lb ms)"
  shows "process_batch env lb fuel cfg ((stream, ms) # rest) s = (Inl (AttributeError ''get''), s)"
  using split_payloads_NotObject [OF assms]
  by (simp add: process_batch_def process_messages_def gather_def bindP_def liftE_def)

text \<open>
  Redis delivers the pending batch again as long as it has not been acknowledged; the clock and the
  server never fail, and the pool does as psycopg2 documents: it hands out connections up to its
  maximum, and raises when all of them are taken.
\<close>

definition redelivers :: "env \<Rightarrow> config \<Rightarrow> string \<Rightarrow> message list \<Rightarrow> bool" where
  "redelivers env cfg stream ms \<longleftrightarrow> (\<forall>tr. list_all (\<lambda>e. \<not> is_ack e) tr \<longrightarrow>
     (\<exists>p ps. env tr (XpendingRange (STREAM cfg) (CONSUMER_GROUP cfg) (nat (BATCH_SIZE cfg)) (CONSUMER_NAME cfg))
        = Texts (p # ps))
     \<and> env tr (XreadPending (CONSUMER_GROUP cfg) (CONSUMER_NAME cfg) (STREAM cfg) (nat (BATCH_SIZE cfg)))
        = Batches [(stream, ms)]
     \<and> (if held tr < int pool_max then ok_reply (env tr GetConn) else env tr GetConn = Fail pool_exhausted)
     \<and> ok_reply (env tr (OpenPool pool_min pool_max (PG_DSN cfg)))
     \<and> ok_reply (env tr (Sleep 10)))"

text \<open>
  What the reconnection loop may do: no acknowledgement, no connection given back. A connection
  more is taken if the pool has one.
\<close>

definition leaks :: "event \<Rightarrow> bool" where
  "leaks e \<longleftrightarrow> \<not> is_ack e \<and> (case fst e of PutConn _ \<Rightarrow> False | _ \<Rightarrow> True)"

definition is_pause :: "event \<Rightarrow> bool" where
  "is_pause e \<longleftrightarrow> fst e = Sleep 10"

definition one_more :: "int \<Rightarrow> int" where
  "one_more n = (if n < int pool_max then n + 1 else n)"

lemma leaks_not_ack: "list_all leaks es \<Longrightarrow> list_all (\<lambda>e. \<not> is_ack e) es"
  by (simp add: list_all_iff leaks_def)

lemma held_simps [simp]: "held [] = 0" "held ((GetConn, r) # es) = (if ok_reply r then 1 else 0) + held es"
  "held ((XpendingRange k g n c, r) # es) = held es" "held ((XreadPending g c k n, r) # es) = held es"
  "held ((Sleep t, r) # es) = held es" "held ((OpenPool a b d, r) # es) = held es"
  by (simp_all add: held_def)

lemma recover_poison:
  assumes "(m, NotObject) \<in> set (parse_messages lb ms)" "redelivers env cfg stream ms"
    "list_all (\<lambda>e. \<not> is_ack e) (trace s)"
  shows "\<exists>s' es. recover_pending env lb fuel (Suc rounds) cfg s = (Inl (AttributeError ''get''), s')
    \<and> trace s' = trace s @ es \<and> list_all leaks es \<and> held es = 0 \<and> filter is_pause es = []"
proof -
  let ?pend = "XpendingRange (STREAM cfg) (CONSUMER_GROUP cfg) (nat (BATCH_SIZE cfg)) (CONSUMER_NAME cfg)"
  let ?read = "XreadPending (CONSUMER_GROUP cfg) (CONSUMER_NAME cfg) (STREAM cfg) (nat (BATCH_SIZE cfg))"
  obtain p ps where pend: "env (trace s) ?pend = Texts (p # ps)"
    using assms(2,3) unfolding redelivers_def by blast
  let ?s1 = "s\<lparr>trace := trace s @ [(?pend, Texts (p # ps))]\<rparr>"
  have "list_all (\<lambda>e. \<not> is_ack e) (trace ?s1)" using assms(3) by (simp add: is_ack_def)
  then have read: "env (trace ?s1) ?read = Batches [(stream, ms)]"
    using assms(2) unfolding redelivers_def by blast
  let ?s2 = "?s1\<lparr>trace := trace ?s1 @ [(?read, Batches [(stream, ms)])]\<rparr>"
  have 1: "call_texts env ?pend s = (Inr (p # ps), ?s1)" using pend by (simp add: call_texts_Inr)
  have 2: "call_batches env ?read ?s1 = (Inr [(stream, ms)], ?s2)"
    using read by (simp add: call_batches_def bindP_def call_def Let_def ret_def)
  have "recover_pending env lb fuel (Suc rounds) cfg s = (Inl (AttributeError ''get''), ?s2)"
    by (simp add: bindP_def 1 2 poison_raises [OF assms(1)])
  then show ?thesis by (auto simp: leaks_def is_ack_def is_pause_def)
qed

text \<open>Taking a connection: it succeeds if one is left, and raises otherwise.\<close>

lemma get_conn_runs:
  fixes s :: "'z pworld_scheme"
  assumes "redelivers env cfg stream ms" "list_all (\<lambda>e. \<not> is_ack e) (trace s)"
  shows "\<exists>r s' es. get_conn env cfg s = (r, s') \<and> trace s' = trace s @ es \<and> list_all leaks es
    \<and> r = (if held (trace s) < int pool_max then Inr () else Inl pool_exhausted)
    \<and> held (trace s') = one_more (held (trace s)) \<and> filter is_pause es = []"
proof -
  let ?open = "OpenPool pool_min pool_max (PG_DSN cfg)"
  have pool: "\<exists>s1 es. get_pool env cfg (p_pool s) s = (Inr True, s1) \<and> trace s1 = trace s @ es \<and> list_all leaks es
      \<and> held es = 0 \<and> filter is_pause es = []"
  proof (cases "p_pool s")
    case True
    then show ?thesis by (simp add: get_pool_def ret_def)
  next
    case False
    have "ok_reply (env (trace s) ?open)" using assms unfolding redelivers_def by blast
    then obtain s1 where "call_unit env ?open s = (Inr (), s1)"
      "trace s1 = trace s @ [(?open, env (trace s) ?open)]"
      by (simp add: call_unit_Inr)
    with False show ?thesis by (auto simp: get_pool_def bindP_def ret_def leaks_def is_ack_def is_pause_def)
  qed
  then obtain s1 es where s1: "get_pool env cfg (p_pool s) s = (Inr True, s1)" "trace s1 = trace s @ es"
    "list_all leaks es" "held es = 0" "filter is_pause es = []" by blast
  let ?s2 = "p_pool_update (\<lambda>_. True) s1"
  have "list_all (\<lambda>e. \<not> is_ack e) (trace ?s2)" using assms(2) s1 leaks_not_ack by simp
  then have get: "if held (trace ?s2) < int pool_max then ok_reply (env (trace ?s2) GetConn)
      else env (trace ?s2) GetConn = Fail pool_exhausted"
    using assms(1) unfolding redelivers_def by blast
  have held: "held (trace ?s2) = held (trace s)" using s1 by simp
  obtain r s3 where c: "call_unit env GetConn ?s2 = (r, s3)" by fastforce
  have tr: "trace s3 = trace ?s2 @ [(GetConn, env (trace ?s2) GetConn)]"
    using call_unit_trace [of env GetConn ?s2] c by simp
  have r: "r = (if held (trace s) < int pool_max then Inr () else Inl pool_exhausted)"
    using get c unfolding held
    by (auto simp: call_unit_def call_def Let_def bindP_def ret_def ok_reply_def split: if_splits reply.splits)
  have "get_conn env cfg s = (r, if held (trace s) < int pool_max then p_conn_update (\<lambda>_. True) s3 else s3)"
    using s1(1) c r by (simp add: get_conn_def bindP_def getP_def updP_def)
  moreover have "held (trace s3) = one_more (held (trace s))"
    using tr get held s1(2,4) by (auto simp: one_more_def ok_reply_def split: if_splits)
  ultimately show ?thesis
    using r tr s1(2,3,5)
    by (intro exI [of _ r] exI [of _ "if held (trace s) < int pool_max then p_conn_update (\<lambda>_. True) s3 else s3"]
        exI [of _ "es @ [(GetConn, env (trace ?s2) GetConn)]"])
      (simp add: leaks_def is_ack_def is_pause_def)
qed

lemma reconnect_round:
  fixes s :: "'z pworld_scheme"
  assumes "(m, NotObject) \<in> set (parse_messages lb ms)" "redelivers env cfg stream ms"
    "list_all (\<lambda>e. \<not> is_ack e) (trace s)"
  shows "\<exists>s' es. reconnect env lb fuel (Suc rounds) (Suc tries) cfg s = reconnect env lb fuel (Suc rounds) tries cfg s'
    \<and> trace s' = trace s @ es \<and> list_all leaks es \<and> held (trace s') = one_more (held (trace s))
    \<and> length (filter is_pause es) = 1"
proof -
  obtain r s1 es1 where 1: "get_conn env cfg s = (r, s1)" "trace s1 = trace s @ es1" "list_all leaks es1"
    "r = (if held (trace s) < int pool_max then Inr () else Inl pool_exhausted)"
    "held (trace s1) = one_more (held (trace s))" "filter is_pause es1 = []"
    using get_conn_runs [OF assms(2,3)] by blast
  have ack1: "list_all (\<lambda>e. \<not> is_ack e) (trace s1)" using 1 assms(3) leaks_not_ack by simp
  obtain s2 es2 e where 2: "bindP (get_conn env cfg) (\<lambda>_. bindP (recover_pending env lb fuel (Suc rounds) cfg)
      (\<lambda>_. ret True)) s = (Inl e, s2)" "is_Exception e" "trace s2 = trace s1 @ es2" "list_all leaks es2"
    "held es2 = 0" "filter is_pause es2 = []"
  proof (cases "held (trace s) < int pool_max")
    case True
    obtain s2 es2 where "recover_pending env lb fuel (Suc rounds) cfg s1 = (Inl (AttributeError ''get''), s2)"
      "trace s2 = trace s1 @ es2" "list_all leaks es2" "held es2 = 0" "filter is_pause es2 = []"
      using recover_poison [OF assms(1,2) ack1] by blast
    with True 1(1,4) show thesis
      by (intro that [of "AttributeError ''get''" s2 es2]) (simp_all add: bindP_def del: recover_pending.simps)
  next
    case False
    with 1(1,4) show thesis
      by (intro that [of pool_exhausted s1 "[]"]) (simp_all add: bindP_def pool_exhausted_def)
  qed
  let ?s3 = "s2\<lparr>trace := trace s2 @ [(Sleep 10, env (trace s2) (Sleep 10))]\<rparr>"
  have "list_all (\<lambda>e. \<not> is_ack e) (trace s2)" using ack1 2 leaks_not_ack by simp
  then have "ok_reply (env (trace s2) (Sleep 10))" using assms(2) unfolding redelivers_def by blast
  then have 3: "call_unit env (Sleep 10) s2 = (Inr (), ?s3)" by (simp add: call_unit_Inr)
  have round: "tryP (bindP (get_conn env cfg) (\<lambda>_. bindP (recover_pending env lb fuel (Suc rounds) cfg)
      (\<lambda>_. ret True))) is_Exception (\<lambda>_. bindP (call_unit env (Sleep 10)) (\<lambda>_. ret False)) s = (Inr False, ?s3)"
    using 2(2) 3 by (simp add: tryP_def 2(1) bindP_def [of "call_unit env (Sleep 10)"] ret_def del: recover_pending.simps)
  have "reconnect env lb fuel (Suc rounds) (Suc tries) cfg s = reconnect env lb fuel (Suc rounds) tries cfg ?s3"
    by (simp add: bindP_def [of "tryP _ _ _"] round del: recover_pending.simps)
  moreover have "trace ?s3 = trace s @ (es1 @ es2 @ [(Sleep 10, env (trace s2) (Sleep 10))])"
    using 1(2) 2(3) by simp
  moreover have "list_all leaks (es1 @ es2 @ [(Sleep 10, env (trace s2) (Sleep 10))])"
    using 1(3) 2(4) by (simp add: leaks_def is_ack_def)
  moreover have "held (trace ?s3) = one_more (held (trace s))" using 1(5) 2(3,5) by simp
  moreover have "length (filter is_pause (es1 @ es2 @ [(Sleep 10, env (trace s2) (Sleep 10))])) = 1"
    using 1(6) 2(6) by (simp add: is_pause_def)
  ultimately show ?thesis by blast
qed

text \<open>
  C6: One message whose payload is JSON but no object stops the consumer for good. Its batch
  raises before any other call; after a failure the reconnection loop reads the batch again,
  raises again, and so on without end: however many rounds it is given, it does not come back and
  acknowledges nothing, each round ends in a pause of ten seconds, and each round takes a
  connection from the pool and never gives one back, until all ten are taken and it cannot even
  read the batch any more.
\<close>

theorem poison_never_drains:
  fixes s :: "'z pworld_scheme"
  assumes "(m, NotObject) \<in> set (parse_messages lb ms)" "redelivers env cfg stream ms"
    "list_all (\<lambda>e. \<not> is_ack e) (trace s)" "held (trace s) \<le> int pool_max"
  shows "\<exists>s' es. reconnect env lb fuel (Suc rounds) tries cfg s = (Inl NoReturn, s')
    \<and> trace s' = trace s @ es \<and> list_all leaks es \<and> length (filter is_pause es) = tries
    \<and> held (trace s') = min (held (trace s) + int tries) (int pool_max)"
  using assms(3,4)
proof (induction tries arbitrary: s)
  case 0
  then show ?case by (simp add: throw_def)
next
  case (Suc n)
  obtain s1 es1 where 1: "reconnect env lb fuel (Suc rounds) (Suc n) cfg s = reconnect env lb fuel (Suc rounds) n cfg s1"
    "trace s1 = trace s @ es1" "list_all leaks es1" "held (trace s1) = one_more (held (trace s))"
    "length (filter is_pause es1) = 1"
    using reconnect_round [OF assms(1,2) Suc.prems(1)] by blast
  have "list_all (\<lambda>e. \<not> is_ack e) (trace s1)" using 1 Suc.prems leaks_not_ack by simp
  moreover have "held (trace s1) \<le> int pool_max" using 1(4) Suc.prems(2) by (simp add: one_more_def)
  ultimately obtain s2 es2 where 2: "reconnect env lb fuel (Suc rounds) n cfg s1 = (Inl NoReturn, s2)"
    "trace s2 = trace s1 @ es2" "list_all leaks es2" "length (filter is_pause es2) = n"
    "held (trace s2) = min (held (trace s1) + int n) (int pool_max)"
    using Suc.IH by blast
  have "held (trace s2) = min (held (trace s) + int (Suc n)) (int pool_max)"
    using 2(5) 1(4) Suc.prems(2) by (simp add: one_more_def min_def split: if_splits)
  with 1(1-3,5) 2(1-4) show ?case
    by (intro exI [of _ s2] exI [of _ "es1 @ es2"]) simp
qed

lemma small_world_redelivers:
  "redelivers (small_world 0 ''[]'') small_config ''articles'' [(''1-0'', [(''article'', ''[]'')])]"
proof -
  have "list_all (\<lambda>e. \<not> is_ack e) tr \<Longrightarrow> \<not> list_ex is_ack tr" for tr
    by (simp add: list_all_iff list_ex_iff)
  then show ?thesis by (simp add: redelivers_def small_world_def ok_reply_def)
qed

theorem poison_never_drains_witness:
  "\<exists>s' es. reconnect (small_world 0 ''[]'') small_lib 5 (Suc 5) 20 small_config begin_state = (Inl NoReturn, s')
     \<and> trace s' = trace begin_state @ es \<and> list_all leaks es \<and> length (filter is_pause es) = 20
     \<and> held (trace s') = 10"
proof -
  have "(''1-0'', NotObject) \<in> set (parse_messages small_lib [(''1-0'', [(''article'', ''[]'')])])"
    by (simp add: parse_messages_def parse_message_def small_lib_def)
  from poison_never_drains [OF this small_world_redelivers, of begin_state 5 5 20]
  show ?thesis by (simp add: begin_state_def pool_max_def)
qed

section \<open>The books of the small world\<close>

theorem gather_accounts_witness:
  "\<exists>t rows s'. small_gather = (Inr (t, rows), s') \<and>
     length small_batch = length (filter (\<lambda>m. \<not> parsable small_lib m) small_batch) + total (t_stats t) + length rows"
  using small_gather_result gather_accounts unfolding small_gather_def by blast

theorem gather_rows_witness:
  "\<exists>t rows s'. small_gather = (Inr (t, rows), s') \<and> length rows = 1 \<and>
     list_all (row_ok small_lib small_config) rows \<and> p_seen s' = window (map r_hash rows)"
proof -
  obtain t rows s' where g: "small_gather = (Inr (t, rows), s')" "length rows = 1"
    using small_gather_result by blast
  have "length (p_seen begin_state) \<le> seen_max" "length small_batch \<le> seen_max"
    by (simp_all add: begin_state_def small_batch_def seen_max_def)
  from gather_rows [OF g(1) [unfolded small_gather_def] this] g show ?thesis
    by (intro exI [of _ t] exI [of _ rows] exI [of _ s']) (simp add: begin_state_def)
qed

end
