(* ===== verification/Chunker.thy ===== *)
theory Chunker
  imports Regex
begin

text \<open>
  \<open>py-processor/chunker.py\<close>: cutting a Markdown document into chunks for retrieval:
  sections at headings, then oversize sections at paragraph boundaries with a carried tail.
  Sizes are Python integers, so target, overlap and minimum are \<^typ>\<open>int\<close>.

  The lemmas give the shape of the result: no line and no paragraph is lost or reordered,
  each chunk repeats at most the allowed tail of its predecessor, and its size is bounded.
\<close>

section \<open>Sections\<close>

definition heading_re :: regex where
  "heading_re = seqs [Bol, Grp 1 (rep1 6 (ch CHR ''#'')), plus1 spc,
     Grp 2 (Seq (Star dot) nspc), Star spc, Eol]"

text \<open>The level and the title of a heading line.\<close>

definition heading :: "string \<Rightarrow> (nat \<times> string) option" where
  "heading line = (case re_match heading_re line of
     None \<Rightarrow> None
   | Some (st, caps) \<Rightarrow> Some (length (group 1 caps), group 2 caps))"

type_synonym section_t = "string list \<times> string"

definition close_section :: "string list \<Rightarrow> string list \<Rightarrow> section_t" where
  "close_section path current = (path, strip (join [lf] current))"

fun parse_loop :: "string list \<Rightarrow> section_t list \<Rightarrow> string list \<Rightarrow> string list \<Rightarrow> section_t list" where
  "parse_loop path sections current [] =
     (if current \<noteq> [] then sections @ [close_section path current] else sections)"
| "parse_loop path sections current (line # ls) = (case heading line of
     Some (level, title) \<Rightarrow>
       parse_loop (take (level - 1) path @ [title])
         (if current \<noteq> [] then sections @ [close_section path current] else sections)
         [line] ls
   | None \<Rightarrow> parse_loop path sections (current @ [line]) ls)"

definition parse_sections :: "string \<Rightarrow> section_t list" where
  "parse_sections text = filter (\<lambda>sec. snd sec \<noteq> []) (parse_loop [] [] [] (splitlines text))"

section \<open>Paragraphs\<close>

definition nn :: string where
  "nn = [lf, lf]"

definition len :: "string \<Rightarrow> int" where
  "len s = int (length s)"

text \<open>The inner loop: trailing paragraphs, last first, while they fit into the overlap.\<close>

fun carry_back :: "int \<Rightarrow> int \<Rightarrow> string list \<Rightarrow> string list \<Rightarrow> string list" where
  "carry_back overlap carry_len carry [] = carry"
| "carry_back overlap carry_len carry (p # ps) =
     (if carry_len + len p + 2 > overlap then carry
      else carry_back overlap (carry_len + len p + 2) (p # carry) ps)"

fun split_loop ::
  "int \<Rightarrow> int \<Rightarrow> string list \<Rightarrow> string list \<Rightarrow> int \<Rightarrow> string list \<Rightarrow> string list" where
  "split_loop target overlap chunks buf buf_len [] =
     (if buf \<noteq> [] then chunks @ [join nn buf] else chunks)"
| "split_loop target overlap chunks buf buf_len (para # ps) =
     (if buf \<noteq> [] \<and> buf_len + len para + 2 > target
      then (let carry = carry_back overlap 0 [] (rev buf);
                l = sum_list (map len carry) + 2 * max 0 (int (length carry) - 1)
            in split_loop target overlap (chunks @ [join nn buf]) (carry @ [para])
                 (l + len para + (if l \<noteq> 0 then 2 else 0)) ps)
      else split_loop target overlap chunks (buf @ [para])
             (buf_len + len para + (if buf_len \<noteq> 0 then 2 else 0)) ps)"

definition split_paragraphs :: "string list \<Rightarrow> int \<Rightarrow> int \<Rightarrow> string list" where
  "split_paragraphs paragraphs target overlap = split_loop target overlap [] [] 0 paragraphs"

section \<open>Chunks\<close>

definition blank_line_re :: regex where
  "blank_line_re = seqs [ch lf, Star spc, ch lf]"

definition paragraphs_of :: "string \<Rightarrow> string list" where
  "paragraphs_of body = filter (\<lambda>p. p \<noteq> []) (map strip (re_split blank_line_re body))"

text \<open>Leading paragraphs made of heading lines only become the prefix.\<close>

fun pop_headings :: "string \<Rightarrow> string list \<Rightarrow> string \<times> string list" where
  "pop_headings pre [] = (pre, [])"
| "pop_headings pre (p # ps) =
     (if list_all (\<lambda>l. heading l \<noteq> None) (splitlines p)
      then pop_headings (strip (pre @ nn @ p)) ps else (pre, p # ps))"

record chunk =
  c_text :: string
  c_path :: "string list"

definition section_chunks :: "int \<Rightarrow> int \<Rightarrow> int \<Rightarrow> section_t \<Rightarrow> chunk list" where
  "section_chunks target overlap min_chars sec = (case sec of (path, body) \<Rightarrow>
     if len body \<le> target
     then (if len body \<ge> min_chars then [\<lparr>c_text = body, c_path = path\<rparr>] else [])
     else (case pop_headings [] (paragraphs_of body) of (pre, paragraphs) \<Rightarrow>
       map (\<lambda>full. \<lparr>c_text = full, c_path = path\<rparr>)
         (filter (\<lambda>full. len full \<ge> min_chars)
           (map (\<lambda>piece. if pre \<noteq> [] then strip (pre @ nn @ piece) else piece)
             (split_paragraphs paragraphs target overlap)))))"

definition split_markdown :: "string \<Rightarrow> int \<Rightarrow> int \<Rightarrow> int \<Rightarrow> chunk list" where
  "split_markdown text target overlap min_chars =
     concat (map (section_chunks target overlap min_chars) (parse_sections text))"

section \<open>Headings\<close>

lemma rep1_hash: "inlang (rep1 n (ch c)) w \<Longrightarrow> length w \<le> n \<and> (0 < n \<longrightarrow> 0 < length w)"
proof (induction n "ch c" arbitrary: w rule: rep1.induct)
  case 1
  then show ?case by auto
next
  case 2
  then show ?case by (auto simp: ch_def)
next
  case (3 n)
  then obtain u v where w: "w = u @ v" "inlang (ch c) u" "inlang (opt (rep1 (Suc n) (ch c))) v"
    by auto
  then have "length u = 1" by (auto simp: ch_def)
  moreover have "length v \<le> Suc n"
    using w(3) "3.hyps" by (auto simp: opt_def)
  ultimately show ?case using w(1) by simp
qed

lemma heading_facts:
  assumes "heading line = Some (level, title)"
  shows "1 \<le> level \<and> level \<le> 6 \<and> title \<noteq> [] \<and> \<not> is_space (last title)"
proof -
  obtain st caps where m: "re_match heading_re line = Some (st, caps)"
    and l: "level = length (group 1 caps)" and t: "title = group 2 caps"
    using assms by (auto simp: heading_def split: option.splits)
  have "\<exists>r'. (1, r') \<in> set (groups heading_re) \<and> inlang r' (group 1 caps)"
    by (rule group_captured [OF m]) (simp add: heading_re_def plus1_def)
  then have "inlang (rep1 6 (ch CHR ''#'')) (group 1 caps)"
    by (auto simp: heading_re_def plus1_def spc_def dot_def nspc_def ch_def opt_def numeral_eq_Suc)
  then have "length (group 1 caps) \<le> 6" "0 < length (group 1 caps)"
    using rep1_hash by fastforce+
  moreover have "\<exists>r'. (2, r') \<in> set (groups heading_re) \<and> inlang r' (group 2 caps)"
    by (rule group_captured [OF m]) (simp add: heading_re_def plus1_def)
  then have "inlang (Seq (Star dot) nspc) (group 2 caps)"
    by (auto simp: heading_re_def plus1_def spc_def dot_def nspc_def ch_def opt_def numeral_eq_Suc)
  then have "group 2 caps \<noteq> [] \<and> \<not> is_space (last (group 2 caps))"
    by (auto simp: nspc_def)
  ultimately show ?thesis using l t by (simp add: Suc_le_eq)
qed


section \<open>Sections cover the document\<close>

text \<open>
  What a section made from a path and a group of lines has to satisfy: only its first line may
  be a heading, and then the path ends in that heading's title and is no longer than its level.
\<close>

definition section_ok :: "string list \<Rightarrow> string list \<Rightarrow> bool" where
  "section_ok path ls \<longleftrightarrow> ls \<noteq> [] \<and> list_all (\<lambda>l. heading l = None) (tl ls) \<and>
     (case heading (hd ls) of None \<Rightarrow> path = []
      | Some (level, title) \<Rightarrow> path \<noteq> [] \<and> last path = title \<and> length path \<le> level)"

definition starts_with_heading :: "string list \<Rightarrow> bool" where
  "starts_with_heading ls \<longleftrightarrow> (ls \<noteq> [] \<and> heading (hd ls) \<noteq> None)"

abbreviation close_all :: "(string list \<times> string list) list \<Rightarrow> section_t list" where
  "close_all gs \<equiv> map (\<lambda>(path, ls). close_section path ls) gs"

lemma section_ok_snoc:
  "section_ok path ls \<Longrightarrow> heading l = None \<Longrightarrow> section_ok path (ls @ [l])"
  by (auto simp: section_ok_def)

lemma section_ok_new:
  assumes "heading l = Some (level, title)"
  shows "section_ok (take (level - 1) path @ [title]) [l]"
  using heading_facts [OF assms] assms by (auto simp: section_ok_def min_def)

lemma parse_loop_groups:
  assumes "section_ok path current"
  shows "\<exists>gs. parse_loop path sections current ls = sections @ close_all gs
      \<and> concat (map snd gs) = current @ ls \<and> list_all (\<lambda>(p, g). section_ok p g) gs
      \<and> gs \<noteq> [] \<and> hd (snd (hd gs)) = hd current \<and> list_all (starts_with_heading \<circ> snd) (tl gs)"
  using assms
proof (induction ls arbitrary: path sections current)
  case Nil
  then show ?case by (intro exI [of _ "[(path, current)]"]) (auto simp: section_ok_def)
next
  case (Cons l ls)
  have ne: "current \<noteq> []" using Cons.prems by (simp add: section_ok_def)
  show ?case
  proof (cases "heading l")
    case None
    with Cons.IH [OF section_ok_snoc [OF Cons.prems]] ne show ?thesis by simp
  next
    case (Some lt)
    obtain level title where lt: "lt = (level, title)" by fastforce
    obtain gs where gs: "parse_loop (take (level - 1) path @ [title])
          (sections @ [close_section path current]) [l] ls
        = (sections @ [close_section path current]) @ close_all gs"
      "concat (map snd gs) = [l] @ ls" "list_all (\<lambda>(p, g). section_ok p g) gs" "gs \<noteq> []"
      "hd (snd (hd gs)) = l" "list_all (starts_with_heading \<circ> snd) (tl gs)"
      using Cons.IH [OF section_ok_new [of l level title path]] Some lt by (metis list.sel(1))
    have "list_all (starts_with_heading \<circ> snd) gs"
      using gs Some by (cases gs) (auto simp: starts_with_heading_def section_ok_def)
    then show ?thesis
      using gs Some lt ne Cons.prems by (intro exI [of _ "(path, current) # gs"]) (simp add: comp_def)
  qed
qed

text \<open>
  C34: No line of the document is lost, duplicated or reordered by the section parser: the
  sections are the non-empty closings of groups of lines whose concatenation is the document's
  lines; every group after the first starts at a heading line and no other line of a group is a
  heading, and the heading path of a group ends in its own heading's title.
\<close>

theorem parse_sections_lossless:
  "\<exists>gs. parse_sections text = filter (\<lambda>sec. snd sec \<noteq> []) (close_all gs)
     \<and> concat (map snd gs) = splitlines text
     \<and> list_all (\<lambda>(path, ls). section_ok path ls) gs
     \<and> list_all (starts_with_heading \<circ> snd) (tl gs)"
proof (cases "splitlines text")
  case Nil
  then show ?thesis by (intro exI [of _ "[]"]) (simp add: parse_sections_def)
next
  case (Cons l ls)
  obtain path where step: "parse_loop [] [] [] (l # ls) = parse_loop path [] [l] ls"
      and ok: "section_ok path [l]"
  proof (cases "heading l")
    case None
    then show ?thesis using that [of "[]"] by (simp add: section_ok_def)
  next
    case (Some lt)
    then show ?thesis using that section_ok_new [of l "fst lt" "snd lt" "[]"] by (cases lt) auto
  qed
  from parse_loop_groups [OF ok, of "[]" ls] step Cons show ?thesis
    by (auto simp: parse_sections_def)
qed

section \<open>Paragraph groups\<close>

definition carry_size :: "string list \<Rightarrow> int" where
  "carry_size ps = sum_list (map (\<lambda>p. len p + 2) ps)"

lemma carry_size_simps [simp]:
  "carry_size [] = 0" "carry_size (p # ps) = len p + 2 + carry_size ps"
  "carry_size (ps @ qs) = carry_size ps + carry_size qs"
  by (simp_all add: carry_size_def)

lemma len_nonneg [simp]: "0 \<le> len s"
  by (simp add: len_def)

lemma carry_back_shape:
  "\<exists>k. carry_back ov cl c ps = rev (take k ps) @ c \<and> k \<le> length ps
     \<and> (0 < k \<longrightarrow> cl + carry_size (take k ps) \<le> ov)
     \<and> (k < length ps \<longrightarrow> ov < cl + carry_size (take (Suc k) ps))"
proof (induction ps arbitrary: cl c)
  case Nil
  then show ?case by simp
next
  case (Cons p ps)
  show ?case
  proof (cases "cl + len p + 2 > ov")
    case True
    then show ?thesis by (intro exI [of _ 0]) simp
  next
    case False
    obtain k where k: "carry_back ov (cl + len p + 2) (p # c) ps = rev (take k ps) @ (p # c)"
      "k \<le> length ps" "0 < k \<longrightarrow> cl + len p + 2 + carry_size (take k ps) \<le> ov"
      "k < length ps \<longrightarrow> ov < cl + len p + 2 + carry_size (take (Suc k) ps)"
      using Cons.IH by blast
    then show ?thesis using False by (intro exI [of _ "Suc k"]) (cases k, auto)
  qed
qed

text \<open>The carried tail is the longest suffix of the finished group that fits into the overlap.\<close>

definition tail_of :: "int \<Rightarrow> string list \<Rightarrow> string list \<Rightarrow> bool" where
  "tail_of ov grp c \<longleftrightarrow> suffix c grp \<and> carry_size c \<le> max 0 ov \<and>
     (\<forall>d. suffix d grp \<longrightarrow> carry_size d \<le> ov \<longrightarrow> length d \<le> length c)"

lemma carry_size_suffix_mono: "suffix c d \<Longrightarrow> carry_size c \<le> carry_size d"
proof -
  have "0 \<le> carry_size ps" for ps by (induction ps) simp_all
  then show "suffix c d \<Longrightarrow> carry_size c \<le> carry_size d" by (auto simp: suffix_def)
qed

lemma carry_size_rev: "carry_size (rev ps) = carry_size ps"
  by (induction ps) simp_all

lemma suffix_of_longer: "suffix c grp \<Longrightarrow> suffix d grp \<Longrightarrow> length c \<le> length d \<Longrightarrow> suffix c d"
  using suffix_length_suffix by blast

lemma carry_back_tail: "tail_of ov grp (carry_back ov 0 [] (rev grp))"
proof -
  obtain k where k: "carry_back ov 0 [] (rev grp) = rev (take k (rev grp))" "k \<le> length grp"
    "0 < k \<longrightarrow> carry_size (take k (rev grp)) \<le> ov"
    "k < length grp \<longrightarrow> ov < carry_size (take (Suc k) (rev grp))"
    using carry_back_shape [of ov 0 "[]" "rev grp"] by auto
  have suf: "suffix (rev (take j (rev grp))) grp" for j
    by (simp add: suffix_to_prefix take_is_prefix)
  have "length d \<le> k" if d: "suffix d grp" "carry_size d \<le> ov" for d
  proof (rule ccontr)
    assume "\<not> length d \<le> k"
    then have l: "Suc k \<le> length d" "k < length grp" using suffix_length_le [OF d(1)] by auto
    have "suffix (rev (take (Suc k) (rev grp))) d"
      by (rule suffix_of_longer [OF suf d(1)]) (use l in simp)
    from carry_size_suffix_mono [OF this]
    have "carry_size (take (Suc k) (rev grp)) \<le> carry_size d" by (simp only: carry_size_rev)
    with k(4) d(2) l(2) show False by simp
  qed
  moreover have "carry_size (rev (take k (rev grp))) \<le> max 0 ov"
    using k(3) by (cases k) (auto simp: carry_size_rev)
  ultimately show ?thesis using k suf [of k] by (simp add: tail_of_def)
qed

text \<open>
  The specification of the splitter: a sequence of pairs of a carried tail and new paragraphs,
  each carrying the longest fitting tail of the group before it and adding something new.
\<close>

fun chained :: "int \<Rightarrow> string list \<Rightarrow> (string list \<times> string list) list \<Rightarrow> bool" where
  "chained ov prev [] = True"
| "chained ov prev ((c, n) # gs) = (tail_of ov prev c \<and> n \<noteq> [] \<and> chained ov (c @ n) gs)"

abbreviation groups_text :: "(string list \<times> string list) list \<Rightarrow> string list" where
  "groups_text gs \<equiv> map (\<lambda>(c, n). join nn (c @ n)) gs"

lemma tail_of_Nil: "tail_of ov [] []"
  by (simp add: tail_of_def)

lemma split_loop_chained:
  assumes "n \<noteq> []" "tail_of ov prev c"
  shows "\<exists>gs. split_loop target ov chunks (c @ n) bl ps = chunks @ groups_text gs
      \<and> chained ov prev gs \<and> concat (map snd gs) = n @ ps"
  using assms
proof (induction ps arbitrary: chunks c n bl prev)
  case Nil
  then show ?case by (intro exI [of _ "[(c, n)]"]) simp
next
  case (Cons p ps)
  show ?case
  proof (cases "bl + len p + 2 > target")
    case True
    let ?c = "carry_back ov 0 [] (rev (c @ n))"
    have c: "tail_of ov (c @ n) ?c" by (rule carry_back_tail)
    obtain gs where "split_loop target ov (chunks @ [join nn (c @ n)]) (?c @ [p])
          (let l = sum_list (map len ?c) + 2 * max 0 (int (length ?c) - 1)
           in l + len p + (if l \<noteq> 0 then 2 else 0)) ps
        = (chunks @ [join nn (c @ n)]) @ groups_text gs"
      "chained ov (c @ n) gs" "concat (map snd gs) = [p] @ ps"
      using Cons.IH [OF _ c, of "[p]"] by blast
    then show ?thesis
      using True Cons.prems by (intro exI [of _ "(c, n) # gs"]) (simp add: Let_def)
  next
    case False
    then show ?thesis using Cons.IH [of "n @ [p]" prev c] Cons.prems by simp
  qed
qed

text \<open>
  C32: Splitting an oversize section loses no paragraph and keeps their order: the chunks are
  the joins of groups of a carried part and new paragraphs, the new parts concatenate to the
  section's paragraphs, every chunk adds at least one, and what it carries is exactly the
  longest tail of the previous chunk that fits into the overlap.
\<close>

theorem split_paragraphs_chained:
  "\<exists>gs. split_paragraphs ps target ov = groups_text gs
     \<and> chained ov [] gs \<and> concat (map snd gs) = ps"
proof (cases ps)
  case Nil
  then show ?thesis by (intro exI [of _ "[]"]) (simp add: split_paragraphs_def)
next
  case (Cons p qs)
  then show ?thesis
    using split_loop_chained [of "[p]" ov "[]" "[]" target "[]" "len p" qs] tail_of_Nil
    by (simp add: split_paragraphs_def)
qed

lemma len_join_nn: "len (join nn ps) = sum_list (map len ps) + 2 * max 0 (int (length ps) - 1)"
  by (induction ps) (auto simp: join_Cons len_def nn_def)

lemma len_join_snoc:
  "len (join nn (ps @ [p])) = len (join nn ps) + len p + (if ps \<noteq> [] then 2 else 0)"
  by (simp add: join_snoc len_def nn_def)

lemma len_join_zero:
  "list_all (\<lambda>p. p \<noteq> []) ps \<Longrightarrow> len (join nn ps) = 0 \<longleftrightarrow> ps = []"
  by (cases ps) (auto simp: join_Cons len_def)

lemma len_join_carry: "len (join nn ps) + (if ps \<noteq> [] then 2 else 0) \<le> max 0 (carry_size ps)"
proof -
  have "carry_size ps = sum_list (map len ps) + 2 * int (length ps)"
    by (induction ps) simp_all
  then show ?thesis by (auto simp: len_join_nn)
qed

text \<open>The running length is the length of the buffer's text, so it bounds what is emitted.\<close>

lemma split_loop_bound:
  assumes "\<forall>p \<in> set ps. p \<noteq> [] \<and> len p \<le> L" "list_all (\<lambda>p. p \<noteq> []) buf" "0 \<le> L"
    "bl = len (join nn buf)" "bl \<le> max target (max 0 ov + L)"
    "\<forall>ch \<in> set chunks. len ch \<le> max target (max 0 ov + L)"
  shows "\<forall>ch \<in> set (split_loop target ov chunks buf bl ps). len ch \<le> max target (max 0 ov + L)"
  using assms
proof (induction ps arbitrary: chunks buf bl)
  case Nil
  then show ?case by simp
next
  case (Cons p ps)
  show ?case
  proof (cases "buf \<noteq> [] \<and> bl + len p + 2 > target")
    case True
    let ?c = "carry_back ov 0 [] (rev buf)"
    have t: "tail_of ov buf ?c" by (rule carry_back_tail)
    have ne: "list_all (\<lambda>p. p \<noteq> []) ?c"
      using t Cons.prems(2) by (auto simp: tail_of_def list_all_iff dest: set_mono_suffix)
    have "len (join nn ?c) + (if ?c \<noteq> [] then 2 else 0) \<le> max 0 ov"
      using len_join_carry [of ?c] t unfolding tail_of_def by linarith
    moreover have "len p \<le> L" using Cons.prems(1) by simp
    ultimately have "len (join nn (?c @ [p])) \<le> max 0 ov + L"
      unfolding len_join_snoc by linarith
    then have "\<forall>ch \<in> set (split_loop target ov (chunks @ [join nn buf]) (?c @ [p])
        (len (join nn (?c @ [p]))) ps). len ch \<le> max target (max 0 ov + L)"
      using Cons.prems ne by (intro Cons.IH) auto
    moreover have "len (join nn (?c @ [p])) = len (join nn ?c) + len p
        + (if len (join nn ?c) \<noteq> 0 then 2 else 0)"
      using len_join_zero [OF ne] by (simp only: len_join_snoc)
    ultimately show ?thesis
      using True by (simp only: split_loop.simps if_True if_False simp_thms Let_def len_join_nn [symmetric])
  next
    case False
    have "len p \<le> L" using Cons.prems(1) by simp
    then have "len (join nn (buf @ [p])) \<le> max target (max 0 ov + L)"
      using False Cons.prems(4) len_join_snoc [of buf p]
      by (cases "buf = []") (auto simp: len_def)
    then have "\<forall>ch \<in> set (split_loop target ov chunks (buf @ [p]) (len (join nn (buf @ [p]))) ps).
        len ch \<le> max target (max 0 ov + L)"
      using Cons.prems by (intro Cons.IH) auto
    moreover have "len (join nn (buf @ [p])) = bl + len p + (if bl \<noteq> 0 then 2 else 0)"
      using len_join_zero [OF Cons.prems(2)] Cons.prems(4) by (simp only: len_join_snoc)
    ultimately show ?thesis
      using False by (simp only: split_loop.simps if_False)
  qed
qed

text \<open>
  C33: The size of a chunk is bounded. Paragraphs are never cut, so no bound by the target
  alone holds; but a chunk is never longer than the target, or than the allowed overlap plus
  the longest paragraph, whichever is larger.
\<close>

theorem split_paragraphs_bounded:
  assumes "\<forall>p \<in> set ps. p \<noteq> [] \<and> len p \<le> L" "0 \<le> L" "chunk \<in> set (split_paragraphs ps target ov)"
  shows "len chunk \<le> max target (max 0 ov + L)"
  using assms split_loop_bound [of ps L "[]" 0 target ov "[]"]
  by (auto simp: split_paragraphs_def len_def)

theorem split_paragraphs_bounded_witness:
  "len ''bbb'' \<le> max 4 (max 0 2 + 3)"
  by (rule split_paragraphs_bounded [of "[''aaa'', ''bbb'']" 3 "''bbb''" 4 2])
    (auto simp: split_paragraphs_def len_def Let_def nn_def)

section \<open>Documents\<close>

lemma parse_loop_paths:
  "list_all (\<lambda>sec. length (fst sec) \<le> 6) sections \<Longrightarrow> length path \<le> 6 \<Longrightarrow>
   list_all (\<lambda>sec. length (fst sec) \<le> 6) (parse_loop path sections current ls)"
proof (induction path sections current ls rule: parse_loop.induct)
  case (1 path sections current)
  then show ?case by (simp add: close_section_def)
next
  case (2 path sections current line ls)
  show ?case
  proof (cases "heading line")
    case None
    with 2 show ?thesis by simp
  next
    case (Some lt)
    obtain level title where lt: "lt = (level, title)" by fastforce
    then have "length (take (level - 1) path @ [title]) \<le> 6"
      using heading_facts [of line level title] Some by auto
    with 2 Some lt show ?thesis by (auto simp: close_section_def)
  qed
qed

lemma section_chunks_facts:
  assumes "c \<in> set (section_chunks target overlap min_chars sec)"
  shows "min_chars \<le> len (c_text c) \<and> c_path c = fst sec"
proof (cases "len (snd sec) \<le> target")
  case True
  with assms show ?thesis
    by (cases sec) (simp add: section_chunks_def split: if_splits)
next
  case False
  with assms show ?thesis
    by (cases sec) (fastforce simp: section_chunks_def case_prod_unfold)
qed

text \<open>
  What the ingestion job may rely on for every chunk of every document: it has at least the
  minimum length and its heading path names at most six levels.
\<close>

theorem split_markdown_chunks:
  assumes "c \<in> set (split_markdown text target overlap min_chars)"
  shows "min_chars \<le> len (c_text c) \<and> length (c_path c) \<le> 6"
proof -
  obtain sec where sec: "sec \<in> set (parse_sections text)"
    and c: "c \<in> set (section_chunks target overlap min_chars sec)"
    using assms by (auto simp: split_markdown_def)
  have "length (fst sec) \<le> 6"
    using sec parse_loop_paths [of "[]" "[]" "[]" "splitlines text"]
    by (auto simp: parse_sections_def list_all_iff)
  moreover have "min_chars \<le> len (c_text c) \<and> c_path c = fst sec"
    using c by (rule section_chunks_facts)
  ultimately show ?thesis by simp
qed

theorem split_markdown_chunks_witness:
  "3 \<le> len (c_text \<lparr>c_text = ''# A'', c_path = [''A'']\<rparr>)
   \<and> length (c_path \<lparr>c_text = ''# A'', c_path = [''A'']\<rparr>) \<le> 6"
proof (rule split_markdown_chunks)
  have "split_markdown ''# A'' 1200 150 3 = [\<lparr>c_text = ''# A'', c_path = [''A'']\<rparr>]"
    by code_simp
  then show "\<lparr>c_text = ''# A'', c_path = [''A'']\<rparr> \<in> set (split_markdown ''# A'' 1200 150 3)"
    by simp
qed

section \<open>Where documentation and code part\<close>

text \<open>
  A heading whose parent levels were skipped nests under its elder sibling: two level-three
  headings under one level-one heading get paths of different depth.
\<close>

theorem skipped_level_nests:
  "map c_path (split_markdown (''# A'' @ [lf] @ ''### B'' @ [lf] @ ''### C'') 1200 150 1)
   = [[''A''], [''A'', ''B''], [''A'', ''B'', ''C'']]"
  by code_simp

text \<open>
  A comment line of a fenced shell block is taken for a heading, so the block is cut in two
  although the module's documentation says code blocks are never hard-split.
\<close>

theorem fenced_comment_splits:
  "map c_text (split_markdown (''```'' @ [lf] @ ''# x'' @ [lf] @ ''```'') 1200 150 1)
   = [''```'', ''# x'' @ [lf] @ ''```'']"
  by code_simp

end
