(* ===== verification/Session.thy ===== *)
theory Session
  imports Store
begin

text \<open>
  What the batch programs of the processor share: a pooled connection that is taken for a
  block and given back on every way out (the \<open>try/finally\<close> around
  \<open>get_conn()\<close> and \<open>putconn\<close> of every export, probe and query), and files of
  one JSON object per line.
\<close>

section \<open>A connection for a block\<close>

record cworld = world +
  c_pool :: bool

definition take_conn :: "env \<Rightarrow> config \<Rightarrow> ('z cworld_scheme, unit) prog" where
  "take_conn env cfg =
     bindP (getP c_pool) (\<lambda>pool.
     bindP (get_pool env cfg pool) (\<lambda>pool'.
     bindP (updP (c_pool_update (\<lambda>_. pool'))) (\<lambda>_. call_unit env GetConn)))"

definition put_conn :: "env \<Rightarrow> ('z cworld_scheme, unit) prog" where
  "put_conn env = bindP (getP c_pool) (\<lambda>pool. if pool then call_unit env (PutConn False) else ret ())"

definition with_conn :: "env \<Rightarrow> config \<Rightarrow> ('z cworld_scheme, 'a) prog \<Rightarrow> ('z cworld_scheme, 'a) prog" where
  "with_conn env cfg body = bindP (take_conn env cfg) (\<lambda>_. finallyP body (put_conn env))"

definition is_conn :: "event \<Rightarrow> bool" where
  "is_conn e \<longleftrightarrow> (case fst e of GetConn \<Rightarrow> True | PutConn _ \<Rightarrow> True | _ \<Rightarrow> False)"

lemma emits_get_pool: "emits (\<lambda>e. \<not> is_conn e) (get_pool env cfg pool)"
  by (auto simp: get_pool_def is_conn_def intro!: emits_rules)

text \<open>
  The calls of a block: everything before the connection, the connection, the body, and the
  return. If the connection is refused, nothing else happens.
\<close>

definition given_back :: "event list \<Rightarrow> bool" where
  "given_back es \<longleftrightarrow> (\<exists>pre rest. es = pre @ rest \<and> list_all (\<lambda>e. \<not> is_conn e) pre \<and>
     (rest = [] \<or> (\<exists>x. rest = [(GetConn, x)] \<and> \<not> ok_reply x) \<or>
      (\<exists>x y body. rest = (GetConn, x) # body @ [(PutConn False, y)] \<and> ok_reply x \<and>
         list_all (\<lambda>e. \<not> is_conn e) body)))"

lemma take_conn_events:
  assumes "take_conn env cfg s = (r, s')"
  shows "\<exists>pre rest. trace s' = trace s @ pre @ rest \<and> list_all (\<lambda>e. \<not> is_conn e) pre \<and>
    (case r of Inr _ \<Rightarrow> c_pool s' \<and> (\<exists>x. rest = [(GetConn, x)] \<and> ok_reply x)
     | Inl _ \<Rightarrow> rest = [] \<or> (\<exists>x. rest = [(GetConn, x)] \<and> \<not> ok_reply x))"
proof -
  obtain p s1 where p: "get_pool env cfg (c_pool s) s = (p, s1)" by fastforce
  obtain pre where pre: "trace s1 = trace s @ pre" "list_all (\<lambda>e. \<not> is_conn e) pre"
    using emitsD [OF emits_get_pool p] by blast
  have pool: "p = Inr q \<Longrightarrow> q" for q
    using p by (auto simp: get_pool_def ret_def bindP_eq_Inr split: if_splits)
  show ?thesis
  proof (cases p)
    case (Inl e)
    with assms p pre show ?thesis
      by (intro exI [of _ pre] exI [of _ "[]"]) (auto simp: take_conn_def bindP_def getP_def)
  next
    case (Inr q)
    let ?s2 = "s1\<lparr>c_pool := q\<rparr>"
    have call: "call_unit env GetConn ?s2 = (r, s')"
      using assms p Inr by (simp add: take_conn_def bindP_def getP_def updP_def)
    then have "trace s' = trace s1 @ [(GetConn, env (trace s1) GetConn)]"
      using call_unit_trace [of env GetConn ?s2] by simp
    moreover have "case r of Inr _ \<Rightarrow> c_pool s' \<and> ok_reply (env (trace s1) GetConn)
        | Inl _ \<Rightarrow> \<not> ok_reply (env (trace s1) GetConn)"
      using call pool [OF Inr]
      by (cases "env (trace s1) GetConn")
        (auto simp: call_unit_def bindP_def ret_def call_def Let_def ok_reply_def)
    ultimately show ?thesis
      using pre by (intro exI [of _ pre] exI [of _ "[(GetConn, env (trace s1) GetConn)]"])
        (auto split: sum.splits)
  qed
qed

text \<open>
  Whatever the body of such a block does, as long as it handles no connections itself and
  leaves the pool in place, the connection that was taken is given back as the last call, also
  when the body raises.
\<close>

lemma with_conn_gives_back:
  fixes body :: "('z cworld_scheme, 'a) prog"
  assumes "emits (\<lambda>e. \<not> is_conn e) body" "keeps c_pool body"
  shows "\<exists>es. trace (snd (with_conn env cfg body s)) = trace s @ es \<and> given_back es"
proof -
  obtain r s1 where t: "take_conn env cfg s = (r, s1)" by fastforce
  from take_conn_events [OF t] obtain pre rest where tr: "trace s1 = trace s @ pre @ rest"
    "list_all (\<lambda>e. \<not> is_conn e) pre" and r: "case r of Inr _ \<Rightarrow> c_pool s1 \<and> (\<exists>x. rest = [(GetConn, x)] \<and> ok_reply x)
     | Inl _ \<Rightarrow> rest = [] \<or> (\<exists>x. rest = [(GetConn, x)] \<and> \<not> ok_reply x)"
    by blast
  show ?thesis
  proof (cases r)
    case (Inl e)
    have "given_back (pre @ rest)"
      unfolding given_back_def using tr(2) r Inl by auto
    with t tr(1) Inl show ?thesis by (auto simp: with_conn_def bindP_def)
  next
    case (Inr u)
    obtain b s2 where b: "body s1 = (b, s2)" by fastforce
    obtain bs where bs: "trace s2 = trace s1 @ bs" "list_all (\<lambda>e. \<not> is_conn e) bs"
      using emitsD [OF assms(1) b] by blast
    obtain x where x: "rest = [(GetConn, x)]" "ok_reply x" "c_pool s1" using r Inr by auto
    have "c_pool s2" using keepsD [OF assms(2) b] x(3) by simp
    then have "put_conn env s2 = call_unit env (PutConn False) s2"
      by (simp add: put_conn_def getP_def bindP_def)
    then have put: "trace (snd (put_conn env s2)) = trace s2 @ [(PutConn False, env (trace s2) (PutConn False))]"
      by (simp add: call_unit_trace)
    have "trace (snd (with_conn env cfg body s)) = trace (snd (put_conn env s2))"
      using t Inr b by (auto simp: with_conn_def bindP_def finallyP_def split: prod.split sum.split)
    moreover have "given_back (pre @ (GetConn, x) # bs @ [(PutConn False, env (trace s2) (PutConn False))])"
      unfolding given_back_def using tr(2) bs(2) x(2) by blast
    ultimately show ?thesis using put bs(1) tr(1) x(1) by auto
  qed
qed

text \<open>Apart from its body, such a block only deals with the pool.\<close>

definition pool_event :: "event \<Rightarrow> bool" where
  "pool_event e \<longleftrightarrow> (case fst e of OpenPool _ _ _ \<Rightarrow> True | GetConn \<Rightarrow> True | PutConn _ \<Rightarrow> True | _ \<Rightarrow> False)"

lemma emits_take_conn: "emits pool_event (take_conn env cfg)"
  by (auto simp: take_conn_def get_pool_def pool_event_def intro!: emits_rules)

lemma emits_put_conn: "emits pool_event (put_conn env)"
  by (auto simp: put_conn_def pool_event_def intro!: emits_rules)

lemma finally_Inr:
  "finallyP m k s = (Inr x, s') \<longleftrightarrow> (\<exists>s1 u. m s = (Inr x, s1) \<and> k s1 = (Inr u, s'))"
  by (auto simp: finallyP_def split: prod.splits sum.splits)

lemma with_conn_Inr:
  assumes "with_conn env cfg body s = (Inr x, s')"
  shows "\<exists>s1 s2 e1 e2. body s1 = (Inr x, s2) \<and> trace s1 = trace s @ e1 \<and> list_all pool_event e1
    \<and> trace s' = trace s2 @ e2 \<and> list_all pool_event e2"
proof -
  obtain s1 s2 where 1: "take_conn env cfg s = (Inr (), s1)" "body s1 = (Inr x, s2)"
    "put_conn env s2 = (Inr (), s')"
    using assms by (auto simp: with_conn_def bindP_eq_Inr finally_Inr)
  then show ?thesis
    using emitsD [OF emits_take_conn 1(1)] emitsD [OF emits_put_conn 1(3)] by blast
qed

lemma avoids_finally [avoids_rules]: "avoids p m \<Longrightarrow> avoids p k \<Longrightarrow> avoids p (finallyP m k)"
  by (fastforce simp: avoids_def finallyP_def split: prod.splits sum.splits)

lemma avoids_more_calls [avoids_rules]:
  assumes "env_avoids p env" "\<not> p bad_reply"
  shows "avoids p (call_articles env c)" "avoids p (call_pairs env c)"
  using assms unfolding call_articles_def call_pairs_def
  by (auto intro!: avoids_rules split: reply.split)

lemma avoids_with_conn [avoids_rules]:
  "env_avoids p env \<Longrightarrow> \<not> p bad_reply \<Longrightarrow> avoids p body \<Longrightarrow> avoids p (with_conn env cfg body)"
  unfolding with_conn_def take_conn_def put_conn_def get_pool_def
  by (auto intro!: avoids_rules)

lemma bindP_liftE: "bindP (liftE (Inr x)) f = f x" "bindP (liftE (Inl e)) f = throw e"
  by (simp_all add: fun_eq_iff bindP_def liftE_def throw_def)

section \<open>Triples about the trace\<close>

lemma triple_emits:
  assumes "emits P m"
  shows "triple (\<lambda>s. list_all P (trace s)) m (\<lambda>_ s. list_all P (trace s)) (\<lambda>_ s. list_all P (trace s))"
proof (rule tripleI)
  fix s x s' assume "list_all P (trace s)" "m s = (Inr x, s')"
  then show "list_all P (trace s')" using emitsD [OF assms, of s "Inr x" s'] by auto
next
  fix s e s' assume "list_all P (trace s)" "m s = (Inl e, s')"
  then show "list_all P (trace s')" using emitsD [OF assms, of s "Inl e" s'] by auto
qed

lemma triple_emits_value:
  assumes "emits P m" "\<And>s x s'. m s = (Inr x, s') \<Longrightarrow> Q x"
  shows "triple (\<lambda>s. list_all P (trace s)) m (\<lambda>x s. list_all P (trace s) \<and> Q x) (\<lambda>_ s. list_all P (trace s))"
  using triple_emits [OF assms(1)] assms(2) by (fastforce simp: triple_def split: sum.splits prod.splits)

lemma triple_pure: "(Q \<Longrightarrow> triple P m R E) \<Longrightarrow> triple (\<lambda>s. P s \<and> Q) m R E"
  by (auto simp: triple_def)

section \<open>Files of lines\<close>

text \<open>
  The lines of a text file as Python's iteration gives them: universal newlines, each line with
  its newline.
\<close>

fun file_lines_from :: "string \<Rightarrow> string \<Rightarrow> string list" where
  "file_lines_from cur [] = (if cur = [] then [] else [rev cur])"
| "file_lines_from cur [c] =
     (if code c = 10 \<or> code c = 13 then [rev (lf # cur)] else [rev (c # cur)])"
| "file_lines_from cur (c # d # s) =
     (if code c = 13 \<and> code d = 10 then rev (lf # cur) # file_lines_from [] s
      else if code c = 10 \<or> code c = 13 then rev (lf # cur) # file_lines_from [] (d # s)
      else file_lines_from (c # cur) (d # s))"

definition file_lines :: "string \<Rightarrow> string list" where
  "file_lines s = file_lines_from [] s"

text \<open>One JSON text per line, and reading them back with \<open>json.loads\<close>.\<close>

definition json_line :: "('r \<Rightarrow> string) \<Rightarrow> 'r \<Rightarrow> string" where
  "json_line dumps r = dumps r @ [lf]"

fun load_lines :: "(string \<Rightarrow> 'r option) \<Rightarrow> string list \<Rightarrow> exn + 'r list" where
  "load_lines loads [] = Inr []"
| "load_lines loads (l # ls) =
     (if strip l = [] then load_lines loads ls
      else case loads l of None \<Rightarrow> Inl JSONDecodeError
        | Some r \<Rightarrow> (case load_lines loads ls of Inl e \<Rightarrow> Inl e | Inr rs \<Rightarrow> Inr (r # rs)))"

text \<open>
  What \<open>json\<close> documents: an object is written on one line without raw control characters, is
  never blank, and reads back, also with the newline that ends its line.
\<close>

definition json_lines :: "('r \<Rightarrow> string) \<Rightarrow> (string \<Rightarrow> 'r option) \<Rightarrow> bool" where
  "json_lines dumps loads \<longleftrightarrow> (\<forall>r. list_all (\<lambda>c. code c \<noteq> 10 \<and> code c \<noteq> 13) (dumps r)
     \<and> strip (dumps r @ [lf]) \<noteq> [] \<and> loads (dumps r @ [lf]) = Some r)"

lemma code_lf [simp]: "code lf = 10"
  by (simp add: code_def lf_def)

lemma file_lines_from_line:
  "list_all (\<lambda>c. code c \<noteq> 10 \<and> code c \<noteq> 13) l \<Longrightarrow>
   file_lines_from cur (l @ lf # s) = (rev cur @ l @ [lf]) # file_lines_from [] s"
proof (induction l arbitrary: cur)
  case Nil
  then show ?case by (cases s) auto
next
  case (Cons c l)
  then have "file_lines_from cur (c # l @ lf # s) = file_lines_from (c # cur) (l @ lf # s)"
    by (cases l) auto
  with Cons show ?case by simp
qed

lemma file_lines_json:
  assumes "json_lines dumps loads"
  shows "file_lines (concat (map (json_line dumps) rs)) = map (json_line dumps) rs"
proof (induction rs)
  case Nil
  then show ?case by (simp add: file_lines_def)
next
  case (Cons r rs)
  have "list_all (\<lambda>c. code c \<noteq> 10 \<and> code c \<noteq> 13) (dumps r)"
    using assms by (simp add: json_lines_def)
  with Cons show ?case by (simp add: json_line_def file_lines_def file_lines_from_line)
qed

lemma load_json_lines:
  assumes "json_lines dumps loads"
  shows "load_lines loads (file_lines (concat (map (json_line dumps) rs))) = Inr rs"
proof -
  have "load_lines loads (map (json_line dumps) rs) = Inr rs"
    using assms by (induction rs) (auto simp: json_lines_def json_line_def)
  then show ?thesis by (simp add: file_lines_json [OF assms])
qed

section \<open>Command lines\<close>

text \<open>
  The options of a command line as \<open>argparse\<close> sees them, in order, each with its value (empty
  for a switch). The last occurrence counts; a value that does not convert ends the program
  with status 2. As in the settings, \<open>inf\<close> and \<open>nan\<close> are outside the model.
\<close>

type_synonym args = "(string \<times> string) list"

definition usage_error :: exn where
  "usage_error = SystemExit ''2''"

definition arg :: "args \<Rightarrow> string \<Rightarrow> string \<Rightarrow> string" where
  "arg xs name dflt = (case map_of (rev xs) name of None \<Rightarrow> dflt | Some v \<Rightarrow> v)"

definition arg_int :: "args \<Rightarrow> string \<Rightarrow> int \<Rightarrow> exn + int" where
  "arg_int xs name dflt = (case map_of (rev xs) name of
     None \<Rightarrow> Inr dflt
   | Some v \<Rightarrow> (case py_int v of None \<Rightarrow> Inl usage_error | Some i \<Rightarrow> Inr i))"

definition arg_float :: "args \<Rightarrow> string \<Rightarrow> rat \<Rightarrow> exn + rat" where
  "arg_float xs name dflt = (case map_of (rev xs) name of
     None \<Rightarrow> Inr dflt
   | Some v \<Rightarrow> (case py_float v of Some (Fin x) \<Rightarrow> Inr x | _ \<Rightarrow> Inl usage_error))"

definition arg_choice :: "args \<Rightarrow> string \<Rightarrow> string \<Rightarrow> string list \<Rightarrow> exn + string" where
  "arg_choice xs name dflt choices =
     (let v = arg xs name dflt in if v \<in> set choices then Inr v else Inl usage_error)"

definition arg_flag :: "args \<Rightarrow> string \<Rightarrow> bool" where
  "arg_flag xs name = (name \<in> fst ` set xs)"

section \<open>Statements\<close>

text \<open>The number of placeholders of a statement.\<close>

fun placeholders :: "string \<Rightarrow> nat" where
  "placeholders (a # b # s) =
     (if a = CHR ''%'' \<and> b = CHR ''s'' then Suc (placeholders s) else placeholders (b # s))"
| "placeholders _ = 0"

lemma placeholders_append:
  "b \<noteq> [] \<Longrightarrow> hd b \<noteq> CHR ''s'' \<Longrightarrow> placeholders (a @ b) = placeholders a + placeholders b"
proof -
  assume "b \<noteq> []" "hd b \<noteq> CHR ''s''"
  then obtain c t where "b = c # t" "c \<noteq> CHR ''s''" by (cases b) auto
  then show ?thesis by (induction a rule: placeholders.induct) auto
qed

section \<open>The file system\<close>

text \<open>The contents of the files after a trace of calls that succeeded.\<close>

fun fs_step :: "(string \<rightharpoonup> string) \<Rightarrow> event \<Rightarrow> string \<rightharpoonup> string" where
  "fs_step fs (FileOpen p mode, r) =
     (if \<not> ok_reply r then fs
      else if mode = ''w'' then fs(p \<mapsto> [])
      else fs(p \<mapsto> (case fs p of None \<Rightarrow> [] | Some t \<Rightarrow> t)))"
| "fs_step fs (FileWrite p t, r) =
     (if ok_reply r then fs(p \<mapsto> (case fs p of None \<Rightarrow> [] | Some u \<Rightarrow> u) @ t) else fs)"
| "fs_step fs (FileReplace a b, r) = (if ok_reply r then (fs(b := fs a))(a := None) else fs)"
| "fs_step fs _ = fs"

definition fs_of :: "event list \<Rightarrow> string \<rightharpoonup> string" where
  "fs_of tr = foldl fs_step Map.empty tr"

lemma fs_of_snoc: "fs_of (tr @ [e]) = fs_step (fs_of tr) e"
  by (simp add: fs_of_def)

text \<open>Reading returns what was written; a missing file raises.\<close>

definition files :: "env \<Rightarrow> bool" where
  "files env \<longleftrightarrow> (\<forall>tr p. env tr (FileRead p) =
     (case fs_of tr p of None \<Rightarrow> Fail (OSError p) | Some t \<Rightarrow> Txt t))"

text \<open>The loop that writes the lines of a list of records.\<close>

definition write_lines :: "env \<Rightarrow> string \<Rightarrow> ('r \<Rightarrow> string) \<Rightarrow> 'r list \<Rightarrow> ('z world_scheme, unit) prog" where
  "write_lines env path dumps rs = forP (\<lambda>r. call_unit env (FileWrite path (json_line dumps r))) rs"

lemma fs_of_append: "fs_of (tr @ es) = foldl fs_step (fs_of tr) es"
  by (simp add: fs_of_def)

text \<open>The pool does not touch files and asks nothing.\<close>

definition is_query :: "event \<Rightarrow> bool" where
  "is_query e \<longleftrightarrow> (case fst e of Query _ _ \<Rightarrow> True | _ \<Rightarrow> False)"

lemma no_queries: "list_all (\<lambda>e. \<not> is_query e) es \<Longrightarrow> filter is_query es = []"
  by (simp add: list_all_iff)

lemma pool_fs_step: "pool_event e \<Longrightarrow> fs_step fs e = fs"
  by (cases e) (auto simp: pool_event_def split: cmd.splits)

lemma pool_fs: "list_all pool_event es \<Longrightarrow> foldl fs_step fs es = fs"
  by (induction es) (auto simp: pool_fs_step)

lemma pool_not_query: "pool_event e \<Longrightarrow> \<not> is_query e"
  by (cases "fst e") (simp_all add: pool_event_def is_query_def)

lemma pool_queries: "list_all pool_event es \<Longrightarrow> filter is_query es = []"
  by (induction es) (auto simp: pool_not_query)

lemma write_lines_fs:
  assumes "write_lines env path dumps rs s = (Inr u, s')" "fs_of (trace s) path = Some t"
  shows "fs_of (trace s') path = Some (t @ concat (map (json_line dumps) rs))
    \<and> (\<forall>p. p \<noteq> path \<longrightarrow> fs_of (trace s') p = fs_of (trace s) p)"
  using assms
proof (induction rs arbitrary: s t)
  case Nil
  then show ?case by (simp add: write_lines_def ret_def)
next
  case (Cons r rs)
  let ?c = "FileWrite path (json_line dumps r)"
  let ?s1 = "s\<lparr>trace := trace s @ [(?c, env (trace s) ?c)]\<rparr>"
  have ok: "ok_reply (env (trace s) ?c)" and rest: "write_lines env path dumps rs ?s1 = (Inr u, s')"
    using Cons.prems(1) by (auto simp: write_lines_def bindP_eq_Inr call_unit_Inr)
  have "fs_of (trace ?s1) path = Some (t @ json_line dumps r)"
    using ok Cons.prems(2) by (simp add: fs_of_snoc)
  from Cons.IH [OF rest this] ok show ?case by (simp add: fs_of_snoc)
qed

lemma emits_write_lines:
  "(\<And>t r. P (FileWrite path t, r)) \<Longrightarrow> emits P (write_lines env path dumps rs)"
  by (auto simp: write_lines_def intro!: emits_rules)

lemma keeps_for: "(\<And>x. x \<in> set xs \<Longrightarrow> keeps g (f x)) \<Longrightarrow> keeps g (forP f xs)"
  by (induction xs) (auto intro: keeps_rules)

end
