(* ===== verification/Pgvector.thy ===== *)
theory Pgvector
  imports Session
begin

text \<open>
  \<open>py-processor/import_pgvector.py\<close>: chunks and vectors into the table \<open>article_chunks\<close>, in bulk
  by COPY or in batches of upserts. psycopg2, PostgreSQL and the file formats are the
  environment; the shortest decimal text of a double (\<open>repr\<close>) is the parameter \<open>rp\<close>, the
  \<open>.6g\<close> format is written out.

  The lemmas: the bulk path copies every known row once and in order; what array literals read
  back as; and that the upsert path cannot write a single row.
\<close>

section \<open>Numbers as text\<close>

text \<open>\<open>f"{x:.6g}"\<close>: six significant digits, rounded half to even, trailing zeros removed.\<close>

definition round_even :: "rat \<Rightarrow> int" where
  "round_even x = (let f = floor x; d = x - of_int f in
     if d < 1/2 \<or> d = 1/2 \<and> even f then f else f + 1)"

function show_pos :: "int \<Rightarrow> string" where
  "show_pos i = (if i < 10 then [char_of (48 + nat i)] else show_pos (i div 10) @ [char_of (48 + nat (i mod 10))])"
  by pat_completeness auto
termination
  by (relation "measure nat") auto

declare show_pos.simps [simp del]

text \<open>The exponent \<open>e\<close> with \<open>10 ^ e \<le> x < 10 ^ (e + 1)\<close>, for positive \<open>x\<close>.\<close>

definition exponent10 :: "rat \<Rightarrow> int" where
  "exponent10 x =
     (if 1 \<le> x then int (length (show_pos (floor x))) - 1
      else (let k = length (show_pos (snd (quotient_of x))) in
        - int (case filter (\<lambda>i. 1 \<le> x * 10 ^ i) [0..<Suc k] of [] \<Rightarrow> k | i # _ \<Rightarrow> i)))"

definition scaled :: "rat \<Rightarrow> int \<Rightarrow> rat" where
  "scaled x k = (if 0 \<le> k then x * 10 ^ nat k else x / 10 ^ nat (- k))"

definition strip_zeros :: "string \<Rightarrow> string" where
  "strip_zeros s = rev (dropWhile (\<lambda>c. c = CHR ''.'') (dropWhile (\<lambda>c. c = CHR ''0'') (rev s)))"

definition pad_left :: "nat \<Rightarrow> string \<Rightarrow> string" where
  "pad_left n s = replicate (n - length s) CHR ''0'' @ s"

definition fmt_g6 :: "rat \<Rightarrow> string" where
  "fmt_g6 x =
     (if x = 0 then ''0''
      else (let a = abs x; sign = (if x < 0 then ''-'' else []);
                e0 = exponent10 a; n0 = round_even (scaled a (5 - e0));
                (n, e) = (if n0 = 1000000 then (100000, e0 + 1) else (n0, e0));
                ds = show_pos n
            in if e < -4 \<or> 6 \<le> e
               then sign @ strip_zeros (take 1 ds @ ''.'' @ drop 1 ds) @ ''e''
                 @ (if e < 0 then ''-'' else ''+'') @ pad_left 2 (show_pos (abs e))
               else if 0 \<le> e
               then sign @ strip_zeros (take (Suc (nat e)) ds @ ''.'' @ drop (Suc (nat e)) ds)
               else sign @ strip_zeros (''0.'' @ replicate (nat (- e) - 1) CHR ''0'' @ ds)))"

definition vector_literal :: "vec \<Rightarrow> string" where
  "vector_literal v = ''['' @ join '','' (map fmt_g6 v) @ '']''"

section \<open>Rows\<close>

type_synonym chunk_dict = "(string \<times> chunk_row) list"

text \<open>A later line with the same identifier replaces the earlier one.\<close>

definition chunk_dict :: "chunk_row list \<Rightarrow> chunk_dict" where
  "chunk_dict cs = rev (map (\<lambda>c. (k_id c, c)) cs)"

definition opt_text :: "string option \<Rightarrow> param" where
  "opt_text t = (case t of None \<Rightarrow> PNone | Some s \<Rightarrow> PText s)"

definition row_values :: "string \<Rightarrow> vec \<Rightarrow> chunk_dict \<Rightarrow> param list option" where
  "row_values chunk_id v chunks = (case map_of chunks chunk_id of
     None \<Rightarrow> None
   | Some c \<Rightarrow> Some
      [PText chunk_id, PInt (k_article c), PText (k_url c), opt_text (k_title c),
       PTexts (k_path c), PInt (int (k_index c)), PInt (int (k_n c)),
       PText (k_text c), PTexts (k_tags c), opt_text (k_source c), opt_text (k_lang c),
       opt_text (k_published c), (case k_score c of None \<Rightarrow> PNone | Some x \<Rightarrow> PNum x),
       PText (vector_literal v)])"

text \<open>The rows of both paths: pairs whose identifier is not among the chunks are skipped.\<close>

definition known_rows :: "string list \<Rightarrow> vec list \<Rightarrow> chunk_dict \<Rightarrow> (vec \<times> param list) list" where
  "known_rows ids vecs chunks = concat (map (\<lambda>(i, v). case row_values i v chunks of
     None \<Rightarrow> [] | Some r \<Rightarrow> [(v, r)]) (zip ids vecs))"

section \<open>The bulk path\<close>

definition commit_rows :: nat where "commit_rows = 10000"
definition batch_rows :: nat where "batch_rows = 200"

definition escape_quotes :: "string \<Rightarrow> string" where
  "escape_quotes v = concat (map (\<lambda>c. if c = CHR 0x22 then [CHR 0x5C, CHR 0x22] else [c]) v)"

definition pg_array :: "string list \<Rightarrow> string" where
  "pg_array values = ''{'' @ join '','' (map (\<lambda>v. CHR 0x22 # escape_quotes v @ [CHR 0x22]) values) @ ''}''"

text \<open>
  A field of the CSV text, quoted only when it has to be: \<open>None\<close> is empty, numbers are their
  decimal text; the lists have become array literals.
\<close>

definition field_text :: "(rat \<Rightarrow> string) \<Rightarrow> param \<Rightarrow> string" where
  "field_text rp p = (case p of PNone \<Rightarrow> [] | PInt i \<Rightarrow> show_int i | PNum x \<Rightarrow> rp x
     | PText t \<Rightarrow> t | PTexts ts \<Rightarrow> pg_array ts)"

definition csv_field :: "string \<Rightarrow> string" where
  "csv_field t = (if list_ex (\<lambda>c. c = CHR '','' \<or> c = CHR 0x22 \<or> c = lf \<or> c = CHR 0x0D) t
     then CHR 0x22 # concat (map (\<lambda>c. if c = CHR 0x22 then [CHR 0x22, CHR 0x22] else [c]) t) @ [CHR 0x22]
     else t)"

definition csv_line :: "(rat \<Rightarrow> string) \<Rightarrow> param list \<Rightarrow> string" where
  "csv_line rp row = join '','' (map (\<lambda>p. csv_field (field_text rp p)) row) @ [CHR 0x0D, lf]"

definition copy_sql :: string where
  "copy_sql = ''COPY article_chunks (chunk_id, article_id, url, title, heading_path, chunk_index, n_chunks, text, tags, source_type, language, published_at, quality_score, embedding) FROM STDIN WITH (FORMAT csv)''"

definition copy_rows :: "env \<Rightarrow> (rat \<Rightarrow> string) \<Rightarrow> param list list \<Rightarrow> ('z world_scheme, unit) prog" where
  "copy_rows env rp rows =
     bindP (call_unit env (CopyIn copy_sql (concat (map (csv_line rp) rows)))) (\<lambda>_. call_unit env Commit)"

definition copy_step ::
  "env \<Rightarrow> (rat \<Rightarrow> string) \<Rightarrow> nat \<times> param list list \<Rightarrow> param list \<Rightarrow> ('z world_scheme, nat \<times> param list list) prog" where
  "copy_step env rp acc row =
     (let batch = snd acc @ [row]; copied = fst acc + 1
      in if length batch \<ge> commit_rows
         then bindP (copy_rows env rp batch) (\<lambda>_. ret (copied, []))
         else ret (copied, batch))"

definition copy_initial ::
  "env \<Rightarrow> (rat \<Rightarrow> string) \<Rightarrow> string list \<Rightarrow> vec list \<Rightarrow> chunk_dict \<Rightarrow> ('z world_scheme, nat) prog" where
  "copy_initial env rp ids vecs chunks =
     bindP (foldP (copy_step env rp) (0, []) (map snd (known_rows ids vecs chunks))) (\<lambda>acc.
     bindP (if snd acc = [] then ret () else copy_rows env rp (snd acc)) (\<lambda>_. ret (fst acc)))"

section \<open>The incremental path\<close>

definition upsert_sql :: string where
  "upsert_sql = ''INSERT INTO article_chunks (chunk_id, article_id, url, title, heading_path, chunk_index, n_chunks, text, tags, source_type, language, published_at, quality_score, embedding) VALUES %s ON CONFLICT (chunk_id) DO UPDATE SET text = EXCLUDED.text, heading_path = EXCLUDED.heading_path, embedding = EXCLUDED.embedding''"

definition upsert_template :: string where
  "upsert_template = ''(%s, %s, %s, %s, %s, %s, %s, %s, %s, %s, %s, %s, %s, %s::vector)''"

text \<open>
  \<open>execute_values\<close> of psycopg2: the rows in pages of 100, each row filled into the template
  before the page is sent. As with Python's \<open>%\<close>, the numbers must agree.
\<close>

definition fill_row :: "string \<Rightarrow> param list \<Rightarrow> exn + unit" where
  "fill_row template row =
     (if placeholders template < length row
      then Inl (TypeError ''not all arguments converted during string formatting'')
      else if length row < placeholders template then Inl IndexError else Inr ())"

fun fill_rows :: "string \<Rightarrow> param list list \<Rightarrow> exn + unit" where
  "fill_rows template [] = Inr ()"
| "fill_rows template (r # rs) = (case fill_row template r of Inl e \<Rightarrow> Inl e | Inr _ \<Rightarrow> fill_rows template rs)"

definition send_page :: "env \<Rightarrow> string \<Rightarrow> string \<Rightarrow> param list list \<Rightarrow> ('z world_scheme, unit) prog" where
  "send_page env sql template page =
     bindP (liftE (fill_rows template page)) (\<lambda>_. call_unit env (ExecuteBatch sql page 100))"

definition execute_values :: "env \<Rightarrow> string \<Rightarrow> string \<Rightarrow> param list list \<Rightarrow> ('z world_scheme, unit) prog" where
  "execute_values env sql template rows = forP (send_page env sql template) (pages 100 rows)"

definition upsert_rows :: "env \<Rightarrow> param list list \<Rightarrow> ('z world_scheme, unit) prog" where
  "upsert_rows env rows =
     bindP (execute_values env upsert_sql upsert_template rows) (\<lambda>_. call_unit env Commit)"

definition upsert_step ::
  "env \<Rightarrow> nat \<times> param list list \<Rightarrow> vec \<times> param list \<Rightarrow> ('z world_scheme, nat \<times> param list list) prog" where
  "upsert_step env acc vr =
     (let pending = snd acc @ [snd vr @ [PText (vector_literal (fst vr))]]
      in if length pending \<ge> batch_rows
         then bindP (upsert_rows env pending) (\<lambda>_. ret (fst acc + length pending, []))
         else ret (fst acc, pending))"

definition upsert_incremental ::
  "env \<Rightarrow> string list \<Rightarrow> vec list \<Rightarrow> chunk_dict \<Rightarrow> ('z world_scheme, nat) prog" where
  "upsert_incremental env ids vecs chunks =
     bindP (foldP (upsert_step env) (0, []) (known_rows ids vecs chunks)) (\<lambda>acc.
     if snd acc = [] then ret (fst acc)
     else bindP (upsert_rows env (snd acc)) (\<lambda>_. ret (fst acc + length (snd acc))))"

section \<open>The program\<close>

record import_io =
  im_loads :: "string \<Rightarrow> chunk_row option"
  im_meta :: "string \<Rightarrow> (string \<times> int \<times> int) option"
  im_repr :: "rat \<Rightarrow> string"

definition load_pairs ::
  "env \<Rightarrow> import_io \<Rightarrow> string \<Rightarrow> string \<Rightarrow> ('z world_scheme, chunk_dict \<times> string list \<times> vec list \<times> int) prog" where
  "load_pairs env io vectors_path chunks_path =
     bindP (call_text env (FileRead (vectors_path @ ''.meta.json''))) (\<lambda>m.
     bindP (case im_meta io m of None \<Rightarrow> throw JSONDecodeError | Some meta \<Rightarrow> ret meta) (\<lambda>meta.
     bindP (call_text env (FileRead chunks_path)) (\<lambda>t.
     bindP (liftE (load_lines (im_loads io) (file_lines t))) (\<lambda>cs.
     bindP (call env (NpzLoad vectors_path)) (\<lambda>r. case r of
       Archive ids vecs \<Rightarrow> ret (chunk_dict cs, ids, vecs, fst (snd meta)) | _ \<Rightarrow> throw bad_reply)))))"

definition schema_sql :: string where
  "schema_sql = ''CREATE EXTENSION IF NOT EXISTS vector; CREATE TABLE IF NOT EXISTS article_chunks (chunk_id TEXT PRIMARY KEY, article_id BIGINT, url TEXT NOT NULL, title TEXT, heading_path TEXT[] DEFAULT '{}', chunk_index INT, n_chunks INT, text TEXT NOT NULL, tags TEXT[] DEFAULT '{}', source_type TEXT, language TEXT, published_at TIMESTAMPTZ, quality_score REAL, embedding vector(%(dim)s));''"

definition index_sql :: string where
  "index_sql = ''CREATE INDEX IF NOT EXISTS idx_chunks_hnsw ON article_chunks USING hnsw (embedding vector_cosine_ops) WITH (m = 16, ef_construction = 64)''"

definition build_index :: "env \<Rightarrow> ('z world_scheme, unit) prog" where
  "build_index env =
     bindP (call_unit env (Execute (''SET maintenance_work_mem = '512MB'' @ [CHR 0x27]) [])) (\<lambda>_.
     bindP (call_unit env (Execute index_sql [])) (\<lambda>_.
     bindP (call_unit env (Execute ''ANALYZE article_chunks'' [])) (\<lambda>_. call_unit env Commit)))"

definition call_counts :: "env \<Rightarrow> cmd \<Rightarrow> ('z world_scheme, int list list) prog" where
  "call_counts env c = bindP (call env c) (\<lambda>r. case r of Counts rows \<Rightarrow> ret rows | _ \<Rightarrow> throw bad_reply)"

definition index_exists :: "env \<Rightarrow> ('z world_scheme, bool) prog" where
  "index_exists env =
     bindP (call_counts env (Query (''SELECT 1 FROM pg_indexes WHERE indexname = 'idx_chunks_hnsw'' @ [CHR 0x27]) []))
       (\<lambda>rows. ret (rows \<noteq> []))"

definition write_pairs ::
  "env \<Rightarrow> import_io \<Rightarrow> bool \<Rightarrow> bool \<Rightarrow> string list \<Rightarrow> vec list \<Rightarrow> chunk_dict \<Rightarrow> ('z world_scheme, nat) prog" where
  "write_pairs env io initial had_index ids vecs chunks =
     (if initial
      then bindP (if had_index
             then bindP (call_unit env (Execute ''DROP INDEX IF EXISTS idx_chunks_hnsw'' [])) (\<lambda>_. call_unit env Commit)
             else ret ()) (\<lambda>_. copy_initial env (im_repr io) ids vecs chunks)
      else upsert_incremental env ids vecs chunks)"

definition import_body ::
  "env \<Rightarrow> import_io \<Rightarrow> string \<Rightarrow> string \<Rightarrow> bool \<Rightarrow> ('z world_scheme, nat) prog" where
  "import_body env io chunks_path vectors_path initial =
     bindP (load_pairs env io vectors_path chunks_path) (\<lambda>(chunks, ids, vecs, dim).
     bindP (call_unit env (Execute schema_sql [PInt dim])) (\<lambda>_.
     bindP (call_unit env Commit) (\<lambda>_.
     bindP (index_exists env) (\<lambda>had_index.
     bindP (write_pairs env io initial had_index ids vecs chunks) (\<lambda>n.
     bindP (if initial \<or> \<not> had_index then build_index env else call_unit env Commit) (\<lambda>_.
     bindP (call_counts env (Query ''SELECT count(*) FROM article_chunks'' [])) (\<lambda>rows.
     if rows = [] then throw (TypeError ''fetchone'') else ret n)))))))"

definition import_main ::
  "env \<Rightarrow> config \<Rightarrow> import_io \<Rightarrow> string \<Rightarrow> string \<Rightarrow> bool \<Rightarrow> ('z world_scheme, nat) prog" where
  "import_main env cfg io chunks_path vectors_path initial =
     bindP (call_unit env (Connect (PG_DSN cfg))) (\<lambda>_.
     finallyP (import_body env io chunks_path vectors_path initial) (call_unit env CloseConn))"

definition import_script :: "env \<Rightarrow> config \<Rightarrow> import_io \<Rightarrow> args \<Rightarrow> ('z world_scheme, nat) prog" where
  "import_script env cfg io xs = import_main env cfg io (arg xs ''--chunks'' ''corpus_chunks.jsonl'')
     (arg xs ''--vectors'' ''corpus_vectors.npz'') (arg_flag xs ''--initial'')"

section \<open>The incremental path cannot write\<close>

lemma known_rows_length: "vr \<in> set (known_rows ids vecs chunks) \<Longrightarrow> length (snd vr) = 14"
  by (auto simp: known_rows_def row_values_def split: option.splits)

lemma template_placeholders: "placeholders upsert_template = 14"
  by code_simp

definition template_error :: exn where
  "template_error = TypeError ''not all arguments converted during string formatting''"

lemma upsert_rows_fails:
  assumes "rows \<noteq> []" "\<forall>r \<in> set rows. length r = 15"
  shows "upsert_rows env rows s = (Inl template_error, s)"
proof -
  obtain r rs where r: "rows = r # rs" using assms(1) by (cases rows) auto
  obtain q qs ps where p: "pages 100 rows = (q # qs) # ps" "q = r"
    using r by (subst (asm) pages.simps) (cases "length rows \<le> 100"; simp add: pages.simps)
  have "fill_row upsert_template r = Inl template_error"
    using assms(2) r by (simp add: fill_row_def template_placeholders template_error_def)
  then show ?thesis
    using p by (simp add: upsert_rows_def execute_values_def send_page_def bindP_def liftE_def)
qed

lemma upsert_loop_fails:
  assumes "\<forall>vr \<in> set rows. length (snd vr) = 14" "\<forall>r \<in> set pending. length r = 15"
    "length pending < batch_rows"
  shows "foldP (upsert_step env) (n, pending) rows s = (Inl template_error, s)
    \<or> (\<exists>p. foldP (upsert_step env) (n, pending) rows s = (Inr (n, p), s)
        \<and> (\<forall>r \<in> set p. length r = 15) \<and> (p = [] \<longrightarrow> pending = [] \<and> rows = []))"
  using assms
proof (induction rows arbitrary: pending)
  case Nil
  then show ?case by (simp add: ret_def)
next
  case (Cons vr rows)
  let ?p = "pending @ [snd vr @ [PText (vector_literal (fst vr))]]"
  have 15: "\<forall>r \<in> set ?p. length r = 15" using Cons.prems by auto
  show ?case
  proof (cases "length ?p \<ge> batch_rows")
    case True
    then have "upsert_step env (n, pending) vr s = (Inl template_error, s)"
      by (simp add: upsert_step_def Let_def bindP_Inl [OF upsert_rows_fails [OF _ 15]])
    then show ?thesis by (simp add: bindP_def)
  next
    case False
    then have step: "upsert_step env (n, pending) vr s = (Inr (n, ?p), s)"
      by (simp add: upsert_step_def Let_def ret_def)
    with Cons.IH [of ?p] Cons.prems 15 False show ?thesis by (auto simp: bindP_def)
  qed
qed

text \<open>
  C16: The incremental import never writes a row: whenever there is a chunk to import it raises a
  \<open>TypeError\<close> before it has sent anything, because a row carries its vector twice and so has one
  value more than the template has placeholders.
\<close>

theorem upsert_incremental_fails:
  assumes "known_rows ids vecs chunks \<noteq> []"
  shows "upsert_incremental env ids vecs chunks s = (Inl template_error, s)"
proof -
  have 14: "\<forall>vr \<in> set (known_rows ids vecs chunks). length (snd vr) = 14"
    using known_rows_length by blast
  from upsert_loop_fails [OF 14, of "[]" env 0 s] show ?thesis
    using assms by (auto simp: upsert_incremental_def bindP_def batch_rows_def upsert_rows_fails)
qed

definition import_chunk :: chunk_row where
  "import_chunk = \<lparr>k_id = ''a_0'', k_article = 1, k_url = ''u'', k_title = None, k_path = [''A''], k_index = 0,
     k_n = 1, k_text = ''t'', k_tags = [], k_source = None, k_lang = None, k_published = None, k_score = Some (1/2)\<rparr>"

theorem upsert_incremental_fails_witness:
  "upsert_incremental (\<lambda>_ _. Done) [''a_0''] [[1, 0]] (chunk_dict [import_chunk]) \<lparr>trace = []\<rparr>
     = (Inl template_error, \<lparr>trace = []\<rparr>)"
  by (rule upsert_incremental_fails) (simp add: known_rows_def row_values_def chunk_dict_def import_chunk_def)

section \<open>The bulk path copies every row\<close>

definition csv_text :: "(rat \<Rightarrow> string) \<Rightarrow> param list list \<Rightarrow> string" where
  "csv_text rp rows = concat (map (csv_line rp) rows)"

definition batch_calls :: "(rat \<Rightarrow> string) \<Rightarrow> param list list list \<Rightarrow> cmd list" where
  "batch_calls rp bs = concat (map (\<lambda>b. [CopyIn copy_sql (csv_text rp b), Commit]) bs)"

lemma copy_rows_Inr:
  "copy_rows env rp rows s = (Inr u, s') \<Longrightarrow>
     \<exists>r q. trace s' = trace s @ [(CopyIn copy_sql (csv_text rp rows), r), (Commit, q)]"
  by (auto simp: copy_rows_def csv_text_def bindP_eq_Inr call_unit_Inr)

lemma copy_loop:
  assumes "foldP (copy_step env rp) (n, batch) rows s = (Inr (n', rest), s')" "length batch < commit_rows"
  shows "n' = n + length rows \<and> length rest < commit_rows \<and> (\<exists>bs es. concat bs @ rest = batch @ rows
    \<and> list_all (\<lambda>b. b \<noteq> [] \<and> length b \<le> commit_rows) bs
    \<and> trace s' = trace s @ es \<and> map fst es = batch_calls rp bs)"
  using assms
proof (induction rows arbitrary: n batch s)
  case Nil
  then show ?case by (auto simp: ret_def batch_calls_def intro!: exI [of _ "[]"])
next
  case (Cons row rows)
  let ?b = "batch @ [row]"
  show ?case
  proof (cases "length ?b \<ge> commit_rows")
    case True
    have step: "copy_step env rp (n, batch) row = bindP (copy_rows env rp ?b) (\<lambda>_. ret (n + 1, []))"
      using True by (simp add: copy_step_def)
    obtain s1 where 1: "copy_rows env rp ?b s = (Inr (), s1)"
      and 2: "foldP (copy_step env rp) (n + 1, []) rows s1 = (Inr (n', rest), s')"
      using Cons.prems(1) by (auto simp: step bindP_eq_Inr ret_def)
    obtain r q where t1: "trace s1 = trace s @ [(CopyIn copy_sql (csv_text rp ?b), r), (Commit, q)]"
      using copy_rows_Inr [OF 1] by blast
    have "length ([] :: param list list) < commit_rows" by (simp add: commit_rows_def)
    from Cons.IH [OF 2 this] obtain bs es where "n' = n + 1 + length rows" "length rest < commit_rows"
      "concat bs @ rest = rows" "list_all (\<lambda>b. b \<noteq> [] \<and> length b \<le> commit_rows) bs"
      "trace s' = trace s1 @ es" "map fst es = batch_calls rp bs"
      by auto
    then show ?thesis
      using t1 Cons.prems(2) True
      by (intro conjI exI [of _ "?b # bs"] exI [of _ "[(CopyIn copy_sql (csv_text rp ?b), r), (Commit, q)] @ es"])
        (auto simp: batch_calls_def)
  next
    case False
    then have "copy_step env rp (n, batch) row s = (Inr (n + 1, ?b), s)" by (simp add: copy_step_def ret_def)
    with Cons.prems(1) have "foldP (copy_step env rp) (n + 1, ?b) rows s = (Inr (n', rest), s')"
      by (simp add: bindP_def)
    from Cons.IH [OF this] False show ?thesis by simp
  qed
qed

text \<open>
  C24: The bulk import writes every chunk that has a vector, once and in the order of the vectors:
  the rows are cut into batches of at most the commit size, each batch is sent as one CSV text
  and committed before the next, nothing is left over, and the result is their number.
\<close>

theorem copy_initial_complete:
  assumes "copy_initial env rp ids vecs chunks s = (Inr n, s')"
  shows "n = length (known_rows ids vecs chunks) \<and> (\<exists>bs es. concat bs = map snd (known_rows ids vecs chunks)
    \<and> list_all (\<lambda>b. b \<noteq> [] \<and> length b \<le> commit_rows) bs
    \<and> trace s' = trace s @ es \<and> map fst es = batch_calls rp bs)"
proof -
  let ?rows = "map snd (known_rows ids vecs chunks)"
  from assms obtain acc s1 where a: "foldP (copy_step env rp) (0, []) ?rows s = (Inr acc, s1)"
    and b: "(if snd acc = [] then ret () else copy_rows env rp (snd acc)) s1 = (Inr (), s')" "n = fst acc"
    by (auto simp: copy_initial_def bindP_eq_Inr ret_def)
  obtain rest where rest: "acc = (n, rest)" using b(2) by (cases acc) simp
  note 1 = a [unfolded rest] and 2 = b(1) [unfolded rest snd_conv]
  have "length ([] :: param list list) < commit_rows" by (simp add: commit_rows_def)
  from copy_loop [OF 1 this] obtain bs es where loop: "n = length ?rows" "length rest < commit_rows"
    "concat bs @ rest = ?rows" "list_all (\<lambda>b. b \<noteq> [] \<and> length b \<le> commit_rows) bs"
    "trace s1 = trace s @ es" "map fst es = batch_calls rp bs"
    by auto
  show ?thesis
  proof (cases "rest = []")
    case True
    with loop 2 show ?thesis by (auto simp: ret_def)
  next
    case False
    with 2 obtain r q where "trace s' = trace s1 @ [(CopyIn copy_sql (csv_text rp rest), r), (Commit, q)]"
      using copy_rows_Inr by fastforce
    with loop False show ?thesis
      by (intro conjI exI [of _ "bs @ [rest]"] exI [of _ "es @ [(CopyIn copy_sql (csv_text rp rest), r), (Commit, q)]"])
        (auto simp: batch_calls_def)
  qed
qed

theorem copy_initial_complete_witness:
  "\<exists>s'. copy_initial (\<lambda>_ _. Done) (\<lambda>_. ''0.5'') [''a_0'', ''gone''] [[1, 0], [0, 1]] (chunk_dict [import_chunk]) \<lparr>trace = []\<rparr>
      = (Inr 1, s') \<and> 1 = length (known_rows [''a_0'', ''gone''] [[1, 0], [0, 1]] (chunk_dict [import_chunk]))"
proof -
  have "fst (copy_initial (\<lambda>_ _. Done) (\<lambda>_. ''0.5'') [''a_0'', ''gone''] [[1, 0], [0, 1]] (chunk_dict [import_chunk])
      \<lparr>trace = []\<rparr>) = Inr 1"
    by (simp add: copy_initial_def known_rows_def row_values_def chunk_dict_def import_chunk_def copy_step_def
        commit_rows_def copy_rows_def bindP_def ret_def call_unit_def call_def Let_def)
  then obtain s' where "copy_initial (\<lambda>_ _. Done) (\<lambda>_. ''0.5'') [''a_0'', ''gone''] [[1, 0], [0, 1]]
      (chunk_dict [import_chunk]) \<lparr>trace = []\<rparr> = (Inr 1, s')"
    by (metis prod.collapse)
  from copy_initial_complete [OF this] this show ?thesis by auto
qed

section \<open>Array literals\<close>

text \<open>
  How PostgreSQL documents the reading of an array literal whose elements are quoted: inside the
  quotes a backslash takes the next character as it is.
\<close>

fun read_quoted :: "string \<Rightarrow> string \<Rightarrow> (string \<times> string) option" where
  "read_quoted acc [] = None"
| "read_quoted acc (c # s) =
     (if c = CHR 0x22 then Some (rev acc, s)
      else if c = CHR 0x5C then (case s of [] \<Rightarrow> None | d # t \<Rightarrow> read_quoted (d # acc) t)
      else read_quoted (c # acc) s)"

lemma read_quoted_shorter: "read_quoted acc s = Some (v, t) \<Longrightarrow> length t < length s"
  by (induction acc s rule: read_quoted.induct) (auto split: if_splits list.splits)

function read_elements :: "string \<Rightarrow> string list option" where
  "read_elements s = (case s of
     c # s1 \<Rightarrow> if c \<noteq> CHR 0x22 then None else (case read_quoted [] s1 of
         None \<Rightarrow> None
       | Some (v, t) \<Rightarrow> if t = ''}'' then Some [v]
           else (case t of d # u \<Rightarrow> if d = CHR '','' then map_option ((#) v) (read_elements u) else None
                 | [] \<Rightarrow> None))
   | [] \<Rightarrow> None)"
  by pat_completeness auto
termination
  by (relation "measure length") (auto dest!: read_quoted_shorter)

declare read_elements.simps [simp del]

definition read_array :: "string \<Rightarrow> string list option" where
  "read_array s = (if s = ''{}'' then Some []
     else (case s of c # t \<Rightarrow> if c = CHR ''{'' then read_elements t else None | [] \<Rightarrow> None))"

lemma read_quoted_escaped:
  "CHR 0x5C \<notin> set v \<Longrightarrow> read_quoted acc (escape_quotes v @ CHR 0x22 # t) = Some (rev acc @ v, t)"
  by (induction v arbitrary: acc) (auto simp: escape_quotes_def)

lemma read_elements_join:
  "vs \<noteq> [] \<Longrightarrow> \<forall>v \<in> set vs. CHR 0x5C \<notin> set v \<Longrightarrow>
   read_elements (join '','' (map (\<lambda>v. CHR 0x22 # escape_quotes v @ [CHR 0x22]) vs) @ ''}'') = Some vs"
proof (induction vs)
  case Nil
  then show ?case by simp
next
  case (Cons v vs)
  have q: "read_quoted [] (escape_quotes v @ CHR 0x22 # t) = Some (v, t)" for t
    using read_quoted_escaped [of v "[]"] Cons.prems by simp
  show ?case
  proof (cases "vs = []")
    case True
    then show ?thesis by (subst read_elements.simps) (simp add: q)
  next
    case False
    with Cons have IH: "read_elements (join '','' (map (\<lambda>v. CHR 0x22 # escape_quotes v @ [CHR 0x22]) vs) @ ''}'') = Some vs"
      by simp
    from False show ?thesis
      by (subst read_elements.simps) (simp add: q join_Cons IH)
  qed
qed

text \<open>
  C38: A heading path or a tag list survives the bulk import: PostgreSQL reads the array literal
  back as the same strings, quotes, commas and braces included, unless one has a backslash.
\<close>

theorem pg_array_roundtrip:
  assumes "\<forall>v \<in> set vs. CHR 0x5C \<notin> set v"
  shows "read_array (pg_array vs) = Some vs"
proof (cases "vs = []")
  case True
  then show ?thesis by (simp add: pg_array_def read_array_def)
next
  case False
  then obtain v ws where "vs = v # ws" by (cases vs) auto
  then show ?thesis
    using read_elements_join [OF False assms] by (simp add: pg_array_def read_array_def join_Cons)
qed

theorem pg_array_roundtrip_witness:
  "read_array (pg_array [''a,b'', CHR 0x22 # ''c}'', []]) = Some [''a,b'', CHR 0x22 # ''c}'', []]"
  by (rule pg_array_roundtrip) simp

text \<open>A backslash is lost; one at the end of an element makes the literal malformed.\<close>

lemma pg_array_backslash:
  "read_array (pg_array [''C:'' @ [CHR 0x5C] @ ''dir'']) = Some [''C:dir'']
   \<and> read_array (pg_array [''C:'' @ [CHR 0x5C]]) = None"
  by code_simp

end
