(* ===== verification/Search.thy ===== *)
theory Search
  imports Pgvector
begin

text \<open>
  \<open>py-processor/dashboard/rag_search.py\<close>: semantic search over the table of chunks, behind a rate
  gate and a cache of query vectors. The embeddings server, PostgreSQL and the clock are the
  environment; the lock is left out, so a query is one step.

  The lemmas: how far apart the gate keeps queries, that the cache stays within its bound and
  only holds what the server answered, and that every statement fits its parameters.
\<close>

record sworld = cworld +
  s_next :: rat
  s_cache :: "(string \<times> vec) list"

section \<open>The rate gate\<close>

definition search_throttle :: "env \<Rightarrow> config \<Rightarrow> ('z sworld_scheme, unit) prog" where
  "search_throttle env cfg =
     bindP (call_time env Monotonic) (\<lambda>now.
     if RAG_QPS cfg = 0 then throw ZeroDivisionError
     else bindP (getP s_next) (\<lambda>next_ok.
       let wait = 1 / RAG_QPS cfg - (now - next_ok)
       in if wait > 0 then throw (RateLimited wait)
          else updP (s_next_update (\<lambda>_. now + 1 / RAG_QPS cfg))))"

section \<open>The vector of a query\<close>

definition embed_query :: "env \<Rightarrow> config \<Rightarrow> string \<Rightarrow> ('z world_scheme, vec) prog" where
  "embed_query env cfg query =
     (if EMBEDDING_API_BASE cfg = [] \<or> EMBEDDING_API_KEY cfg = [] \<or> EMBEDDING_MODEL cfg = []
      then throw (SearchUnavailable ''embedding backend not configured'')
      else bindP (call env (Post (rstrip_char CHR ''/'' (EMBEDDING_API_BASE cfg) @ ''/embeddings'')
             (EMBEDDING_API_KEY cfg) (EMBEDDING_MODEL cfg) [query] 30)) (\<lambda>r. case r of
         Embedded data \<Rightarrow> (case data of [] \<Rightarrow> throw IndexError | d # _ \<Rightarrow> ret (snd d))
       | Response status _ _ \<Rightarrow>
           if 400 \<le> status then throw (RequestException ''HTTPError'') else throw (KeyError ''data'')
       | _ \<Rightarrow> throw bad_reply))"

text \<open>\<open>lru_cache(maxsize=128)\<close>: the least recently used entry first; exceptions are not kept.\<close>

definition cache_size :: nat where "cache_size = 128"

definition cache_hit :: "string \<Rightarrow> (string \<times> vec) list \<Rightarrow> (string \<times> vec) list" where
  "cache_hit q c = filter (\<lambda>e. fst e \<noteq> q) c @ filter (\<lambda>e. fst e = q) c"

definition cache_add :: "string \<Rightarrow> vec \<Rightarrow> (string \<times> vec) list \<Rightarrow> (string \<times> vec) list" where
  "cache_add q v c = (if length c \<ge> cache_size then tl c else c) @ [(q, v)]"

definition embed_query_cached :: "env \<Rightarrow> config \<Rightarrow> string \<Rightarrow> ('z sworld_scheme, vec) prog" where
  "embed_query_cached env cfg query =
     bindP (getP s_cache) (\<lambda>c. case map_of c query of
       Some v \<Rightarrow> bindP (updP (s_cache_update (cache_hit query))) (\<lambda>_. ret v)
     | None \<Rightarrow> bindP (embed_query env cfg query) (\<lambda>v.
         bindP (updP (s_cache_update (cache_add query v))) (\<lambda>_. ret v)))"

section \<open>The statement\<close>

definition search_where :: "string option \<Rightarrow> rat option \<Rightarrow> string option \<Rightarrow> string list \<times> param list" where
  "search_where source min_quality since =
     (let (w, p) = ([''1=1''], []);
          (w, p) = (case source of None \<Rightarrow> (w, p)
            | Some t \<Rightarrow> if t = [] then (w, p) else (w @ [''source_type = %s''], p @ [PText t]));
          (w, p) = (case min_quality of None \<Rightarrow> (w, p)
            | Some x \<Rightarrow> (w @ [''quality_score >= %s''], p @ [PNum x]))
      in (case since of None \<Rightarrow> (w, p)
            | Some t \<Rightarrow> if t = [] then (w, p) else (w @ [''published_at >= %s::timestamptz''], p @ [PText t])))"

definition search_sql :: "string list \<Rightarrow> string" where
  "search_sql w = ''SELECT chunk_id, url, title, heading_path, chunk_index, text, source_type, published_at, quality_score, 1 - (embedding <=> %s::vector) AS score FROM article_chunks WHERE ''
     @ join '' AND '' w @ '' ORDER BY embedding <=> %s::vector LIMIT %s''"

definition search_query ::
  "vec \<Rightarrow> int \<Rightarrow> string option \<Rightarrow> rat option \<Rightarrow> string option \<Rightarrow> string \<times> param list" where
  "search_query v k source min_quality since =
     (let literal = PText (vector_literal v); (w, p) = search_where source min_quality since
      in (search_sql w, [literal] @ p @ [literal, PInt k]))"

text \<open>A hit, with its score rounded to four places.\<close>

record hit =
  h_id :: string
  h_url :: string
  h_title :: "string option"
  h_path :: "string list"
  h_index :: nat
  h_text :: string
  h_source :: "string option"
  h_published :: "string option"
  h_quality :: "rat option"
  h_score :: rat

definition round_places :: "nat \<Rightarrow> rat \<Rightarrow> rat" where
  "round_places n x = of_int (round_even (x * 10 ^ n)) / 10 ^ n"

definition hit_of :: "chunk_row \<times> rat \<Rightarrow> hit" where
  "hit_of r = (case r of (c, score) \<Rightarrow> \<lparr>h_id = k_id c, h_url = k_url c, h_title = k_title c, h_path = k_path c,
     h_index = k_index c, h_text = k_text c, h_source = k_source c, h_published = k_published c,
     h_quality = k_score c, h_score = round_places 4 score\<rparr>)"

definition run_search :: "env \<Rightarrow> string \<times> param list \<Rightarrow> ('z world_scheme, (chunk_row \<times> rat) list) prog" where
  "run_search env q = bindP (call env (Query (fst q) (snd q))) (\<lambda>r. case r of
     ChunkRows rows \<Rightarrow> ret rows | _ \<Rightarrow> throw bad_reply)"

definition semantic_search ::
  "env \<Rightarrow> config \<Rightarrow> string option \<Rightarrow> int \<Rightarrow> string option \<Rightarrow> rat option \<Rightarrow> string option \<Rightarrow> ('z sworld_scheme, hit list) prog" where
  "semantic_search env cfg query0 k source min_quality since =
     (let query = strip (case query0 of None \<Rightarrow> [] | Some q \<Rightarrow> q)
      in if query = [] then ret []
         else bindP (search_throttle env cfg) (\<lambda>_.
           bindP (embed_query_cached env cfg query) (\<lambda>v.
           bindP (with_conn env cfg (run_search env (search_query v k source min_quality since))) (\<lambda>rows.
           ret (map hit_of rows)))))"

section \<open>Statements fit\<close>

lemma placeholders_Cons: "c \<noteq> CHR ''%'' \<Longrightarrow> placeholders (c # s) = placeholders s"
  by (cases s) auto

lemma where_nonempty: "fst (search_where source min_quality since) \<noteq> []"
  by (auto simp: search_where_def Let_def split: option.split)

lemma placeholders_where:
  "placeholders (join '' AND '' (fst (search_where source min_quality since)) @ CHR '' '' # t)
     = length (snd (search_where source min_quality since)) + placeholders (CHR '' '' # t)"
  by (cases source; cases min_quality; cases since) (auto simp: search_where_def Let_def)

text \<open>Every combination of filters gives a statement with one placeholder per parameter.\<close>

theorem search_query_aligned:
  "placeholders (fst (search_query v k source min_quality since)) = length (snd (search_query v k source min_quality since))"
proof -
  have "placeholders (search_sql w) = 1 + placeholders (join '' AND '' w @ CHR '' '' # ''ORDER BY embedding <=> %s::vector LIMIT %s'')" for w
    by (simp add: search_sql_def placeholders_Cons)
  then show ?thesis
    by (simp add: search_query_def Let_def case_prod_unfold placeholders_where)
qed

section \<open>How far apart queries are\<close>

lemma throttle_Inr:
  "search_throttle env cfg s = (Inr u, s') \<longleftrightarrow> RAG_QPS cfg \<noteq> 0 \<and> (\<exists>now. env (trace s) Monotonic = Time now
     \<and> 1 / RAG_QPS cfg \<le> now - s_next s
     \<and> s' = s\<lparr>trace := trace s @ [(Monotonic, Time now)], s_next := now + 1 / RAG_QPS cfg\<rparr>)"
  by (auto simp: search_throttle_def bindP_eq_Inr call_time_Inr getP_def updP_def throw_def Let_def not_less
      split: if_splits)

text \<open>Calls of the search, each with its own query, one after another.\<close>

record request =
  q_text :: "string option"
  q_k :: int
  q_source :: "string option"
  q_quality :: "rat option"
  q_since :: "string option"

fun serve :: "env \<Rightarrow> config \<Rightarrow> request list \<Rightarrow> 'z sworld_scheme \<Rightarrow> 'z sworld_scheme" where
  "serve env cfg [] s = s"
| "serve env cfg (r # rs) s = serve env cfg rs
     (snd (semantic_search env cfg (q_text r) (q_k r) (q_source r) (q_quality r) (q_since r) s))"

text \<open>
  The gate lets a query pass exactly when two periods of the configured rate have gone by
  since the last one that passed. It is documented to allow one query per period, so a client that
  keeps to the documented rate is refused every other time.
\<close>

theorem gate_period:
  assumes "search_throttle env cfg s = (Inr u, s1)" "env (trace s) Monotonic = Time t1"
    and "s_next s2 = s_next s1" "env (trace s2) Monotonic = Time t2"
  shows "(\<exists>s3. search_throttle env cfg s2 = (Inr (), s3)) \<longleftrightarrow> 2 / RAG_QPS cfg \<le> t2 - t1"
proof -
  have "RAG_QPS cfg \<noteq> 0" "s_next s2 = t1 + 1 / RAG_QPS cfg"
    using assms by (auto simp: throttle_Inr)
  moreover have "1 / RAG_QPS cfg \<le> t2 - (t1 + 1 / RAG_QPS cfg) \<longleftrightarrow> 2 / RAG_QPS cfg \<le> t2 - t1"
    using add_divide_distrib [of 1 1 "RAG_QPS cfg"] by auto
  ultimately show ?thesis using assms(4) by (auto simp: throttle_Inr)
qed

definition ticking :: "rat \<Rightarrow> env" where
  "ticking step tr c = (case c of
     Monotonic \<Rightarrow> Time (10 + step * of_nat (length tr))
   | Post u k m ts t \<Rightarrow> Embedded [(0, [1, 0])]
   | Query sql ps \<Rightarrow> ChunkRows []
   | _ \<Rightarrow> Done)"

definition search_config :: config where
  "search_config = default_config\<lparr>EMBEDDING_API_BASE := ''b'', EMBEDDING_API_KEY := ''k'', EMBEDDING_MODEL := ''m''\<rparr>"

theorem gate_period_witness:
  "(\<exists>s3. search_throttle (ticking 1) default_config
      \<lparr>trace = [(Monotonic, Time 10)], c_pool = True, s_next = 11, s_cache = []\<rparr> = (Inr (), s3))
   \<longleftrightarrow> 2 / RAG_QPS default_config \<le> 11 - 10"
proof -
  have "\<exists>s1. search_throttle (ticking 1) default_config \<lparr>trace = [], c_pool = True, s_next = 0, s_cache = []\<rparr>
      = (Inr (), s1) \<and> s_next s1 = 11"
    by (simp add: throttle_Inr ticking_def default_config_def)
  then obtain s1 where "search_throttle (ticking 1) default_config
      \<lparr>trace = [], c_pool = True, s_next = 0, s_cache = []\<rparr> = (Inr (), s1)" "s_next s1 = 11"
    by blast
  from gate_period [OF this(1), of 10 "\<lparr>trace = [(Monotonic, Time 10)], c_pool = True, s_next = 11, s_cache = []\<rparr>" 11] this(2)
  show ?thesis by (simp add: ticking_def)
qed

section \<open>What the cache holds\<close>

definition answered :: "event list \<Rightarrow> string \<Rightarrow> vec \<Rightarrow> bool" where
  "answered tr q v \<longleftrightarrow> (\<exists>u k m t i rest. (Post u k m [q] t, Embedded ((i, v) # rest)) \<in> set tr)"

definition cache_ok :: "'z sworld_scheme \<Rightarrow> bool" where
  "cache_ok s \<longleftrightarrow> length (s_cache s) \<le> cache_size \<and> distinct (map fst (s_cache s))
     \<and> (\<forall>(q, v) \<in> set (s_cache s). answered (trace s) q v)"

lemma cache_ok_extend:
  "cache_ok s \<Longrightarrow> s_cache s' = s_cache s \<Longrightarrow> set (trace s) \<subseteq> set (trace s') \<Longrightarrow> cache_ok s'"
  unfolding cache_ok_def answered_def by fastforce

lemma cache_triple:
  assumes "keeps s_cache m" "emits (\<lambda>_. True) m"
  shows "triple cache_ok m (\<lambda>_. cache_ok) (\<lambda>_. cache_ok)"
proof (rule tripleI)
  fix s x s' assume "cache_ok s" "m s = (Inr x, s')"
  then show "cache_ok s'"
    using keepsD [OF assms(1)] emitsD [OF assms(2), of s "Inr x" s'] by (auto intro: cache_ok_extend)
next
  fix s e s' assume "cache_ok s" "m s = (Inl e, s')"
  then show "cache_ok s'"
    using keepsD [OF assms(1)] emitsD [OF assms(2), of s "Inl e" s'] by (auto intro: cache_ok_extend)
qed

lemma embed_query_answered:
  "embed_query env cfg q s = (Inr v, s') \<Longrightarrow> answered (trace s') q v"
  unfolding embed_query_def answered_def
  by (auto simp: bindP_eq_Inr call_Inr throw_def ret_def split: if_splits reply.splits list.splits) blast+

lemma distinct_hit: "distinct (map fst c) \<Longrightarrow> distinct (map fst (cache_hit q c))"
  by (auto simp: cache_hit_def distinct_map inj_on_def distinct_filter)

lemma length_hit: "length (cache_hit q c) = length c"
  by (induction c) (auto simp: cache_hit_def)

lemma cache_hit_ok: "cache_ok s \<Longrightarrow> cache_ok (s_cache_update (cache_hit q) s)"
  by (auto simp: cache_ok_def length_hit distinct_hit) (auto simp: cache_hit_def)

lemma cache_add_ok:
  assumes "cache_ok s" "q \<notin> fst ` set (s_cache s)" "answered (trace s) q v"
  shows "cache_ok (s_cache_update (cache_add q v) s)"
proof -
  have "set (tl c) \<subseteq> set c" for c :: "(string \<times> vec) list" by (cases c) auto
  with assms show ?thesis
    by (auto simp: cache_ok_def cache_add_def cache_size_def distinct_tl map_tl) blast+
qed

lemma embed_query_frame: "keeps s_cache (embed_query env cfg q)" "emits (\<lambda>_. True) (embed_query env cfg q)"
  by (auto simp: embed_query_def intro!: keeps_rules emits_rules split: reply.split list.split)

lemma embed_query_cached_ok: "triple cache_ok (embed_query_cached env cfg q) (\<lambda>_. cache_ok) (\<lambda>_. cache_ok)"
proof (rule tripleI)
  fix s v s' assume ok: "cache_ok s" and run: "embed_query_cached env cfg q s = (Inr v, s')"
  show "cache_ok s'"
  proof (cases "map_of (s_cache s) q")
    case None
    then obtain s1 where 1: "embed_query env cfg q s = (Inr v, s1)" and 2: "s' = s_cache_update (cache_add q v) s1"
      using run by (auto simp: embed_query_cached_def bindP_eq_Inr getP_def updP_def ret_def)
    have "cache_ok s1" using tripleD(1) [OF cache_triple [OF embed_query_frame] ok 1] .
    moreover have "s_cache s1 = s_cache s" using keepsD [OF embed_query_frame(1) 1] .
    ultimately show ?thesis
      using None cache_add_ok [of s1 q v] embed_query_answered [OF 1] by (simp add: 2 map_of_eq_None_iff)
  next
    case (Some w)
    with run ok show ?thesis
      by (auto simp: embed_query_cached_def bindP_eq_Inr getP_def updP_def ret_def cache_hit_ok)
  qed
next
  fix s e s' assume ok: "cache_ok s" and run: "embed_query_cached env cfg q s = (Inl e, s')"
  then have "embed_query env cfg q s = (Inl e, s')"
    by (auto simp: embed_query_cached_def bindP_def getP_def updP_def ret_def split: option.splits prod.splits sum.splits)
  from tripleD(2) [OF cache_triple [OF embed_query_frame] ok this] show "cache_ok s'" .
qed

lemma keeps_finally [keeps_rules]: "keeps g m \<Longrightarrow> keeps g k \<Longrightarrow> keeps g (finallyP m k)"
  by (auto simp: keeps_def finallyP_def split: prod.split sum.split) (metis snd_conv)+

lemma search_conn_frame:
  "keeps s_cache (with_conn env cfg (run_search env q))" "emits (\<lambda>_. True) (with_conn env cfg (run_search env q))"
  by (auto simp: with_conn_def take_conn_def get_pool_def put_conn_def run_search_def
      intro!: keeps_rules emits_rules split: reply.split)

lemma search_throttle_frame:
  "keeps s_cache (search_throttle env cfg)" "emits (\<lambda>_. True) (search_throttle env cfg)"
  by (auto simp: search_throttle_def Let_def intro!: keeps_rules emits_rules)

lemma triple_snd: "triple P m (\<lambda>_. Q) (\<lambda>_. Q) \<Longrightarrow> P s \<Longrightarrow> Q (snd (m s))"
  by (cases "m s"; cases "fst (m s)") (auto dest: tripleD)

lemma semantic_search_cache:
  "triple cache_ok (semantic_search env cfg q k source min_quality since) (\<lambda>_. cache_ok) (\<lambda>_. cache_ok)"
  unfolding semantic_search_def Let_def
  by (auto intro!: triple_ret triple_bind [OF cache_triple [OF search_throttle_frame]]
      triple_bind [OF embed_query_cached_ok] triple_bind [OF cache_triple [OF search_conn_frame]])

text \<open>
  C26: Whatever requests are served, in whatever order and however they end, the cache never holds
  more than its 128 entries, has each query once, and every vector in it is the one the server
  returned for exactly that query.
\<close>

theorem serve_cache_ok: "cache_ok s \<Longrightarrow> cache_ok (serve env cfg rs s)"
proof (induction rs arbitrary: s)
  case Nil
  then show ?case by simp
next
  case (Cons r rs)
  have "cache_ok (snd (semantic_search env cfg (q_text r) (q_k r) (q_source r) (q_quality r) (q_since r) s))"
    by (rule triple_snd [OF semantic_search_cache Cons.prems])
  from Cons.IH [OF this] show ?case by simp
qed

theorem serve_cache_ok_witness:
  "cache_ok (serve (ticking 1) search_config
     [\<lparr>q_text = Some ''sort'', q_k = 8, q_source = None, q_quality = None, q_since = None\<rparr>,
      \<lparr>q_text = Some ''heap'', q_k = 8, q_source = None, q_quality = Some (1/2), q_since = None\<rparr>]
     \<lparr>trace = [], c_pool = True, s_next = 0, s_cache = []\<rparr>)"
  by (rule serve_cache_ok) (simp add: cache_ok_def)

text \<open>
  A repeated query is not free: the gate comes before the cache. And a server that cannot be
  reached is no \<open>SearchUnavailable\<close>.
\<close>

lemma repeated_query_limited:
  "(let search = semantic_search (ticking (1/4)) search_config (Some ''sort'') 8 None None None;
        first = search \<lparr>trace = [], c_pool = True, s_next = 0, s_cache = []\<rparr>
    in fst first = Inr [] \<and> map fst (s_cache (snd first)) = [''sort'']
      \<and> (case fst (search (snd first)) of Inl (RateLimited _) \<Rightarrow> True | _ \<Rightarrow> False))"
  by code_simp

definition no_server :: env where
  "no_server tr c = (case c of Monotonic \<Rightarrow> Time 10
     | Post u k m ts t \<Rightarrow> Fail (RequestException ''ConnectionError'') | _ \<Rightarrow> Done)"

lemma unreachable_server:
  "fst (semantic_search no_server search_config (Some ''sort'') 8 None None None
     \<lparr>trace = [], c_pool = True, s_next = 0, s_cache = []\<rparr>) = Inl (RequestException ''ConnectionError'')"
  by code_simp

end
