(* ===== verification/Monitor.thy ===== *)
theory Monitor
  imports Session
begin

text \<open>
  \<open>py-processor/monitor.py\<close>: the sampler that turns Redis counters into rows of
  \<open>pipeline_snapshots\<close>, with the change of every source's counters since the last sample.
  A dictionary is the list of its items; the order in which Python iterates over a set of
  sources is not modelled. Redis, PostgreSQL and the clock are the environment, the JSON
  printer is the parameter \<open>dumps\<close>.

  The lemmas give the deltas, their sum over a history without resets, and what a failing
  sample leaves behind.
\<close>

section \<open>A sample\<close>

type_synonym counters = "(string \<times> int) list"

record sample =
  s_taken :: rat
  s_produced :: int
  s_stored :: int
  s_rejected :: int
  s_pending :: int
  s_dlq :: int
  s_stream_len :: int
  s_produced_by :: counters
  s_stored_by :: counters
  s_rejected_by :: counters

definition count_of :: "counters \<Rightarrow> string \<Rightarrow> int" where
  "count_of d k = (case map_of d k of None \<Rightarrow> 0 | Some n \<Rightarrow> n)"

text \<open>\<open>int(x or 0)\<close> of a reply.\<close>

definition to_int :: "string \<Rightarrow> exn + int" where
  "to_int t = (case py_int t of None \<Rightarrow> Inl (ValueError ''int'') | Some i \<Rightarrow> Inr i)"

definition get_counter :: "env \<Rightarrow> string \<Rightarrow> ('z world_scheme, int) prog" where
  "get_counter env key = bindP (call env (Get key)) (\<lambda>r. case r of
     Null \<Rightarrow> ret 0
   | Txt t \<Rightarrow> if t = [] then ret 0 else liftE (to_int t)
   | _ \<Rightarrow> throw bad_reply)"

fun int_values :: "(string \<times> string) list \<Rightarrow> exn + counters" where
  "int_values [] = Inr []"
| "int_values ((k, v) # d) = (case to_int v of
     Inl e \<Rightarrow> Inl e
   | Inr i \<Rightarrow> (case int_values d of Inl e \<Rightarrow> Inl e | Inr d' \<Rightarrow> Inr ((k, i) # d')))"

definition get_counters :: "env \<Rightarrow> string \<Rightarrow> ('z world_scheme, counters) prog" where
  "get_counters env key = bindP (call_pairs env (Hgetall key)) (\<lambda>d. liftE (int_values d))"

definition read_state :: "env \<Rightarrow> config \<Rightarrow> ('z world_scheme, sample) prog" where
  "read_state env cfg =
     bindP (call env (Xpending (STREAM cfg) (CONSUMER_GROUP cfg))) (\<lambda>pend.
     bindP (call_time env Now) (\<lambda>taken.
     bindP (get_counter env ''metrics:articles:produced'') (\<lambda>produced.
     bindP (get_counter env ''metrics:articles:stored'') (\<lambda>stored.
     bindP (get_counter env ''metrics:articles:rejected'') (\<lambda>rejected.
     bindP (call_num env (Xlen (DLQ_STREAM cfg))) (\<lambda>dlq.
     bindP (call_num env (Xlen (STREAM cfg))) (\<lambda>stream_len.
     bindP (get_counters env ''metrics:articles:produced_by_source'') (\<lambda>produced_by.
     bindP (get_counters env ''metrics:articles:stored_by_source'') (\<lambda>stored_by.
     bindP (get_counters env ''metrics:articles:rejected_by_source'') (\<lambda>rejected_by.
     ret \<lparr>s_taken = taken, s_produced = produced, s_stored = stored, s_rejected = rejected,
          s_pending = (case pend of Num n \<Rightarrow> n | _ \<Rightarrow> 0), s_dlq = dlq, s_stream_len = stream_len,
          s_produced_by = produced_by, s_stored_by = stored_by, s_rejected_by = rejected_by\<rparr>))))))))))"

section \<open>The change between two samples\<close>

record deltas =
  produced_delta :: int
  stored_delta :: int
  rejected_delta :: "int option"

definition no_sources :: sample where
  "no_sources = \<lparr>s_taken = 0, s_produced = 0, s_stored = 0, s_rejected = 0, s_pending = 0, s_dlq = 0,
     s_stream_len = 0, s_produced_by = [], s_stored_by = [], s_rejected_by = []\<rparr>"

definition sources_of :: "sample \<Rightarrow> sample \<Rightarrow> string list" where
  "sources_of prev cur = remdups (map fst (s_produced_by prev @ s_produced_by cur @ s_stored_by prev
     @ s_stored_by cur @ s_rejected_by prev @ s_rejected_by cur))"

definition delta :: "(sample \<Rightarrow> counters) \<Rightarrow> sample \<Rightarrow> sample \<Rightarrow> string \<Rightarrow> int" where
  "delta key prev cur src = max 0 (count_of (key cur) src - count_of (key prev) src)"

definition compute_by_source :: "sample option \<Rightarrow> sample \<Rightarrow> (string \<times> deltas) list" where
  "compute_by_source prev0 cur =
     (let (prev, zero_first) = (case prev0 of None \<Rightarrow> (no_sources, True) | Some p \<Rightarrow> (p, False))
      in map (\<lambda>src. (src,
           if zero_first then \<lparr>produced_delta = 0, stored_delta = 0, rejected_delta = Some 0\<rparr>
           else \<lparr>produced_delta = delta s_produced_by prev cur src,
                 stored_delta = delta s_stored_by prev cur src,
                 rejected_delta = Some (delta s_rejected_by prev cur src)\<rparr>))
         (sources_of prev cur))"

section \<open>Persisting\<close>

definition snapshot_sql :: string where
  "snapshot_sql = ''INSERT INTO pipeline_snapshots (produced, stored, rejected, pending, dlq, stream_len, by_source) VALUES (%s, %s, %s, %s, %s, %s, %s)''"

definition prune_sql :: string where
  "prune_sql = ''DELETE FROM pipeline_snapshots WHERE taken_at < now() - (%s || ' days')::interval''"

type_synonym by_source = "(string \<times> deltas) list"

text \<open>The first sample has its own dictionary, not that of \<open>compute_by_source\<close>.\<close>

definition snapshot_deltas :: "sample option \<Rightarrow> sample \<Rightarrow> by_source" where
  "snapshot_deltas prev cur = (case prev of
     Some p \<Rightarrow> compute_by_source (Some p) cur
   | None \<Rightarrow> map (\<lambda>src. (src, \<lparr>produced_delta = 0, stored_delta = 0, rejected_delta = None\<rparr>))
       (remdups (map fst (s_produced_by cur @ s_stored_by cur))))"

definition snapshot_row :: "(by_source \<Rightarrow> string) \<Rightarrow> sample option \<Rightarrow> sample \<Rightarrow> param list" where
  "snapshot_row dumps prev cur = [PInt (s_produced cur), PInt (s_stored cur), PInt (s_rejected cur),
     PInt (s_pending cur), PInt (s_dlq cur), PInt (s_stream_len cur), PText (dumps (snapshot_deltas prev cur))]"

definition write_snapshot :: "env \<Rightarrow> config \<Rightarrow> param list \<Rightarrow> ('z cworld_scheme, unit) prog" where
  "write_snapshot env cfg row = with_conn env cfg
     (bindP (call_unit env (Execute snapshot_sql row)) (\<lambda>_. call_unit env Commit))"

definition snapshot_once ::
  "env \<Rightarrow> config \<Rightarrow> (by_source \<Rightarrow> string) \<Rightarrow> sample option \<Rightarrow> ('z cworld_scheme, sample) prog" where
  "snapshot_once env cfg dumps prev =
     bindP (read_state env cfg) (\<lambda>cur.
     bindP (write_snapshot env cfg (snapshot_row dumps prev cur)) (\<lambda>_. ret cur))"

text \<open>The flag says whether the caller passed its own connection, which it keeps.\<close>

definition prune_body :: "env \<Rightarrow> int \<Rightarrow> ('z world_scheme, unit) prog" where
  "prune_body env retention =
     bindP (call_unit env (Execute prune_sql [PInt retention])) (\<lambda>_. call_unit env Commit)"

definition prune_old :: "env \<Rightarrow> config \<Rightarrow> int \<Rightarrow> bool \<Rightarrow> ('z cworld_scheme, unit) prog" where
  "prune_old env cfg retention given =
     (if given then prune_body env retention else with_conn env cfg (prune_body env retention))"

section \<open>The loop\<close>

record monitor_config =
  INTERVAL :: int
  RETENTION_DAYS :: int

definition load_monitor :: "(string \<rightharpoonup> string) \<Rightarrow> exn + monitor_config" where
  "load_monitor e =
     bindE (getint e ''MONITOR_INTERVAL'' ''60'') (\<lambda>interval.
     bindE (getint e ''MONITOR_RETENTION_DAYS'' ''7'') (\<lambda>retention.
     Inr \<lparr>INTERVAL = interval, RETENTION_DAYS = retention\<rparr>))"

record mworld = cworld +
  m_prev :: "sample option"
  m_last_prune :: rat

definition sample_turn ::
  "env \<Rightarrow> config \<Rightarrow> monitor_config \<Rightarrow> (by_source \<Rightarrow> string) \<Rightarrow> ('z mworld_scheme, unit) prog" where
  "sample_turn env cfg mc dumps =
     bindP (getP m_prev) (\<lambda>prev.
     bindP (snapshot_once env cfg dumps prev) (\<lambda>cur.
     bindP (updP (m_prev_update (\<lambda>_. Some cur))) (\<lambda>_.
     bindP (call_time env Now) (\<lambda>now.
     bindP (getP m_last_prune) (\<lambda>last.
     if now - last > 6 * 3600
     then bindP (prune_old env cfg (RETENTION_DAYS mc) False) (\<lambda>_.
          bindP (call_time env Now) (\<lambda>now'. updP (m_last_prune_update (\<lambda>_. now'))))
     else ret ())))))"

definition monitor_turn ::
  "env \<Rightarrow> config \<Rightarrow> monitor_config \<Rightarrow> (by_source \<Rightarrow> string) \<Rightarrow> ('z mworld_scheme, unit) prog" where
  "monitor_turn env cfg mc dumps =
     bindP (tryP (sample_turn env cfg mc dumps) is_Exception
       (\<lambda>_. updP (m_prev_update (\<lambda>_. None)))) (\<lambda>_.
     py_sleep env (Fin (of_int (INTERVAL mc))))"

text \<open>The endless loop, run for a number of turns.\<close>

fun monitor_loop ::
  "env \<Rightarrow> config \<Rightarrow> monitor_config \<Rightarrow> (by_source \<Rightarrow> string) \<Rightarrow> nat \<Rightarrow> ('z mworld_scheme, unit) prog" where
  "monitor_loop env cfg mc dumps 0 = ret ()"
| "monitor_loop env cfg mc dumps (Suc n) =
     bindP (monitor_turn env cfg mc dumps) (\<lambda>_. monitor_loop env cfg mc dumps n)"

definition monitor_main ::
  "env \<Rightarrow> config \<Rightarrow> monitor_config \<Rightarrow> (by_source \<Rightarrow> string) \<Rightarrow> nat \<Rightarrow> ('z mworld_scheme, unit) prog" where
  "monitor_main env cfg mc dumps n =
     bindP (updP (m_prev_update (\<lambda>_. None))) (\<lambda>_.
     bindP (updP (m_last_prune_update (\<lambda>_. 0))) (\<lambda>_. monitor_loop env cfg mc dumps n))"

section \<open>Deltas\<close>

lemma sources_in:
  "src \<in> set (sources_of prev cur) \<longleftrightarrow>
     src \<in> fst ` set (s_produced_by prev) \<or> src \<in> fst ` set (s_produced_by cur)
     \<or> src \<in> fst ` set (s_stored_by prev) \<or> src \<in> fst ` set (s_stored_by cur)
     \<or> src \<in> fst ` set (s_rejected_by prev) \<or> src \<in> fst ` set (s_rejected_by cur)"
  by (auto simp: sources_of_def image_iff)

lemma map_of_tabulate: "map_of (map (\<lambda>x. (x, f x)) xs) k = (if k \<in> set xs then Some (f k) else None)"
  by (induction xs) auto

lemma count_of_absent: "src \<notin> fst ` set d \<Longrightarrow> count_of d src = 0"
  by (simp add: count_of_def map_of_eq_None_iff [THEN iffD2])

text \<open>A source's entry, zero when the dictionary does not have it.\<close>

definition produced_change :: "by_source \<Rightarrow> string \<Rightarrow> int" where
  "produced_change d src = (case map_of d src of None \<Rightarrow> 0 | Some x \<Rightarrow> produced_delta x)"

lemma produced_change_delta:
  "produced_change (compute_by_source (Some prev) cur) src = delta s_produced_by prev cur src"
proof (cases "src \<in> set (sources_of prev cur)")
  case True
  then show ?thesis by (simp add: produced_change_def compute_by_source_def map_of_tabulate)
next
  case False
  then have "delta s_produced_by prev cur src = 0"
    by (simp add: sources_in delta_def count_of_absent)
  with False show ?thesis by (simp add: produced_change_def compute_by_source_def map_of_tabulate)
qed

text \<open>The changes a run of consecutive samples records for a source.\<close>

fun recorded :: "sample option \<Rightarrow> sample list \<Rightarrow> string \<Rightarrow> int" where
  "recorded prev [] src = 0"
| "recorded prev (cur # ss) src = produced_change (snapshot_deltas prev cur) src + recorded (Some cur) ss src"

lemma recorded_Some:
  "sorted (map (\<lambda>s. count_of (s_produced_by s) src) (p # ss)) \<Longrightarrow>
   recorded (Some p) ss src = count_of (s_produced_by (last (p # ss))) src - count_of (s_produced_by p) src"
  by (induction ss arbitrary: p) (auto simp: snapshot_deltas_def produced_change_delta delta_def)

lemma first_change: "produced_change (snapshot_deltas None cur) src = 0"
  by (simp add: produced_change_def snapshot_deltas_def map_of_tabulate)

text \<open>
  Over a run of samples without a counter reset the recorded changes of a source add up to
  the difference of its counter between the first sample and the last: no article is counted
  twice or left out, whichever sources come and go in the dictionaries.
\<close>

theorem recorded_telescopes:
  assumes "sorted (map (\<lambda>s. count_of (s_produced_by s) src) (first # ss))"
  shows "recorded None (first # ss) src
    = count_of (s_produced_by (last (first # ss))) src - count_of (s_produced_by first) src"
  using recorded_Some [OF assms] by (simp add: first_change)

definition sampled :: "counters \<Rightarrow> sample" where
  "sampled d = no_sources\<lparr>s_produced_by := d\<rparr>"

theorem recorded_telescopes_witness:
  "recorded None [sampled [(''devto'', 3)], sampled [(''devto'', 5), (''hn'', 2)], sampled [(''devto'', 9), (''hn'', 2)]]
     ''devto'' = 6"
  using recorded_telescopes [of "''devto''" "sampled [(''devto'', 3)]"
      "[sampled [(''devto'', 5), (''hn'', 2)], sampled [(''devto'', 9), (''hn'', 2)]]"]
  by (simp add: sampled_def no_sources_def count_of_def)

text \<open>
  The first sample leaves out the rejections, unlike \<open>compute_by_source\<close>, whose case for it is
  never reached.
\<close>

lemma first_sample_differs:
  "snapshot_deltas None (no_sources\<lparr>s_rejected_by := [(''hn'', 4)]\<rparr>) = []
   \<and> compute_by_source None (no_sources\<lparr>s_rejected_by := [(''hn'', 4)]\<rparr>)
     = [(''hn'', \<lparr>produced_delta = 0, stored_delta = 0, rejected_delta = Some 0\<rparr>)]"
  by (simp add: snapshot_deltas_def compute_by_source_def no_sources_def sources_of_def)

section \<open>Failing samples\<close>

abbreviation odd_exit :: "exn \<Rightarrow> bool" where
  "odd_exit e \<equiv> \<not> is_Exception e"

lemma to_int_exn: "to_int t = Inl e \<Longrightarrow> is_Exception e"
  by (auto simp: to_int_def split: option.splits)

lemma int_values_exn: "int_values d = Inl e \<Longrightarrow> is_Exception e"
  by (induction d rule: int_values.induct) (auto split: sum.splits dest: to_int_exn)

lemma read_state_exn: "env_avoids odd_exit env \<Longrightarrow> avoids odd_exit (read_state env cfg)"
  unfolding read_state_def get_counter_def get_counters_def
  by (auto intro!: avoids_rules simp: bad_reply_def split: reply.split dest: to_int_exn int_values_exn)

lemma sample_turn_exn: "env_avoids odd_exit env \<Longrightarrow> avoids odd_exit (sample_turn env cfg mc dumps)"
  unfolding sample_turn_def snapshot_once_def write_snapshot_def prune_old_def prune_body_def
  by (auto intro!: avoids_rules read_state_exn simp: bad_reply_def)

definition is_sleep :: "event \<Rightarrow> bool" where
  "is_sleep e \<longleftrightarrow> (case fst e of Sleep _ \<Rightarrow> True | _ \<Rightarrow> False)"

lemma is_sleep_pair: "is_sleep (c, r) \<longleftrightarrow> (case c of Sleep _ \<Rightarrow> True | _ \<Rightarrow> False)"
  by (simp add: is_sleep_def)

text \<open>The calls of one turn: a fresh sample begins, and a pause of the interval ends it.\<close>

definition turn_calls :: "config \<Rightarrow> monitor_config \<Rightarrow> event list \<Rightarrow> bool" where
  "turn_calls cfg mc es \<longleftrightarrow> (\<exists>r sampling x.
     es = (Xpending (STREAM cfg) (CONSUMER_GROUP cfg), r) # sampling @ [(Sleep (of_int (INTERVAL mc)), x)]
     \<and> list_all (\<lambda>e. \<not> is_sleep e) sampling)"

lemma first_call:
  assumes "\<And>x. emits P (k x)"
  shows "\<exists>r es. trace (snd (bindP (call env c) k s)) = trace s @ (c, r) # es \<and> list_all P es"
proof -
  obtain x s1 where c: "call env c s = (x, s1)" by fastforce
  have tr: "trace s1 = trace s @ [(c, env (trace s) c)]" using call_trace [of env c s] c by simp
  show ?thesis
  proof (cases x)
    case (Inl e)
    with c tr show ?thesis by (auto simp: bindP_def)
  next
    case (Inr y)
    obtain z s2 where k: "k y s1 = (z, s2)" by fastforce
    with emitsD [OF assms this] c Inr tr show ?thesis by (auto simp: bindP_def)
  qed
qed

lemma sample_turn_calls:
  fixes s :: "'z mworld_scheme"
  shows "\<exists>r es. trace (snd (sample_turn env cfg mc dumps s))
    = trace s @ (Xpending (STREAM cfg) (CONSUMER_GROUP cfg), r) # es \<and> list_all (\<lambda>e. \<not> is_sleep e) es"
proof -
  have counters: "emits (\<lambda>e. \<not> is_sleep e) (get_counter env k)" "emits (\<lambda>e. \<not> is_sleep e) (get_counters env k)" for k
    unfolding get_counter_def get_counters_def
    by (auto simp: is_sleep_pair intro!: emits_rules split: reply.split)
  have body: "emits (\<lambda>e. \<not> is_sleep e) (write_snapshot env cfg row)" "emits (\<lambda>e. \<not> is_sleep e) (prune_old env cfg k False)"
    for row k
    unfolding write_snapshot_def prune_old_def prune_body_def with_conn_def take_conn_def put_conn_def get_pool_def
    by (auto simp: is_sleep_pair intro!: emits_rules)
  show ?thesis
    unfolding sample_turn_def snapshot_once_def read_state_def bindP_assoc
    by (subst bindP_def, simp add: getP_def)
      (intro first_call, auto simp: is_sleep_pair intro!: emits_rules counters body)
qed

text \<open>
  C25: Whatever fails in Redis or PostgreSQL, and however often, the monitor goes on: it makes
  exactly as many turns as asked for, each of which takes a fresh sample, after failed ones too,
  and then pauses once for the interval, which must not be negative.
\<close>

theorem monitor_survives:
  fixes s :: "'z mworld_scheme"
  assumes "env_avoids odd_exit env" "\<forall>tr t. ok_reply (env tr (Sleep t))" "0 \<le> INTERVAL mc"
  shows "\<exists>s' turns. monitor_main env cfg mc dumps n s = (Inr (), s') \<and> length turns = n
    \<and> trace s' = trace s @ concat turns \<and> list_all (turn_calls cfg mc) turns"
proof -
  have turn: "\<exists>s' es. monitor_turn env cfg mc dumps s = (Inr (), s') \<and> trace s' = trace s @ es \<and> turn_calls cfg mc es"
    for s :: "'z mworld_scheme"
  proof -
    obtain r s1 where st: "sample_turn env cfg mc dumps s = (r, s1)" by fastforce
    obtain x es where es: "trace s1 = trace s @ (Xpending (STREAM cfg) (CONSUMER_GROUP cfg), x) # es"
      "list_all (\<lambda>e. \<not> is_sleep e) es"
      using sample_turn_calls [of env cfg mc dumps s] st by auto
    have "r = Inl e \<Longrightarrow> is_Exception e" for e
      using avoidsD [OF sample_turn_exn [OF assms(1)], of cfg mc dumps s e s1] st by simp
    then obtain s2 where "tryP (sample_turn env cfg mc dumps) is_Exception
        (\<lambda>_. updP (m_prev_update (\<lambda>_. None))) s = (Inr (), s2)" "trace s2 = trace s1"
      using st by (cases r) (auto simp: tryP_def updP_def)
    moreover obtain y where "py_sleep env (Fin (of_int (INTERVAL mc))) s2
        = (Inr (), s2\<lparr>trace := trace s2 @ [(Sleep (of_int (INTERVAL mc)), y)]\<rparr>)"
      using py_sleep_Inr [of "of_int (INTERVAL mc)" env s2] assms(2,3) by auto
    moreover have "turn_calls cfg mc ((Xpending (STREAM cfg) (CONSUMER_GROUP cfg), x) # es
        @ [(Sleep (of_int (INTERVAL mc)), y)])" for y
      unfolding turn_calls_def using es(2) by blast
    ultimately show ?thesis using es(1) by (auto simp: monitor_turn_def bindP_def)
  qed
  have "\<exists>s' turns. monitor_loop env cfg mc dumps n s = (Inr (), s') \<and> length turns = n
      \<and> trace s' = trace s @ concat turns \<and> list_all (turn_calls cfg mc) turns" for s :: "'z mworld_scheme"
  proof (induction n arbitrary: s)
    case 0
    then show ?case by (simp add: ret_def)
  next
    case (Suc n)
    obtain s1 es where 1: "monitor_turn env cfg mc dumps s = (Inr (), s1)" "trace s1 = trace s @ es" "turn_calls cfg mc es"
      using turn by blast
    obtain s' turns where 2: "monitor_loop env cfg mc dumps n s1 = (Inr (), s')" "length turns = n"
      "trace s' = trace s1 @ concat turns" "list_all (turn_calls cfg mc) turns"
      using Suc.IH by blast
    from 1 2 show ?case by (intro exI [of _ s'] exI [of _ "es # turns"]) (simp add: bindP_def)
  qed
  from this [of "s\<lparr>m_prev := None, m_last_prune := 0\<rparr>"] show ?thesis
    by (simp add: monitor_main_def bindP_def updP_def)
qed

theorem monitor_survives_witness:
  "\<exists>s' turns. monitor_main (\<lambda>tr c. case c of Sleep _ \<Rightarrow> Done | _ \<Rightarrow> Fail (RedisError ''down'')) default_config
     \<lparr>INTERVAL = 60, RETENTION_DAYS = 7\<rparr> (\<lambda>_. []) 5
     \<lparr>trace = [], c_pool = False, m_prev = None, m_last_prune = 0\<rparr> = (Inr (), s')
     \<and> length turns = 5 \<and> trace s' = concat turns
     \<and> list_all (turn_calls default_config \<lparr>INTERVAL = 60, RETENTION_DAYS = 7\<rparr>) turns"
  using monitor_survives [of "\<lambda>tr c. case c of Sleep _ \<Rightarrow> Done | _ \<Rightarrow> Fail (RedisError ''down'')"
      "\<lparr>INTERVAL = 60, RETENTION_DAYS = 7\<rparr>" default_config "\<lambda>_. []" 5
      "\<lparr>trace = [], c_pool = False, m_prev = None, m_last_prune = 0\<rparr>"]
  by (simp add: env_avoids_def ok_reply_def split: cmd.splits)

text \<open>A negative interval ends the monitor after its first sample: the pause is outside the \<open>try\<close>.\<close>

lemma negative_interval_ends:
  assumes "INTERVAL mc < 0" "env_avoids odd_exit env"
  shows "fst (monitor_main env cfg mc dumps (Suc n) s) = Inl (ValueError ''sleep length must be non-negative'')"
proof -
  have "fst (monitor_turn env cfg mc dumps s) = Inl (ValueError ''sleep length must be non-negative'')" for s
  proof -
    obtain r s1 where st: "sample_turn env cfg mc dumps s = (r, s1)" by fastforce
    have "r = Inl e \<Longrightarrow> is_Exception e" for e
      using avoidsD [OF sample_turn_exn [OF assms(2)], of cfg mc dumps s e s1] st by simp
    with st assms(1) show ?thesis
      by (cases r) (auto simp: monitor_turn_def tryP_def updP_def bindP_def py_sleep_def throw_def)
  qed
  from this [of "s\<lparr>m_prev := None, m_last_prune := 0\<rparr>"] show ?thesis
    by (auto simp: monitor_main_def bindP_def updP_def split: prod.splits sum.splits)
qed

text \<open>A sample after a failed one records no change, so the change across the gap is not booked.\<close>

lemma gap_not_booked:
  assumes "sample_turn env cfg mc dumps s = (Inl e, s1)" "is_Exception e"
    "monitor_turn env cfg mc dumps s = (Inr u, s2)"
  shows "m_prev s2 = None"
  using assms by (auto simp: monitor_turn_def tryP_def bindP_def updP_def py_sleep_def throw_def call_unit_Inr
      split: prod.splits sum.splits if_splits)

end
