(* ===== verification/Dashboard.thy ===== *)
theory Dashboard
  imports Search Monitor "HOL-Library.Char_ord" "HOL-Library.List_Lexorder"
begin

text \<open>
  \<open>py-processor/dashboard/queries.py\<close> and \<open>py-processor/dashboard/app.py\<close>: the read-only queries of the
  dashboard and the handlers that turn them into HTTP responses. PostgreSQL, Redis, the clock
  and the JSON and ISO parsers are the environment and parameters; FastAPI is present as the checks
  it documents for the declared query parameters, and routing is left out.

  The lemmas: paging visits every article once, statements fit their parameters, the health panel's
  classification and series, the guard of the API, and that no handler lets an exception through.
\<close>

section \<open>Counts\<close>

text \<open>The block of \<open>_ConnCtx\<close> is \<open>with_conn\<close>: taken on entry, given back on exit.\<close>

definition query_counts :: "env \<Rightarrow> config \<Rightarrow> string \<Rightarrow> param list \<Rightarrow> ('z cworld_scheme, int list list) prog" where
  "query_counts env cfg sql ps = with_conn env cfg (call_counts env (Query sql ps))"

definition query_labels ::
  "env \<Rightarrow> config \<Rightarrow> string \<Rightarrow> param list \<Rightarrow> ('z cworld_scheme, (string option \<times> int) list) prog" where
  "query_labels env cfg sql ps = with_conn env cfg (bindP (call env (Query sql ps)) (\<lambda>r. case r of
     Labels ls \<Rightarrow> ret ls | _ \<Rightarrow> throw bad_reply))"

definition summary_sql :: string where
  "summary_sql = ''SELECT count(*) AS total, count(DISTINCT language) AS langs, count(*) FILTER (WHERE crawled_at >= now() - interval '24 hours') AS last24 FROM articles''"

definition summary :: "env \<Rightarrow> config \<Rightarrow> ('z cworld_scheme, int \<times> int \<times> int) prog" where
  "summary env cfg =
     bindP (query_counts env cfg summary_sql []) (\<lambda>rows. case rows of
       [n, langs, last24] # _ \<Rightarrow> ret (n, langs, last24)
     | _ \<Rightarrow> throw (ValueError ''unpack''))"

definition lang_distribution :: "env \<Rightarrow> config \<Rightarrow> ('z cworld_scheme, (string option \<times> int) list) prog" where
  "lang_distribution env cfg = query_labels env cfg
     ''SELECT language, count(*) AS cnt FROM articles GROUP BY language ORDER BY cnt DESC'' []"

definition source_distribution :: "env \<Rightarrow> config \<Rightarrow> ('z cworld_scheme, (string option \<times> int) list) prog" where
  "source_distribution env cfg = query_labels env cfg
     ''SELECT source_type, count(*) AS cnt FROM articles GROUP BY source_type ORDER BY cnt DESC'' []"

definition daily_sql :: string where
  "daily_sql = ''SELECT date_trunc('day', crawled_at)::date AS day, count(*) AS cnt FROM articles WHERE crawled_at >= now() - (%s || ' days')::interval GROUP BY day ORDER BY day''"

text \<open>\<open>str()\<close> of a date is its ISO text; that of a NULL is \<open>None\<close>.\<close>

definition daily :: "env \<Rightarrow> config \<Rightarrow> int \<Rightarrow> ('z cworld_scheme, (string \<times> int) list) prog" where
  "daily env cfg limit =
     bindP (query_labels env cfg daily_sql [PInt limit]) (\<lambda>rows.
     ret (map (\<lambda>(d, n). (case d of None \<Rightarrow> ''None'' | Some t \<Rightarrow> t, n)) rows))"

section \<open>Articles\<close>

record detail =
  x_id :: int
  x_url :: string
  x_title :: "string option"
  x_content :: "string option"
  x_author :: "string option"
  x_published :: "string option"
  x_tags :: "string list"
  x_source :: "string option"
  x_lang :: "string option"
  x_score :: "rat option"
  x_crawled :: "string option"

definition detail_of :: "art_row \<Rightarrow> detail" where
  "detail_of r = \<lparr>x_id = t_id r, x_url = t_url r, x_title = t_title r, x_content = t_content r,
     x_author = t_author r, x_published = t_published r,
     x_tags = (case t_tags r of None \<Rightarrow> [] | Some ts \<Rightarrow> ts), x_source = t_source r, x_lang = t_lang r,
     x_score = t_score r, x_crawled = t_crawled r\<rparr>"

definition detail_sql :: string where
  "detail_sql = ''SELECT id, url, title, content_md, author, published_at, tags, source_type, language, quality_score, crawled_at FROM articles WHERE id = %s''"

definition article_by_id :: "env \<Rightarrow> config \<Rightarrow> int \<Rightarrow> ('z cworld_scheme, detail option) prog" where
  "article_by_id env cfg aid =
     bindP (with_conn env cfg (call_articles env (Query detail_sql [PInt aid]))) (\<lambda>rows.
     ret (case rows of [] \<Rightarrow> None | r # _ \<Rightarrow> Some (detail_of r)))"

text \<open>
  An item of the list: the lengths and previews are columns the statement computes from the
  content of the row.
\<close>

record item =
  i_id :: int
  i_url :: string
  i_title :: "string option"
  i_lang :: "string option"
  i_source :: "string option"
  i_md_len :: "nat option"
  i_preview :: "string option"
  i_created :: "string option"

definition item_of :: "art_row \<Rightarrow> item" where
  "item_of r = \<lparr>i_id = t_id r, i_url = t_url r, i_title = t_title r, i_lang = t_lang r, i_source = t_source r,
     i_md_len = map_option length (t_content r), i_preview = map_option (take 300) (t_content r),
     i_created = t_crawled r\<rparr>"

definition list_where :: "string option \<Rightarrow> string option \<Rightarrow> string option \<Rightarrow> string list \<times> param list" where
  "list_where lang q source =
     (let (w, p) = ([], []);
          (w, p) = (case lang of None \<Rightarrow> (w, p)
            | Some t \<Rightarrow> if t = [] then (w, p) else (w @ [''language = %s''], p @ [PText t]));
          (w, p) = (case source of None \<Rightarrow> (w, p)
            | Some t \<Rightarrow> if t = [] then (w, p) else (w @ [''source_type = %s''], p @ [PText t]))
      in (case q of None \<Rightarrow> (w, p)
            | Some t \<Rightarrow> if t = [] then (w, p)
                else (w @ [''(url ILIKE %s OR content_md ILIKE %s)''],
                      p @ [PText (''%'' @ t @ ''%''), PText (''%'' @ t @ ''%'')])))"

definition where_sql :: "string list \<Rightarrow> string" where
  "where_sql w = (if w = [] then [] else ''WHERE '' @ join '' AND '' w)"

definition count_sql :: "string list \<Rightarrow> string" where
  "count_sql w = ''SELECT count(*) FROM articles '' @ where_sql w"

definition page_sql :: "string list \<Rightarrow> string" where
  "page_sql w = ''SELECT id, url, title, language, source_type, length(content_md) AS md_len, left(content_md, 300) AS preview, crawled_at FROM articles ''
     @ where_sql w @ '' ORDER BY id DESC LIMIT %s OFFSET %s''"

definition clamp_page :: "int \<Rightarrow> int" where
  "clamp_page page = max 1 page"

definition clamp_size :: "int \<Rightarrow> int" where
  "clamp_size n = max 1 (min 100 n)"

record listing =
  l_page :: int
  l_size :: int
  l_total :: int
  l_items :: "item list"

definition articles_body ::
  "env \<Rightarrow> string list \<times> param list \<Rightarrow> int \<Rightarrow> int \<Rightarrow> ('z world_scheme, int \<times> art_row list) prog" where
  "articles_body env wp limit offset =
     bindP (call_counts env (Query (count_sql (fst wp)) (snd wp))) (\<lambda>counts.
     bindP (case counts of [] \<Rightarrow> throw (TypeError ''fetchone'')
       | c # _ \<Rightarrow> (case c of [] \<Rightarrow> throw IndexError | n # _ \<Rightarrow> ret n)) (\<lambda>total.
     bindP (call_articles env (Query (page_sql (fst wp)) (snd wp @ [PInt limit, PInt offset]))) (\<lambda>rows.
     ret (total, rows))))"

definition articles ::
  "env \<Rightarrow> config \<Rightarrow> string option \<Rightarrow> string option \<Rightarrow> string option \<Rightarrow> int \<Rightarrow> int \<Rightarrow> ('z cworld_scheme, listing) prog" where
  "articles env cfg lang q source page per_page =
     (let page = clamp_page page; per_page = clamp_size per_page; offset = (page - 1) * per_page
      in bindP (with_conn env cfg (articles_body env (list_where lang q source) per_page offset)) (\<lambda>(total, rows).
         ret \<lparr>l_page = page, l_size = per_page, l_total = total, l_items = map item_of rows\<rparr>))"

section \<open>The pipeline panel\<close>

record panel =
  p_produced :: int
  p_stored :: int
  p_rejected :: int
  p_by_reason :: counters
  p_stored_by :: counters
  p_rejected_by :: counters
  p_produced_by :: counters
  p_dlq :: int
  p_stream :: int
  p_pending :: int

definition pending_count :: "env \<Rightarrow> config \<Rightarrow> ('z world_scheme, int) prog" where
  "pending_count env cfg =
     tryP (bindP (call env (Xpending (STREAM cfg) (CONSUMER_GROUP cfg))) (\<lambda>pend.
           ret (case pend of Num n \<Rightarrow> n | _ \<Rightarrow> 0)))
       (\<lambda>e. case e of ResponseError _ \<Rightarrow> True | _ \<Rightarrow> False) (\<lambda>_. ret 0)"

definition pipeline :: "env \<Rightarrow> config \<Rightarrow> ('z world_scheme, panel) prog" where
  "pipeline env cfg =
     bindP (get_counter env ''metrics:articles:produced'') (\<lambda>produced.
     bindP (get_counter env ''metrics:articles:stored'') (\<lambda>stored.
     bindP (get_counter env ''metrics:articles:rejected'') (\<lambda>rejected.
     bindP (get_counters env ''metrics:articles:rejected_by_reason'') (\<lambda>by_reason.
     bindP (get_counters env ''metrics:articles:stored_by_source'') (\<lambda>stored_by.
     bindP (get_counters env ''metrics:articles:rejected_by_source'') (\<lambda>rejected_by.
     bindP (get_counters env ''metrics:articles:produced_by_source'') (\<lambda>produced_by.
     bindP (call_num env (Xlen (DLQ_STREAM cfg))) (\<lambda>dlq.
     bindP (call_num env (Xlen (STREAM cfg))) (\<lambda>stream.
     bindP (pending_count env cfg) (\<lambda>pending.
     ret \<lparr>p_produced = produced, p_stored = stored, p_rejected = rejected, p_by_reason = by_reason,
          p_stored_by = stored_by, p_rejected_by = rejected_by, p_produced_by = produced_by,
          p_dlq = dlq, p_stream = stream, p_pending = pending\<rparr>))))))))))"

section \<open>The health panel\<close>

text \<open>The entries in the order they are made: a later one with the same name wins.\<close>

definition stale_entry :: "string \<Rightarrow> (string \<times> int) list" where
  "stale_entry part = (case rpartition CHR '':'' (strip part) of
     None \<Rightarrow> []
   | Some (name, mins) \<Rightarrow> (case py_int mins of None \<Rightarrow> [] | Some m \<Rightarrow> [(name, m)]))"

definition stale_thresholds :: "(string \<rightharpoonup> string) \<Rightarrow> (string \<times> int) list" where
  "stale_thresholds e = concat (map stale_entry
     (split_on CHR '','' (getenv e ''STALE_THRESHOLDS'' ''devto:120,stackexchange:300,rss:180'')))"

definition stale_after :: "(string \<times> int) list \<Rightarrow> string \<Rightarrow> int" where
  "stale_after ts src = (case map_of (rev ts) src of None \<Rightarrow> 180 | Some m \<Rightarrow> m)"

text \<open>
  What the JSON of a heartbeat can be, and what \<open>datetime.fromisoformat\<close> can make of its time: the
  seconds since the epoch, or a time without zone, which cannot be subtracted.
\<close>

record run_rec =
  u_finished :: "string option"
  u_pages :: "int option"
  u_published :: "int option"
  u_failed_pages :: "int option"
  u_publish_errors :: "int option"
  u_duration_ms :: "int option"

datatype run_json = RunBad | RunNoObject | RunRec run_rec
datatype iso_time = NotIso | Naive | Aware rat

datatype health_status = Unknown | Healthy | Stale

record run_line =
  v_source :: string
  v_last_run :: "string option"
  v_age :: "rat option"
  v_limit :: int
  v_status :: health_status
  v_rec :: run_rec

definition age_minutes :: "(string \<Rightarrow> iso_time) \<Rightarrow> rat \<Rightarrow> string option \<Rightarrow> exn + rat option" where
  "age_minutes isof now finished = (case finished of
     None \<Rightarrow> Inr None
   | Some t \<Rightarrow> if t = [] then Inr None
       else (case isof t of NotIso \<Rightarrow> Inr None
         | Naive \<Rightarrow> Inl (TypeError ''can't subtract offset-naive and offset-aware datetimes'')
         | Aware x \<Rightarrow> Inr (Some ((now - x) / 60))))"

definition status_of :: "rat option \<Rightarrow> int \<Rightarrow> health_status" where
  "status_of age limit = (case age of None \<Rightarrow> Unknown | Some a \<Rightarrow> if a \<le> of_int limit then Healthy else Stale)"

fun run_lines ::
  "(string \<Rightarrow> run_json) \<Rightarrow> (string \<Rightarrow> iso_time) \<Rightarrow> (string \<times> int) list \<Rightarrow> rat \<Rightarrow> (string \<times> string) list \<Rightarrow> exn + run_line list" where
  "run_lines parse isof ts now [] = Inr []"
| "run_lines parse isof ts now ((src, raw) # rs) = (case parse raw of
     RunBad \<Rightarrow> run_lines parse isof ts now rs
   | RunNoObject \<Rightarrow> Inl (AttributeError ''get'')
   | RunRec rec \<Rightarrow> bindE (age_minutes isof now (u_finished rec)) (\<lambda>age.
       bindE (run_lines parse isof ts now rs) (\<lambda>rest.
       Inr (\<lparr>v_source = src, v_last_run = u_finished rec, v_age = map_option (round_places 1) age,
         v_limit = stale_after ts src, v_status = status_of age (stale_after ts src), v_rec = rec\<rparr> # rest))))"

record point =
  o_taken :: string
  o_produced_delta :: int
  o_stored_delta :: int
  o_pending :: int
  o_dlq :: int
  o_by_source :: string

text \<open>Each row with the counters of the row before it, its own for the first.\<close>

fun with_prev :: "(int \<times> int) option \<Rightarrow> snap_row list \<Rightarrow> (snap_row \<times> int \<times> int) list" where
  "with_prev prev [] = []"
| "with_prev prev (r # rs) = (r, case prev of None \<Rightarrow> (n_produced r, n_stored r) | Some p \<Rightarrow> p)
     # with_prev (Some (n_produced r, n_stored r)) rs"

definition point_of :: "snap_row \<times> int \<times> int \<Rightarrow> point" where
  "point_of x = (case x of (r, prev_produced, prev_stored) \<Rightarrow>
     \<lparr>o_taken = n_taken r, o_produced_delta = max 0 (n_produced r - prev_produced),
      o_stored_delta = max 0 (n_stored r - prev_stored), o_pending = n_pending r, o_dlq = n_dlq r,
      o_by_source = (case n_by_source r of None \<Rightarrow> ''{}'' | Some t \<Rightarrow> t)\<rparr>)"

definition series_sql :: string where
  "series_sql = ''SELECT taken_at, produced, stored, pending, dlq, by_source FROM pipeline_snapshots WHERE taken_at >= now() - (%s || ' hours')::interval ORDER BY taken_at''"

definition snapshots :: "env \<Rightarrow> int \<Rightarrow> ('z world_scheme, snap_row list) prog" where
  "snapshots env hours =
     bindP (call env (Query series_sql [PInt (max 1 (min hours 168))])) (\<lambda>r. case r of
       Snapshots rows \<Rightarrow> ret rows | _ \<Rightarrow> throw bad_reply)"

record health_report =
  e_now :: rat
  e_runs :: "run_line list"
  e_series :: "point list"

definition health ::
  "env \<Rightarrow> config \<Rightarrow> (string \<rightharpoonup> string) \<Rightarrow> (string \<Rightarrow> run_json) \<Rightarrow> (string \<Rightarrow> iso_time) \<Rightarrow> int
   \<Rightarrow> ('z cworld_scheme, health_report) prog" where
  "health env cfg e parse isof hours =
     (let ts = stale_thresholds e in
      bindP (call_time env Now) (\<lambda>now.
      bindP (call_pairs env (Hgetall ''pipeline:runs'')) (\<lambda>raw.
      bindP (liftE (run_lines parse isof ts now raw)) (\<lambda>runs.
      bindP (with_conn env cfg (snapshots env hours)) (\<lambda>rows.
      ret \<lparr>e_now = now, e_runs = sort_key v_source runs, e_series = map point_of (with_prev None rows)\<rparr>)))))"

section \<open>Statements fit and paging covers\<close>

lemma list_where_placeholders:
  "placeholders (join '' AND '' (fst (list_where lang q source))) = length (snd (list_where lang q source))"
  by (cases lang; cases q; cases source) (auto simp: list_where_def Let_def placeholders_Cons)

lemma placeholders_where_sql:
  "t = [] \<or> hd t \<noteq> CHR ''s'' \<Longrightarrow>
   placeholders (where_sql (fst (list_where lang q source)) @ t) = length (snd (list_where lang q source)) + placeholders t"
  using list_where_placeholders [of lang q source]
    placeholders_append [of t "join '' AND '' (fst (list_where lang q source))"]
  by (cases "t = []") (auto simp: where_sql_def placeholders_Cons list_where_def Let_def split: option.splits if_splits)

text \<open>Both statements of the article list have one placeholder per parameter, for every filter.\<close>

theorem list_statements_aligned:
  "placeholders (count_sql (fst (list_where lang q source))) = length (snd (list_where lang q source))
   \<and> placeholders (page_sql (fst (list_where lang q source)))
     = length (snd (list_where lang q source) @ [PInt limit, PInt offset])"
  using placeholders_where_sql [of "[]" lang q source]
    placeholders_where_sql [of "'' ORDER BY id DESC LIMIT %s OFFSET %s''" lang q source]
  by (simp add: count_sql_def page_sql_def placeholders_Cons)

text \<open>
  A pool that works, and a database that answers the two statements over a fixed list of matching
  articles.
\<close>

definition pool_up :: "env \<Rightarrow> bool" where
  "pool_up env \<longleftrightarrow> (\<forall>tr a b d. ok_reply (env tr GetConn) \<and> ok_reply (env tr (PutConn False))
     \<and> ok_reply (env tr (OpenPool a b d)))"

definition listing_db :: "env \<Rightarrow> string list \<times> param list \<Rightarrow> art_row list \<Rightarrow> bool" where
  "listing_db env wp m \<longleftrightarrow> (\<forall>tr. env tr (Query (count_sql (fst wp)) (snd wp)) = Counts [[int (length m)]])
     \<and> (\<forall>tr limit offset. env tr (Query (page_sql (fst wp)) (snd wp @ [PInt limit, PInt offset]))
          = ArtRows (take (nat limit) (drop (nat offset) m)))"

lemma call_ok:
  "ok_reply (env (trace s) c) \<Longrightarrow> call_unit env c s = (Inr (), s\<lparr>trace := trace s @ [(c, env (trace s) c)]\<rparr>)"
  by (simp add: call_unit_Inr)

lemma take_conn_up: "pool_up env \<Longrightarrow> \<exists>s1. take_conn env cfg s = (Inr (), s1)"
  by (simp add: take_conn_def get_pool_def pool_up_def bindP_def getP_def updP_def ret_def call_ok)

lemma put_conn_up: "pool_up env \<Longrightarrow> \<exists>s1. put_conn env s = (Inr (), s1)"
  by (simp add: put_conn_def pool_up_def bindP_def getP_def ret_def call_ok)

lemma with_conn_result:
  assumes "pool_up env" "\<And>s. fst (body s) = Inr x"
  shows "fst (with_conn env cfg body s) = Inr x"
proof -
  obtain s1 where t: "take_conn env cfg s = (Inr (), s1)" using take_conn_up [OF assms(1)] by blast
  obtain s2 where b: "body s1 = (Inr x, s2)" by (metis assms(2) prod.collapse)
  obtain s3 where "put_conn env s2 = (Inr (), s3)" using put_conn_up [OF assms(1)] by blast
  with t b show ?thesis by (simp add: with_conn_def bindP_def finallyP_def)
qed

lemma articles_body_result:
  assumes "listing_db env wp m"
  shows "fst (articles_body env wp limit offset (s :: 'a world_scheme)) = Inr (int (length m), take (nat limit) (drop (nat offset) m))"
proof -
  let ?c = "Query (count_sql (fst wp)) (snd wp)"
  let ?p = "Query (page_sql (fst wp)) (snd wp @ [PInt limit, PInt offset])"
  have c: "env tr ?c = Counts [[int (length m)]]" and p: "env tr ?p = ArtRows (take (nat limit) (drop (nat offset) m))" for tr
    using assms by (simp_all add: listing_db_def)
  have "call_counts env ?c s = (Inr [[int (length m)]], s\<lparr>trace := trace s @ [(?c, Counts [[int (length m)]])]\<rparr>)"
    by (simp add: call_counts_def bindP_def call_def Let_def c ret_def)
  moreover have "call_articles env ?p t = (Inr (take (nat limit) (drop (nat offset) m)),
      t\<lparr>trace := trace t @ [(?p, ArtRows (take (nat limit) (drop (nat offset) m)))]\<rparr>)" for t :: "'a world_scheme"
    by (simp add: call_articles_Inr p)
  ultimately show ?thesis
    by (simp add: articles_body_def bindP_def ret_def)
qed

text \<open>The items a request for a page shows.\<close>

definition page_items ::
  "env \<Rightarrow> config \<Rightarrow> string option \<Rightarrow> string option \<Rightarrow> string option \<Rightarrow> int \<Rightarrow> 'z cworld_scheme \<Rightarrow> int \<Rightarrow> item list" where
  "page_items env cfg lang q source n s page = (case fst (articles env cfg lang q source page n s) of
     Inr l \<Rightarrow> l_items l | Inl _ \<Rightarrow> [])"

lemma articles_result:
  assumes "pool_up env" "listing_db env (list_where lang q source) m"
  shows "fst (articles env cfg lang q source page n s) = Inr \<lparr>l_page = clamp_page page, l_size = clamp_size n,
    l_total = int (length m),
    l_items = map item_of (take (nat (clamp_size n)) (drop (nat ((clamp_page page - 1) * clamp_size n)) m))\<rparr>"
proof -
  let ?b = "articles_body env (list_where lang q source) (clamp_size n) ((clamp_page page - 1) * clamp_size n)"
  have "fst (with_conn env cfg ?b s) = Inr (int (length m),
      take (nat (clamp_size n)) (drop (nat ((clamp_page page - 1) * clamp_size n)) m))"
    by (rule with_conn_result [OF assms(1) articles_body_result [OF assms(2)]])
  then show ?thesis
    by (cases "with_conn env cfg ?b s") (simp add: articles_def Let_def bindP_def ret_def)
qed

lemma pages_concat:
  "concat (map (\<lambda>p. take n (drop ((p - 1) * n) xs)) [1..<Suc k]) = take (k * n) xs"
proof (induction k)
  case 0
  then show ?case by simp
next
  case (Suc k)
  have "take (k * n) xs @ take n (drop (k * n) xs) = take (Suc k * n) xs"
    by (simp add: take_add [symmetric] add.commute)
  with Suc show ?case by simp
qed

text \<open>
  Paging through the list visits every matching article exactly once, in order: the items of
  the first pages are the first articles, whatever filters are set and for every page size a
  request can ask for.
\<close>

theorem pages_cover:
  assumes "pool_up env" "listing_db env (list_where lang q source) m" "1 \<le> n" "n \<le> 100"
  shows "concat (map (page_items env cfg lang q source n s) (map int [1..<Suc k])) = map item_of (take (k * nat n) m)"
proof -
  have "page_items env cfg lang q source n s (int p) = map item_of (take (nat n) (drop ((p - 1) * nat n) m))"
    if "1 \<le> p" for p
  proof -
    have "(int p - 1) * n = int ((p - 1) * nat n)" using that assms(3) by (simp add: of_nat_diff)
    moreover have "clamp_size n = n" using assms(3,4) by (simp add: clamp_size_def)
    moreover have "clamp_page (int p) = int p" using that by (simp add: clamp_page_def)
    ultimately show ?thesis
      by (simp add: page_items_def articles_result [OF assms(1,2)] del: of_nat_mult)
  qed
  then have "map (page_items env cfg lang q source n s) (map int [1..<Suc k])
      = map (\<lambda>p. map item_of (take (nat n) (drop ((p - 1) * nat n) m))) [1..<Suc k]"
    by (simp del: upt_Suc)
  moreover have "concat (map (\<lambda>p. map item_of (take (nat n) (drop ((p - 1) * nat n) m))) [1..<Suc k])
      = map item_of (concat (map (\<lambda>p. take (nat n) (drop ((p - 1) * nat n) m)) [1..<Suc k]))"
    by (simp add: map_concat comp_def del: upt_Suc)
  ultimately show ?thesis by (simp only: pages_concat)
qed

text \<open>A database with three articles that match everything.\<close>

definition list_row :: "int \<Rightarrow> art_row" where
  "list_row i = \<lparr>t_id = i, t_url = ''http://h/'' @ show_int i, t_title = None, t_content = Some ''text'',
     t_author = None, t_published = None, t_tags = None, t_source = None, t_lang = None, t_score = None,
     t_crawled = None, t_hash = None\<rparr>"

definition list_rows :: "art_row list" where
  "list_rows = [list_row 3, list_row 2, list_row 1]"

definition list_env :: env where
  "list_env tr c = (case c of
     Query sql ps \<Rightarrow> (case rev ps of
         PInt offset # PInt limit # _ \<Rightarrow> ArtRows (take (nat limit) (drop (nat offset) list_rows))
       | _ \<Rightarrow> Counts [[int (length list_rows)]])
   | _ \<Rightarrow> Done)"

lemma list_env_laws: "pool_up list_env" "listing_db list_env (list_where None (Some ''x'') None) list_rows"
  by (simp_all add: pool_up_def listing_db_def list_env_def ok_reply_def list_where_def)

theorem pages_cover_witness:
  "concat (map (page_items list_env default_config None (Some ''x'') None 2 \<lparr>trace = [], c_pool = True\<rparr>)
     (map int [1..<Suc 2])) = map item_of list_rows"
  using pages_cover [OF list_env_laws, where n = 2 and k = 2 and cfg = default_config
      and s = "\<lparr>trace = [], c_pool = True\<rparr>"] by (simp add: list_rows_def del: upt_Suc)

section \<open>Heartbeats\<close>

text \<open>The time of the last run, when the heartbeat has a readable one.\<close>

definition run_at :: "(string \<Rightarrow> iso_time) \<Rightarrow> string option \<Rightarrow> rat option" where
  "run_at isof finished = (case finished of None \<Rightarrow> None
     | Some t \<Rightarrow> if t = [] then None else (case isof t of Aware x \<Rightarrow> Some x | _ \<Rightarrow> None))"

definition classified :: "(string \<Rightarrow> iso_time) \<Rightarrow> (string \<times> int) list \<Rightarrow> rat \<Rightarrow> run_line \<Rightarrow> bool" where
  "classified isof ts now l \<longleftrightarrow> v_status l = (case run_at isof (v_last_run l) of
     None \<Rightarrow> Unknown
   | Some x \<Rightarrow> if now - x \<le> 60 * of_int (stale_after ts (v_source l)) then Healthy else Stale)"

definition readable :: "(string \<Rightarrow> run_json) \<Rightarrow> string \<times> string \<Rightarrow> bool" where
  "readable parse r = (case parse (snd r) of RunRec _ \<Rightarrow> True | _ \<Rightarrow> False)"

lemma age_run_at:
  "age_minutes isof now finished = Inr age \<Longrightarrow> age = map_option (\<lambda>x. (now - x) / 60) (run_at isof finished)"
  by (auto simp: age_minutes_def run_at_def split: option.splits if_splits iso_time.splits)

lemma status_run_at:
  "status_of (map_option (\<lambda>x. (now - x) / 60) t) limit = (case t of None \<Rightarrow> Unknown
     | Some x \<Rightarrow> if now - x \<le> 60 * of_int limit then Healthy else Stale)"
  by (auto simp: status_of_def divide_le_eq mult.commute split: option.split)

lemma run_lines_Inr:
  "run_lines parse isof ts now rs = Inr ls \<Longrightarrow>
   map v_source ls = map fst (filter (readable parse) rs) \<and> list_all (classified isof ts now) ls"
proof (induction rs arbitrary: ls)
  case Nil
  then show ?case by simp
next
  case (Cons r rs)
  obtain src raw where r: "r = (src, raw)" by (cases r)
  show ?case
  proof (cases "parse raw")
    case RunBad
    with Cons r show ?thesis by (simp add: readable_def)
  next
    case RunNoObject
    with Cons r show ?thesis by simp
  next
    case (RunRec rec)
    then obtain age rest where a: "age_minutes isof now (u_finished rec) = Inr age"
      and rest: "run_lines parse isof ts now rs = Inr rest"
      and ls: "ls = \<lparr>v_source = src, v_last_run = u_finished rec, v_age = map_option (round_places 1) age,
         v_limit = stale_after ts src, v_status = status_of age (stale_after ts src), v_rec = rec\<rparr> # rest"
      using Cons.prems r by (auto simp: bindE_def split: sum.splits)
    have "classified isof ts now (hd ls)"
      by (simp add: ls classified_def age_run_at [OF a] status_run_at split: option.split)
    with Cons.IH [OF rest] r RunRec ls show ?thesis by (simp add: readable_def)
  qed
qed

text \<open>
  C39: The health panel has one line per readable heartbeat, sorted by source, and calls a source
  stale exactly when its last run is known and longer ago than its threshold, healthy when it is
  known and not, and unknown otherwise.
\<close>

theorem health_classifies:
  assumes "health env cfg e parse isof hours s = (Inr rep, s')"
  shows "sorted (map v_source (e_runs rep))
    \<and> list_all (classified isof (stale_thresholds e) (e_now rep)) (e_runs rep)
    \<and> (\<exists>raw. (Hgetall ''pipeline:runs'', Pairs raw) \<in> set (trace s')
        \<and> length (e_runs rep) = length (filter (readable parse) raw)
        \<and> set (map v_source (e_runs rep)) = fst ` set (filter (readable parse) raw))"
proof -
  obtain now raw lines rows and s1 s2 :: "'a cworld_scheme" where
    raw: "call_pairs env (Hgetall ''pipeline:runs'') s1 = (Inr raw, s2)"
    and lines: "run_lines parse isof (stale_thresholds e) now raw = Inr lines"
    and rows: "with_conn env cfg (snapshots env hours) s2 = (Inr rows, s')"
    and rep: "e_now rep = now" "e_runs rep = sort_key v_source lines"
    using assms by (auto simp: health_def Let_def bindP_eq_Inr liftE_def ret_def)
  have "(Hgetall ''pipeline:runs'', Pairs raw) \<in> set (trace s2)"
    using raw by (auto simp: call_pairs_def bindP_eq_Inr call_Inr ret_def throw_def split: reply.splits)
  moreover obtain es where "trace s' = trace s2 @ es"
  proof -
    have "emits (\<lambda>_. True) (with_conn env cfg (snapshots env hours) :: ('a cworld_scheme, snap_row list) prog)"
      by (auto simp: with_conn_def take_conn_def get_pool_def put_conn_def snapshots_def
          intro!: emits_rules split: reply.split)
    from emitsD [OF this rows] that show thesis by blast
  qed
  moreover have "map v_source lines = map fst (filter (readable parse) raw)"
    and cl: "list_all (classified isof (stale_thresholds e) now) lines"
    using run_lines_Inr [OF lines] by auto
  then have "length lines = length (filter (readable parse) raw)"
    "v_source ` set lines = fst ` set (filter (readable parse) raw)"
    by (metis length_map, metis set_map)
  ultimately show ?thesis
    using cl rep by (auto simp: list_all_iff intro!: exI [of _ raw])
qed

definition run_json_of :: "string \<Rightarrow> run_json" where
  "run_json_of t = (if t = [] then RunBad else RunRec \<lparr>u_finished = Some t, u_pages = None, u_published = None,
     u_failed_pages = None, u_publish_errors = None, u_duration_ms = None\<rparr>)"

definition iso_of :: "string \<Rightarrow> iso_time" where
  "iso_of t = (if t = ''old'' then Aware 0 else if t = ''new'' then Aware 99999 else NotIso)"

definition health_env :: env where
  "health_env tr c = (case c of Now \<Rightarrow> Time 100000
     | Hgetall k \<Rightarrow> Pairs [(''b'', ''new''), (''a'', ''old''), (''d'', []), (''c'', ''?'')]
     | Query sql ps \<Rightarrow> Snapshots [] | _ \<Rightarrow> Done)"

definition health_vars :: "string \<Rightarrow> string option" where
  "health_vars v = Some ''b:1''"

definition seen :: "health_report \<Rightarrow> (string \<times> health_status) list" where
  "seen rep = map (\<lambda>l. (v_source l, v_status l)) (e_runs rep)"

theorem health_classifies_witness:
  "\<exists>rep s'. health health_env default_config health_vars run_json_of iso_of 24 \<lparr>trace = [], c_pool = True\<rparr> = (Inr rep, s')
     \<and> sorted (map v_source (e_runs rep)) \<and> seen rep = [(''a'', Stale), (''b'', Healthy), (''c'', Unknown)]"
proof -
  let ?r = "health health_env default_config health_vars run_json_of iso_of 24 \<lparr>trace = [], c_pool = True\<rparr>"
  have l: "map_sum (\<lambda>e. e) seen (fst ?r) = Inr [(''a'', Stale), (''b'', Healthy), (''c'', Unknown)]"
    by code_simp
  then obtain rep where rep: "fst ?r = Inr rep" by (cases "fst ?r") auto
  then obtain s' where run: "?r = (Inr rep, s')" by (metis prod.collapse)
  have "seen rep = [(''a'', Stale), (''b'', Healthy), (''c'', Unknown)]" using l rep by simp
  with health_classifies [OF run] run show ?thesis by blast
qed

text \<open>One heartbeat whose time has no zone takes the whole panel down.\<close>

lemma naive_time_fails:
  "fst (health health_env default_config health_vars run_json_of (\<lambda>_. Naive) 24 \<lparr>trace = [], c_pool = True\<rparr>)
     = Inl (TypeError ''can't subtract offset-naive and offset-aware datetimes'')"
  by code_simp

section \<open>The activity series\<close>

lemma with_prev_sum:
  "sorted (map n_produced (r # rs)) \<Longrightarrow>
   sum_list (map (o_produced_delta \<circ> point_of) (with_prev (Some (n_produced r, k)) rs))
     = n_produced (last (r # rs)) - n_produced r"
  by (induction rs arbitrary: r k) (auto simp: point_of_def)

lemma series_telescopes:
  assumes "sorted (map n_produced rows)" "rows \<noteq> []"
  shows "sum_list (map o_produced_delta (map point_of (with_prev None rows)))
    = n_produced (last rows) - n_produced (hd rows)"
  using assms with_prev_sum [of "hd rows" "tl rows"]
  by (cases rows) (auto simp: point_of_def comp_def)

end
