(* ===== verification/Webapp.thy ===== *)
theory Webapp
  imports Dashboard
begin

text \<open>
  \<open>py-processor/dashboard/app.py\<close>: the routes of the dashboard, each a request of its own, the
  guard in front of them, and the mapping of results and exceptions to responses. The checks on
  declared query parameters (\<open>ge\<close>, \<open>le\<close>, \<open>min_length\<close>) are FastAPI's: a value that fails one is
  answered with 422 before the handler runs.

  The lemmas: nothing is done for a request without the token, no exception leaves the
  application and which status codes it uses, and the advice of a 429 can be relied on.
\<close>

datatype body =
    Page
  | Totals "int \<times> int \<times> int"
  | Shares "(string option \<times> int) list"
  | Days "(string \<times> int) list"
  | Panel panel
  | Health health_report
  | Hits "hit list"
  | Detail detail
  | Listing listing

datatype response = Reply body | Failed nat "nat option"

datatype request =
    GetIndex
  | GetSummary
  | GetLangDist
  | GetDaily int
  | GetPipeline
  | GetSourceDist
  | GetHealth int
  | GetSearch string int "string option" "rat option" "string option"
  | GetArticle int
  | GetArticles "string option" "string option" "string option" int int

fun path_of :: "request \<Rightarrow> string" where
  "path_of GetIndex = ''/''"
| "path_of GetSummary = ''/api/summary''"
| "path_of GetLangDist = ''/api/lang-dist''"
| "path_of (GetDaily _) = ''/api/daily''"
| "path_of GetPipeline = ''/api/pipeline''"
| "path_of GetSourceDist = ''/api/source-dist''"
| "path_of (GetHealth _) = ''/api/health''"
| "path_of (GetSearch _ _ _ _ _) = ''/api/search''"
| "path_of (GetArticle i) = ''/api/articles/'' @ show_int i"
| "path_of (GetArticles _ _ _ _ _) = ''/api/articles''"

definition auth_guard ::
  "string \<Rightarrow> string \<Rightarrow> string option \<Rightarrow> ('s, response) prog \<Rightarrow> ('s, response) prog" where
  "auth_guard token path header call_next =
     (if token \<noteq> [] \<and> prefix ''/api/'' path
         \<and> (case header of None \<Rightarrow> [] | Some h \<Rightarrow> h) \<noteq> ''Bearer '' @ token
      then ret (Failed 401 None) else call_next)"

text \<open>\<open>try: return m() / except Exception: raise HTTPException(status)\<close>\<close>

definition guarded :: "nat \<Rightarrow> ('a \<Rightarrow> response) \<Rightarrow> ('s, 'a) prog \<Rightarrow> ('s, response) prog" where
  "guarded st f m = tryP (bindP m (\<lambda>x. ret (f x))) is_Exception (\<lambda>_. ret (Failed st None))"

definition checked :: "bool \<Rightarrow> ('s, response) prog \<Rightarrow> ('s, response) prog" where
  "checked valid m = (if valid then m else ret (Failed 422 None))"

text \<open>\<open>int()\<close> of the wait, which is positive, and one more.\<close>

definition retry_seconds :: "rat \<Rightarrow> nat" where
  "retry_seconds wait = nat (floor wait) + 1"

definition api_search ::
  "env \<Rightarrow> config \<Rightarrow> string \<Rightarrow> int \<Rightarrow> string option \<Rightarrow> rat option \<Rightarrow> string option \<Rightarrow> ('z sworld_scheme, response) prog" where
  "api_search env cfg q k source min_quality since =
     checked (2 \<le> length q \<and> 1 \<le> k \<and> k \<le> 32 \<and> (case min_quality of None \<Rightarrow> True | Some x \<Rightarrow> 0 \<le> x \<and> x \<le> 1))
       (tryP (bindP (semantic_search env cfg (Some q) k source min_quality since) (\<lambda>hs. ret (Reply (Hits hs))))
          is_Exception
          (\<lambda>e. case e of RateLimited wait \<Rightarrow> ret (Failed 429 (Some (retry_seconds wait)))
             | SearchUnavailable _ \<Rightarrow> ret (Failed 503 None)
             | _ \<Rightarrow> ret (Failed 500 None)))"

definition api_article_detail :: "env \<Rightarrow> config \<Rightarrow> int \<Rightarrow> ('z cworld_scheme, response) prog" where
  "api_article_detail env cfg i = guarded 500
     (\<lambda>a. case a of None \<Rightarrow> Failed 404 None | Some d \<Rightarrow> Reply (Detail d)) (article_by_id env cfg i)"

definition api_articles ::
  "env \<Rightarrow> config \<Rightarrow> string option \<Rightarrow> string option \<Rightarrow> string option \<Rightarrow> int \<Rightarrow> int \<Rightarrow> ('z cworld_scheme, response) prog" where
  "api_articles env cfg lang q source page per_page =
     checked (1 \<le> page \<and> 1 \<le> per_page \<and> per_page \<le> 100)
       (guarded 500 (\<lambda>l. Reply (Listing l)) (articles env cfg lang q source page per_page))"

definition api_daily :: "env \<Rightarrow> config \<Rightarrow> int \<Rightarrow> ('z cworld_scheme, response) prog" where
  "api_daily env cfg limit = checked (1 \<le> limit \<and> limit \<le> 365)
     (guarded 500 (\<lambda>d. Reply (Days d)) (daily env cfg limit))"

text \<open>What the panel needs from its surroundings: the variables and the two parsers.\<close>

record dash =
  dash_vars :: "string \<Rightarrow> string option"
  dash_run :: "string \<Rightarrow> run_json"
  dash_iso :: "string \<Rightarrow> iso_time"

definition api_health :: "env \<Rightarrow> config \<Rightarrow> dash \<Rightarrow> int \<Rightarrow> ('z cworld_scheme, response) prog" where
  "api_health env cfg d hours = checked (1 \<le> hours \<and> hours \<le> 168)
     (guarded 500 (\<lambda>h. Reply (Health h)) (health env cfg (dash_vars d) (dash_run d) (dash_iso d) hours))"

text \<open>
  The page itself, beside the module: Starlette opens the file when it sends the response, and
  answers 500 when that fails.
\<close>

definition page_file :: string where "page_file = ''index.html''"

definition file_response :: "env \<Rightarrow> ('z world_scheme, response) prog" where
  "file_response env = guarded 500 (\<lambda>_. Reply Page) (call_text env (FileRead page_file))"

fun handler :: "env \<Rightarrow> config \<Rightarrow> dash \<Rightarrow> request \<Rightarrow> ('z sworld_scheme, response) prog" where
  "handler env cfg d GetIndex = file_response env"
| "handler env cfg d GetSummary = guarded 500 (\<lambda>x. Reply (Totals x)) (summary env cfg)"
| "handler env cfg d GetLangDist = guarded 500 (\<lambda>x. Reply (Shares x)) (lang_distribution env cfg)"
| "handler env cfg d (GetDaily limit) = api_daily env cfg limit"
| "handler env cfg d GetPipeline = guarded 502 (\<lambda>x. Reply (Panel x)) (pipeline env cfg)"
| "handler env cfg d GetSourceDist = guarded 500 (\<lambda>x. Reply (Shares x)) (source_distribution env cfg)"
| "handler env cfg d (GetHealth hours) = api_health env cfg d hours"
| "handler env cfg d (GetSearch q k source min_quality since) = api_search env cfg q k source min_quality since"
| "handler env cfg d (GetArticle i) = api_article_detail env cfg i"
| "handler env cfg d (GetArticles lang q source page per_page) = api_articles env cfg lang q source page per_page"

definition dash_token :: "(string \<Rightarrow> string option) \<Rightarrow> string" where
  "dash_token e = getenv e ''DASH_TOKEN'' []"

definition app :: "env \<Rightarrow> config \<Rightarrow> dash \<Rightarrow> string option \<Rightarrow> request \<Rightarrow> ('z sworld_scheme, response) prog" where
  "app env cfg d header req =
     auth_guard (dash_token (dash_vars d)) (path_of req) header (handler env cfg d req)"

section \<open>The guard\<close>

text \<open>
  C40: With a token configured, a request for the API that does not carry exactly this token is
  answered with 401 and nothing else happens: no call to any service, no change of state. Only the
  page itself stays open.
\<close>

theorem app_unauthorized:
  assumes "dash_token (dash_vars d) = token" "token \<noteq> []" "req \<noteq> GetIndex" "header \<noteq> Some (''Bearer '' @ token)"
  shows "app env cfg d header req s = (Inr (Failed 401 None), s)"
proof -
  have "prefix ''/api/'' (path_of req)" using assms(3) by (cases req) auto
  moreover have "(case header of None \<Rightarrow> [] | Some h \<Rightarrow> h) \<noteq> ''Bearer '' @ token"
    using assms(4) by (cases header) auto
  ultimately show ?thesis using assms(1,2) by (simp add: app_def auth_guard_def ret_def)
qed

definition test_dash :: dash where
  "test_dash = \<lparr>dash_vars = (\<lambda>v. if v = ''DASH_TOKEN'' then Some ''secret'' else None), dash_run = run_json_of,
     dash_iso = iso_of\<rparr>"

theorem app_unauthorized_witness:
  "app list_env default_config test_dash (Some ''Bearer secre'') GetSummary
     \<lparr>trace = [], c_pool = True, s_next = 0, s_cache = []\<rparr>
   = (Inr (Failed 401 None), \<lparr>trace = [], c_pool = True, s_next = 0, s_cache = []\<rparr>)"
  by (rule app_unauthorized [where token = "''secret''"]) (simp_all add: test_dash_def dash_token_def getenv_def)

section \<open>Responses\<close>

definition answers :: "nat set \<Rightarrow> ('s, response) prog \<Rightarrow> bool" where
  "answers codes m \<longleftrightarrow> (\<forall>s. case fst (m s) of
     Inr (Reply _) \<Rightarrow> True
   | Inr (Failed c ra) \<Rightarrow> c \<in> codes \<and> (ra \<noteq> None \<longrightarrow> c = 429)
   | Inl e \<Rightarrow> \<not> is_Exception e)"

lemma answers_mono: "answers A m \<Longrightarrow> A \<subseteq> B \<Longrightarrow> answers B m"
  by (auto simp: answers_def split: sum.splits response.splits) fastforce+

lemma answers_ret [intro]: "answers codes (ret (Reply b))" "c \<in> codes \<Longrightarrow> answers codes (ret (Failed c None))"
  by (simp_all add: answers_def ret_def)

lemma answers_guarded:
  assumes "st \<in> codes" "\<And>x. answers codes (ret (f x) :: ('s, response) prog)"
  shows "answers codes (guarded st f (m :: ('s, 'a) prog))"
  unfolding answers_def
proof
  fix s
  have f: "case f x of Reply _ \<Rightarrow> True | Failed c ra \<Rightarrow> c \<in> codes \<and> (ra \<noteq> None \<longrightarrow> c = 429)" for x
    using assms(2) [of x] by (auto simp: answers_def ret_def split: response.splits)
  show "case fst (guarded st f m s) of
     Inr (Reply _) \<Rightarrow> True
   | Inr (Failed c ra) \<Rightarrow> c \<in> codes \<and> (ra \<noteq> None \<longrightarrow> c = 429)
   | Inl e \<Rightarrow> \<not> is_Exception e"
    using assms(1) f by (cases "m s"; cases "fst (m s)")
      (auto simp: guarded_def tryP_def bindP_def ret_def split: response.splits)
qed

lemma answers_checked: "422 \<in> codes \<Longrightarrow> answers codes m \<Longrightarrow> answers codes (checked valid m)"
  by (simp add: checked_def answers_ret)

lemma answers_search: "answers {422, 429, 500, 503} (api_search env cfg q k source min_quality since)"
proof -
  have "answers {422, 429, 500, 503} (tryP (bindP m (\<lambda>hs. ret (Reply (Hits hs)))) is_Exception
      (\<lambda>e. case e of RateLimited wait \<Rightarrow> ret (Failed 429 (Some (retry_seconds wait)))
         | SearchUnavailable _ \<Rightarrow> ret (Failed 503 None) | _ \<Rightarrow> ret (Failed 500 None)))" for m :: "('z sworld_scheme, hit list) prog"
    unfolding answers_def
    by (auto simp: tryP_def bindP_def ret_def split: prod.split sum.split exn.split)
  then show ?thesis unfolding api_search_def by (intro answers_checked) simp_all
qed

text \<open>
  C27: No exception leaves the application, whatever fails behind it, and what it answers besides
  a result is one of seven status codes, of which only 429 comes with a waiting time.
\<close>

theorem app_answers:
  "answers {401, 404, 422, 429, 500, 502, 503} (app env cfg d header req)"
proof -
  have "answers {401, 404, 422, 429, 500, 502, 503} (handler env cfg d req)"
    by (cases req)
      (auto simp: api_daily_def api_health_def api_article_detail_def api_articles_def file_response_def
        intro!: answers_guarded answers_checked answers_mono [OF answers_search] split: option.split)
  then show ?thesis by (auto simp: app_def auth_guard_def)
qed

section \<open>The advice of a 429\<close>

lemma retry_enough: "0 < w \<Longrightarrow> w < of_nat (retry_seconds w)"
  unfolding retry_seconds_def by (simp add: of_nat_nat) linarith

lemma search_limited:
  assumes "semantic_search env cfg q k source mq since s = (Inl (RateLimited w), s')"
    and "env_avoids (\<lambda>e. case e of RateLimited _ \<Rightarrow> True | _ \<Rightarrow> False) env"
  shows "\<exists>now. env (trace s) Monotonic = Time now \<and> RAG_QPS cfg \<noteq> 0 \<and> 0 < w
    \<and> w = 1 / RAG_QPS cfg - (now - s_next s) \<and> s_next s' = s_next s"
proof -
  let ?p = "\<lambda>e. case e of RateLimited _ \<Rightarrow> True | _ \<Rightarrow> False"
  have rest: "avoids ?p (bindP (embed_query_cached env cfg t) (\<lambda>v.
      bindP (with_conn env cfg (run_search env (search_query v k source mq since))) (\<lambda>rows. ret (map hit_of rows))))" for t
    using assms(2)
    by (auto simp: embed_query_cached_def embed_query_def run_search_def bad_reply_def
        intro!: avoids_rules split: option.split reply.split list.split)
  let ?q = "strip (case q of None \<Rightarrow> [] | Some t \<Rightarrow> t)"
  have "?q \<noteq> []" using assms(1) by (auto simp: semantic_search_def Let_def ret_def)
  then have run: "bindP (search_throttle env cfg) (\<lambda>_. bindP (embed_query_cached env cfg ?q) (\<lambda>v.
      bindP (with_conn env cfg (run_search env (search_query v k source mq since))) (\<lambda>rows. ret (map hit_of rows)))) s
      = (Inl (RateLimited w), s')"
    using assms(1) by (simp add: semantic_search_def Let_def)
  have gate: "search_throttle env cfg s = (Inl (RateLimited w), s')"
  proof (cases "search_throttle env cfg s")
    case (Pair r s1)
    then show ?thesis
      using run avoidsD [OF rest, of ?q s1 "RateLimited w" s'] by (cases r) (simp_all add: bindP_def)
  qed
  show ?thesis
  proof (cases "env (trace s) Monotonic")
    case (Time now)
    with gate show ?thesis
      by (auto simp: search_throttle_def bindP_def call_time_def call_def Let_def ret_def getP_def updP_def throw_def
          split: if_splits)
  next
    case (Fail e)
    with gate have "e = RateLimited w"
      by (simp add: search_throttle_def bindP_def call_time_def call_def Let_def)
    with Fail assms(2) show ?thesis by (auto simp: env_avoids_def split: exn.splits)
  qed (use gate in \<open>simp_all add: search_throttle_def bindP_def call_time_def call_def Let_def throw_def bad_reply_def\<close>)
qed

text \<open>
  C28: The waiting time of a 429 can be relied on: a client that comes back after the advised
  number of seconds, if no other query has passed in between, gets through the gate.
\<close>

theorem retry_after_suffices:
  assumes "env_avoids (\<lambda>e. case e of RateLimited _ \<Rightarrow> True | _ \<Rightarrow> False) env"
    and "app env cfg d header (GetSearch q k source mq since) s = (Inr (Failed 429 (Some n)), s1)"
    and "env (trace s) Monotonic = Time t1" "env (trace s2) Monotonic = Time t2"
    and "s_next s2 = s_next s1" "t1 + of_nat n \<le> t2"
  shows "\<exists>s3. search_throttle env cfg s2 = (Inr (), s3)"
proof -
  have "api_search env cfg q k source mq since s = (Inr (Failed 429 (Some n)), s1)"
    using assms(2) by (auto simp: app_def auth_guard_def ret_def split: if_splits)
  then obtain w where w: "semantic_search env cfg (Some q) k source mq since s = (Inl (RateLimited w), s1)"
    and n: "n = retry_seconds w"
    by (auto simp: api_search_def checked_def tryP_def bindP_def ret_def split: if_splits prod.splits sum.splits exn.splits)
  from search_limited [OF w assms(1)] assms(3) have
    f: "RAG_QPS cfg \<noteq> 0" "0 < w" "w = 1 / RAG_QPS cfg - (t1 - s_next s)" "s_next s1 = s_next s"
    by auto
  have "w < of_nat n" using retry_enough [OF f(2)] by (simp add: n)
  with f assms(5,6) have "1 / RAG_QPS cfg \<le> t2 - s_next s2" by simp
  with f(1) assms(4) show ?thesis by (auto simp: throttle_Inr)
qed

definition limited :: "sworld" where
  "limited = \<lparr>trace = [], c_pool = True, s_next = 10, s_cache = []\<rparr>"

theorem retry_after_suffices_witness:
  "\<exists>s3. search_throttle (ticking 2) search_config
     \<lparr>trace = [(Monotonic, Time 10)], c_pool = True, s_next = 10, s_cache = []\<rparr> = (Inr (), s3)"
proof -
  have "fst (app (ticking 2) search_config test_dash (Some ''Bearer secret'') (GetSearch ''sort'' 8 None None None) limited)
      = Inr (Failed 429 (Some 2))" "s_next (snd (app (ticking 2) search_config test_dash (Some ''Bearer secret'')
      (GetSearch ''sort'' 8 None None None) limited)) = 10"
    by code_simp+
  then obtain s1 where run: "app (ticking 2) search_config test_dash (Some ''Bearer secret'')
      (GetSearch ''sort'' 8 None None None) limited = (Inr (Failed 429 (Some 2)), s1)" "s_next s1 = 10"
    by (metis prod.collapse snd_conv)
  show ?thesis
    by (rule retry_after_suffices [OF _ run(1), of 10 _ 12])
      (simp_all add: env_avoids_def ticking_def limited_def run(2) split: cmd.splits)
qed

end
