(* ===== verification/Tools.thy ===== *)
theory Tools
  imports Session Quality Dedupe
begin

text \<open>
  \<open>py-processor/quality_probe.py\<close>, a dry run of the quality gate over the stored articles, and
  \<open>py-processor/backfill_simhash.py\<close>, which computes missing fingerprints. The lemmas give the
  histogram and the updates.
\<close>

section \<open>The probe\<close>

definition probe_sql :: string where
  "probe_sql = ''SELECT content_md FROM articles WHERE content_md IS NOT NULL''"

definition probe_query :: "int \<Rightarrow> string \<times> param list" where
  "probe_query limit = (if limit > 0 then (probe_sql @ '' ORDER BY id DESC LIMIT %s'', [PInt limit]) else (probe_sql, []))"

text \<open>The kept rows and the rejections by reason, in order of first occurrence.\<close>

definition probe_step :: "config \<Rightarrow> nat \<times> (string \<times> nat) list \<Rightarrow> string \<Rightarrow> nat \<times> (string \<times> nat) list" where
  "probe_step cfg acc content = (case assess cfg content of (keep, reason, _) \<Rightarrow>
     if keep then (fst acc + 1, snd acc) else (fst acc, bump reason 1 (snd acc)))"

definition content_of :: "art_row \<Rightarrow> string" where
  "content_of r = (case t_content r of None \<Rightarrow> [] | Some c \<Rightarrow> c)"

definition probe :: "env \<Rightarrow> config \<Rightarrow> int \<Rightarrow> ('z cworld_scheme, (string \<times> nat) list) prog" where
  "probe env cfg limit =
     bindP (with_conn env cfg (call_articles env (Query (fst (probe_query limit)) (snd (probe_query limit))))) (\<lambda>rows.
     ret (snd (foldl (probe_step cfg) (0, []) (map content_of rows))))"

definition probe_main :: "env \<Rightarrow> config \<Rightarrow> args \<Rightarrow> ('z cworld_scheme, (string \<times> nat) list) prog" where
  "probe_main env cfg xs = bindP (liftE (arg_int xs ''--limit'' 5000)) (\<lambda>limit. probe env cfg limit)"

section \<open>The backfill\<close>

definition backfill_select :: string where
  "backfill_select = ''SELECT id, content_md FROM articles WHERE content_hash IS NULL''"

definition backfill_update :: string where
  "backfill_update = ''UPDATE articles SET content_hash = %s WHERE id = %s''"

definition backfill_params :: "lib \<Rightarrow> config \<Rightarrow> art_row \<Rightarrow> param list" where
  "backfill_params lb cfg r = [PInt (simhash (blake2b8 lb) (content_of r) (nat (SIMHASH_BITS cfg))), PInt (t_id r)]"

definition backfill_step ::
  "env \<Rightarrow> lib \<Rightarrow> config \<Rightarrow> nat \<Rightarrow> art_row \<Rightarrow> ('z world_scheme, nat) prog" where
  "backfill_step env lb cfg n r =
     (if content_of r = [] then ret n
      else bindP (call_unit env (Execute backfill_update (backfill_params lb cfg r))) (\<lambda>_. ret (n + 1)))"

definition backfill_body :: "env \<Rightarrow> lib \<Rightarrow> config \<Rightarrow> ('z world_scheme, nat) prog" where
  "backfill_body env lb cfg =
     bindP (call_articles env (Query backfill_select [])) (\<lambda>rows.
     bindP (foldP (backfill_step env lb cfg) 0 rows) (\<lambda>n.
     bindP (call_unit env Commit) (\<lambda>_. ret n)))"

definition backfill :: "env \<Rightarrow> lib \<Rightarrow> config \<Rightarrow> ('z cworld_scheme, nat) prog" where
  "backfill env lb cfg = with_conn env cfg (backfill_body env lb cfg)"

section \<open>What they do\<close>

definition verdict :: "config \<Rightarrow> string \<Rightarrow> string option" where
  "verdict cfg c = (case assess cfg c of (keep, reason, _) \<Rightarrow> if keep then None else Some reason)"

lemma probe_fold:
  "let r = foldl (probe_step cfg) (k, d) cs in
   (\<forall>reason. get0 (snd r) reason = get0 d reason + length (filter (\<lambda>c. verdict cfg c = Some reason) cs))
   \<and> fst r = k + length (filter (\<lambda>c. verdict cfg c = None) cs)
   \<and> fst r + total (snd r) = k + total d + length cs"
proof (induction cs arbitrary: k d)
  case Nil
  then show ?case by simp
next
  case (Cons c cs)
  obtain keep reason m where a: "assess cfg c = (keep, reason, m)" by (metis prod_cases3)
  show ?case
  proof (cases keep)
    case True
    with a Cons.IH [of "k + 1" d] show ?thesis by (simp add: probe_step_def verdict_def Let_def)
  next
    case False
    with a Cons.IH [of k "bump reason 1 d"] show ?thesis by (auto simp: probe_step_def verdict_def Let_def)
  qed
qed

text \<open>
  The probe's histogram is exact: a reason's count is the number of scanned articles the
  quality gate rejects for it, and the counts add up to the scanned articles that are not kept.
\<close>

theorem probe_counts:
  fixes s :: "'z cworld_scheme"
  assumes "probe env cfg limit s = (Inr d, s')"
  shows "\<exists>tr rows. env tr (Query (fst (probe_query limit)) (snd (probe_query limit))) = ArtRows rows
    \<and> (\<forall>reason. get0 d reason = length (filter (\<lambda>r. verdict cfg (content_of r) = Some reason) rows))
    \<and> total d = length (filter (\<lambda>r. verdict cfg (content_of r) \<noteq> None) rows)"
proof -
  let ?q = "Query (fst (probe_query limit)) (snd (probe_query limit))"
  obtain rows and s1 :: "'z cworld_scheme" where c: "with_conn env cfg (call_articles env ?q) s = (Inr rows, s1)"
    and d: "d = snd (foldl (probe_step cfg) (0, []) (map content_of rows))"
    using assms by (auto simp: probe_def bindP_eq_Inr ret_def)
  from with_conn_Inr [OF c] obtain sa sb :: "'z cworld_scheme" where "call_articles env ?q sa = (Inr rows, sb)"
    by blast
  then have "env (trace sa) ?q = ArtRows rows" by (simp add: call_articles_Inr)
  moreover have "length rows = length (filter (\<lambda>r. verdict cfg (content_of r) = None) rows)
      + length (filter (\<lambda>r. verdict cfg (content_of r) \<noteq> None) rows)"
    using sum_length_filter_compl [of "\<lambda>r. verdict cfg (content_of r) = None" rows] by simp
  ultimately show ?thesis
    using probe_fold [of cfg 0 "[]" "map content_of rows"]
    by (intro exI [of _ "trace sa"] exI [of _ rows]) (auto simp: d Let_def filter_map comp_def)
qed

definition stored_row :: "int \<Rightarrow> string option \<Rightarrow> art_row" where
  "stored_row i c = \<lparr>t_id = i, t_url = ''u'', t_title = None, t_content = c, t_author = None,
     t_published = None, t_tags = None, t_source = None, t_lang = None, t_score = None, t_crawled = None,
     t_hash = None\<rparr>"

definition stored_env :: "art_row list \<Rightarrow> env" where
  "stored_env rows tr c = (case c of Query _ _ \<Rightarrow> ArtRows rows | _ \<Rightarrow> Done)"

theorem probe_counts_witness:
  "\<exists>s' rows. probe (stored_env [stored_row 1 (Some ''too short''), stored_row 2 (Some [])]) default_config 5000
      \<lparr>trace = [], c_pool = True\<rparr> = (Inr [(''too_short'', 1), (''empty'', 1)], s')
    \<and> total [(''too_short'', 1), (''empty'', 1)] = length (filter (\<lambda>r. verdict default_config (content_of r) \<noteq> None) rows)"
proof -
  have "fst (probe (stored_env [stored_row 1 (Some ''too short''), stored_row 2 (Some [])]) default_config 5000
      \<lparr>trace = [], c_pool = True\<rparr>) = Inr [(''too_short'', 1), (''empty'', 1)]"
    by code_simp
  then obtain s' where run: "probe (stored_env [stored_row 1 (Some ''too short''), stored_row 2 (Some [])]) default_config 5000
      \<lparr>trace = [], c_pool = True\<rparr> = (Inr [(''too_short'', 1), (''empty'', 1)], s')"
    by (metis prod.collapse)
  from probe_counts [OF run] run show ?thesis by blast
qed

lemma backfill_loop:
  assumes "foldP (backfill_step env lb cfg) n rows s = (Inr n', s')"
  shows "n' = n + length (filter (\<lambda>r. content_of r \<noteq> []) rows) \<and> (\<exists>es. trace s' = trace s @ es
    \<and> map fst es = map (\<lambda>r. Execute backfill_update (backfill_params lb cfg r)) (filter (\<lambda>r. content_of r \<noteq> []) rows)
    \<and> list_all (\<lambda>e. ok_reply (snd e)) es)"
  using assms
proof (induction rows arbitrary: n s)
  case Nil
  then show ?case by (simp add: ret_def)
next
  case (Cons r rows)
  show ?case
  proof (cases "content_of r = []")
    case True
    with Cons.prems have "foldP (backfill_step env lb cfg) n rows s = (Inr n', s')"
      by (simp add: bindP_eq_Inr backfill_step_def [of _ _ _ _ r] ret_def)
    from Cons.IH [OF this] True show ?thesis by simp
  next
    case False
    let ?c = "Execute backfill_update (backfill_params lb cfg r)"
    let ?s1 = "s\<lparr>trace := trace s @ [(?c, env (trace s) ?c)]\<rparr>"
    have ok: "ok_reply (env (trace s) ?c)"
      and rest: "foldP (backfill_step env lb cfg) (n + 1) rows ?s1 = (Inr n', s')"
      using Cons.prems False
      by (auto simp: bindP_eq_Inr backfill_step_def [of _ _ _ _ r] ret_def call_unit_Inr)
    from Cons.IH [OF rest] obtain es where "n' = n + 1 + length (filter (\<lambda>r. content_of r \<noteq> []) rows)"
      "trace s' = trace ?s1 @ es"
      "map fst es = map (\<lambda>r. Execute backfill_update (backfill_params lb cfg r)) (filter (\<lambda>r. content_of r \<noteq> []) rows)"
      "list_all (\<lambda>e. ok_reply (snd e)) es"
      by blast
    with False ok show ?thesis
      by (intro conjI exI [of _ "(?c, env (trace s) ?c) # es"]) auto
  qed
qed

text \<open>
  A backfill that returns has given each article that had text and no fingerprint its
  fingerprint, one update per article in the order of the cursor and all of them committed, and
  reports their number.
\<close>

theorem backfill_updates:
  fixes s :: "'z cworld_scheme"
  assumes "backfill env lb cfg s = (Inr n, s')"
  shows "\<exists>rows pre es post r. trace s' = trace s @ pre @ [(Query backfill_select [], ArtRows rows)] @ es @ [(Commit, r)] @ post
    \<and> ok_reply r \<and> list_all pool_event pre \<and> list_all pool_event post
    \<and> map fst es = map (\<lambda>r. Execute backfill_update (backfill_params lb cfg r)) (filter (\<lambda>r. content_of r \<noteq> []) rows)
    \<and> list_all (\<lambda>e. ok_reply (snd e)) es \<and> n = length es"
proof -
  from with_conn_Inr [OF assms [unfolded backfill_def]] obtain sa sb :: "'z cworld_scheme" and ea eb
    where body: "backfill_body env lb cfg sa = (Inr n, sb)"
      and ea: "trace sa = trace s @ ea" "list_all pool_event ea"
      and eb: "trace s' = trace sb @ eb" "list_all pool_event eb"
    by blast
  from body obtain rows s1 s2 where 1: "call_articles env (Query backfill_select []) sa = (Inr rows, s1)"
    and 2: "foldP (backfill_step env lb cfg) 0 rows s1 = (Inr n, s2)"
    and 3: "call_unit env Commit s2 = (Inr (), sb)"
    by (auto simp: backfill_body_def bindP_eq_Inr ret_def)
  from backfill_loop [OF 2] obtain es where es: "trace s2 = trace s1 @ es"
    "map fst es = map (\<lambda>r. Execute backfill_update (backfill_params lb cfg r)) (filter (\<lambda>r. content_of r \<noteq> []) rows)"
    "list_all (\<lambda>e. ok_reply (snd e)) es" "n = length (filter (\<lambda>r. content_of r \<noteq> []) rows)"
    by auto
  have "n = length es" using arg_cong [OF es(2), of length] es(4) by simp
  moreover have "trace s' = trace s @ ea @ [(Query backfill_select [], ArtRows rows)] @ es
      @ [(Commit, env (trace s2) Commit)] @ eb"
    using 1 3 ea(1) eb(1) es(1) by (auto simp: call_articles_Inr call_unit_Inr)
  moreover have "ok_reply (env (trace s2) Commit)" using 3 by (simp add: call_unit_Inr)
  ultimately show ?thesis using ea(2) eb(2) es(2,3) by blast
qed

definition tool_lib :: lib where
  "tool_lib = \<lparr>json_loads = (\<lambda>_. NotJson), json_dumps = (\<lambda>_. []), sha256_hex = (\<lambda>u. u),
     blake2b8 = (\<lambda>_. [0, 0, 0, 0, 0, 0, 0, 1]), is_ip = (\<lambda>_. True), completion = (\<lambda>n. [0..<n])\<rparr>"

theorem backfill_updates_witness:
  "\<exists>rows (es :: event list) s'. backfill (stored_env [stored_row 1 (Some ''a''), stored_row 2 None]) tool_lib
       (default_config\<lparr>SIMHASH_BITS := 4\<rparr>) \<lparr>trace = [], c_pool = True\<rparr> = (Inr 1, s')
     \<and> map fst es = map (\<lambda>r. Execute backfill_update (backfill_params tool_lib (default_config\<lparr>SIMHASH_BITS := 4\<rparr>) r))
         (filter (\<lambda>r. content_of r \<noteq> []) rows)
     \<and> 1 = length es"
proof -
  have "fst (backfill (stored_env [stored_row 1 (Some ''a''), stored_row 2 None]) tool_lib
       (default_config\<lparr>SIMHASH_BITS := 4\<rparr>) \<lparr>trace = [], c_pool = True\<rparr>) = Inr 1"
    by code_simp
  then obtain s' where run: "backfill (stored_env [stored_row 1 (Some ''a''), stored_row 2 None]) tool_lib
       (default_config\<lparr>SIMHASH_BITS := 4\<rparr>) \<lparr>trace = [], c_pool = True\<rparr> = (Inr 1, s')"
    by (metis prod.collapse)
  obtain rows and es :: "event list" where "map fst es = map (\<lambda>r. Execute backfill_update (backfill_params tool_lib (default_config\<lparr>SIMHASH_BITS := 4\<rparr>) r))
         (filter (\<lambda>r. content_of r \<noteq> []) rows)" "1 = length es"
    using backfill_updates [OF run] by (elim exE conjE) (rule that)
  with run show ?thesis by (intro exI conjI)
qed

end
