(* ===== verification/Corpus.thy ===== *)
theory Corpus
  imports Session Chunker
begin

text \<open>
  \<open>py-processor/rag_export.py\<close> and \<open>py-processor/export.py\<close>: the stored articles as a file
  of chunks, written incrementally behind a cursor kept in a state file, and as a file of
  documents. The JSON printers and the parser of the state file are parameters.

  The lemmas give the numbering of an article's chunks, and the invariant of the incremental
  export: over any number of runs the file holds the chunks of every article once, in order.
\<close>

section \<open>The chunks of an article\<close>

definition chunk_id :: "lib \<Rightarrow> string \<Rightarrow> nat \<Rightarrow> string" where
  "chunk_id lb url i = take 16 (sha256_hex lb url) @ ''_'' @ show_nat i"

definition article_to_chunks :: "lib \<Rightarrow> int \<Rightarrow> int \<Rightarrow> int \<Rightarrow> art_row \<Rightarrow> chunk_row list" where
  "article_to_chunks lb target overlap min_chars row =
     (let pieces = split_markdown (case t_content row of None \<Rightarrow> [] | Some c \<Rightarrow> c) target overlap min_chars;
          n = length pieces
      in map (\<lambda>(i, piece). \<lparr>k_id = chunk_id lb (t_url row) i, k_article = t_id row, k_url = t_url row,
           k_title = t_title row, k_path = c_path piece, k_index = i, k_n = n, k_text = c_text piece,
           k_tags = (case t_tags row of None \<Rightarrow> [] | Some ts \<Rightarrow> ts), k_source = t_source row,
           k_lang = t_lang row, k_published = t_published row, k_score = t_score row\<rparr>)
           (enumerate 0 pieces))"

section \<open>The state file\<close>

text \<open>What \<open>json.load\<close> can make of the state file.\<close>

datatype state_json = BadJson | NoObject | LastId "int option"

definition load_state :: "env \<Rightarrow> (string \<Rightarrow> state_json) \<Rightarrow> string \<Rightarrow> ('z world_scheme, int) prog" where
  "load_state env parse path =
     tryP
       (bindP (call_text env (FileRead path)) (\<lambda>t. case parse t of
          BadJson \<Rightarrow> throw JSONDecodeError
        | NoObject \<Rightarrow> throw (AttributeError ''get'')
        | LastId v \<Rightarrow> ret (case v of None \<Rightarrow> 0 | Some i \<Rightarrow> i)))
       (\<lambda>e. case e of OSError _ \<Rightarrow> True | JSONDecodeError \<Rightarrow> True | ValueError _ \<Rightarrow> True | _ \<Rightarrow> False)
       (\<lambda>_. ret 0)"

definition save_state :: "env \<Rightarrow> (int \<Rightarrow> string) \<Rightarrow> string \<Rightarrow> int \<Rightarrow> ('z world_scheme, unit) prog" where
  "save_state env print path last_id =
     (let tmp = path @ ''.tmp''
      in bindP (call_unit env (FileOpen tmp ''w'')) (\<lambda>_.
         bindP (call_unit env (FileWrite tmp (print last_id))) (\<lambda>_.
         call_unit env (FileReplace tmp path))))"

section \<open>Chunks, incrementally\<close>

definition rag_sql :: string where
  "rag_sql = ''SELECT id, url, title, content_md, author, published_at, tags, source_type, language, quality_score FROM articles WHERE id > %s AND content_md IS NOT NULL ORDER BY id''"

record rag_job =
  j_out :: string
  j_state :: string
  j_full :: bool
  j_target :: int
  j_overlap :: int
  j_min :: int

definition job_chunks :: "lib \<Rightarrow> rag_job \<Rightarrow> art_row \<Rightarrow> chunk_row list" where
  "job_chunks lb job row = article_to_chunks lb (j_target job) (j_overlap job) (j_min job) row"

definition rag_row ::
  "env \<Rightarrow> lib \<Rightarrow> (chunk_row \<Rightarrow> string) \<Rightarrow> rag_job \<Rightarrow> nat \<times> int \<Rightarrow> art_row \<Rightarrow> ('z world_scheme, nat \<times> int) prog" where
  "rag_row env lb dumps job acc row =
     (let chunks = job_chunks lb job row
      in bindP (write_lines env (j_out job) dumps chunks) (\<lambda>_.
         ret (fst acc + length chunks, max (snd acc) (t_id row))))"

definition rag_body ::
  "env \<Rightarrow> lib \<Rightarrow> (chunk_row \<Rightarrow> string) \<Rightarrow> rag_job \<Rightarrow> int \<Rightarrow> ('z world_scheme, nat \<times> int) prog" where
  "rag_body env lb dumps job last_id =
     bindP (call_articles env (Query rag_sql [PInt last_id])) (\<lambda>rows.
     bindP (call_unit env (FileOpen (j_out job) (if j_full job then ''w'' else ''a''))) (\<lambda>_.
     foldP (rag_row env lb dumps job) (0, last_id) rows))"

definition export_chunks ::
  "env \<Rightarrow> lib \<Rightarrow> config \<Rightarrow> (chunk_row \<Rightarrow> string) \<Rightarrow> (string \<Rightarrow> state_json) \<Rightarrow> (int \<Rightarrow> string) \<Rightarrow> rag_job
   \<Rightarrow> ('z cworld_scheme, nat \<times> int) prog" where
  "export_chunks env lb cfg dumps parse print job =
     bindP (if j_full job then ret 0 else load_state env parse (j_state job)) (\<lambda>last_id.
     bindP (with_conn env cfg (rag_body env lb dumps job last_id)) (\<lambda>result.
     bindP (if j_full job then ret () else save_state env print (j_state job) (snd result)) (\<lambda>_.
     ret result)))"

definition rag_main ::
  "env \<Rightarrow> lib \<Rightarrow> config \<Rightarrow> (chunk_row \<Rightarrow> string) \<Rightarrow> (string \<Rightarrow> state_json) \<Rightarrow> (int \<Rightarrow> string) \<Rightarrow> args
   \<Rightarrow> ('z cworld_scheme, nat \<times> int) prog" where
  "rag_main env lb cfg dumps parse print xs =
     bindP (liftE (arg_int xs ''--target'' 1200)) (\<lambda>target.
     bindP (liftE (arg_int xs ''--overlap'' 150)) (\<lambda>overlap.
     bindP (liftE (arg_int xs ''--min-chars'' 30)) (\<lambda>min_chars.
     export_chunks env lb cfg dumps parse print
       \<lparr>j_out = arg xs ''--out'' ''corpus_chunks.jsonl'', j_state = arg xs ''--state'' ''rag_export_state.json'',
        j_full = arg_flag xs ''--full'', j_target = target, j_overlap = overlap, j_min = min_chars\<rparr>)))"

section \<open>Documents\<close>

text \<open>The statement and its parameters, grown by the filters that are switched on.\<close>

definition doc_sql :: string where
  "doc_sql = ''SELECT url, title, content_md, author, published_at, tags, source_type, language, quality_score FROM articles WHERE content_md IS NOT NULL AND length(content_md) >= %s''"

definition doc_query :: "int \<Rightarrow> int \<Rightarrow> rat \<Rightarrow> string option \<Rightarrow> string \<times> param list" where
  "doc_query limit min_len min_score lang =
     (let sql = doc_sql; params = [PInt min_len];
          (sql, params) = (if min_score > 0 then (sql @ '' AND quality_score >= %s'', params @ [PNum min_score])
                           else (sql, params));
          (sql, params) = (case lang of
              None \<Rightarrow> (sql, params)
            | Some l \<Rightarrow> if l = [] then (sql, params)
                        else (sql @ '' AND language = %s'', params @ [PText l]));
          sql = sql @ '' ORDER BY id''
      in if limit \<noteq> 0 then (sql @ '' LIMIT %s'', params @ [PInt limit]) else (sql, params))"

record doc =
  d_url :: string
  d_title :: "string option"
  d_content :: "string option"
  d_author :: "string option"
  d_published :: "string option"
  d_tags :: "string list option"
  d_source :: "string option"
  d_lang :: "string option"
  d_score :: "rat option"

definition doc_of :: "art_row \<Rightarrow> doc" where
  "doc_of row = \<lparr>d_url = t_url row, d_title = t_title row, d_content = t_content row,
     d_author = t_author row, d_published = t_published row, d_tags = t_tags row,
     d_source = t_source row, d_lang = t_lang row, d_score = t_score row\<rparr>"

definition doc_body ::
  "env \<Rightarrow> (doc \<Rightarrow> string) \<Rightarrow> string \<Rightarrow> string \<times> param list \<Rightarrow> ('z world_scheme, nat) prog" where
  "doc_body env dumps out q =
     bindP (call_articles env (Query (fst q) (snd q))) (\<lambda>rows.
     bindP (call_unit env (FileOpen out ''w'')) (\<lambda>_.
     bindP (write_lines env out dumps (map doc_of rows)) (\<lambda>_. ret (length rows))))"

text \<open>The connection is taken before the statement is put together, which cannot fail.\<close>

definition export_jsonl ::
  "env \<Rightarrow> config \<Rightarrow> (doc \<Rightarrow> string) \<Rightarrow> string \<Rightarrow> int \<Rightarrow> int \<Rightarrow> rat \<Rightarrow> string option \<Rightarrow> ('z cworld_scheme, nat) prog" where
  "export_jsonl env cfg dumps out limit min_len min_score lang =
     with_conn env cfg (doc_body env dumps out (doc_query limit min_len min_score lang))"

definition export_main :: "env \<Rightarrow> config \<Rightarrow> (doc \<Rightarrow> string) \<Rightarrow> args \<Rightarrow> ('z cworld_scheme, nat) prog" where
  "export_main env cfg dumps xs =
     bindP (liftE (arg_int xs ''--limit'' 0)) (\<lambda>limit.
     bindP (liftE (arg_int xs ''--min-len'' 200)) (\<lambda>min_len.
     bindP (liftE (arg_float xs ''--min-score'' 0)) (\<lambda>min_score.
     export_jsonl env cfg dumps (arg xs ''--out'' ''corpus.jsonl'') limit min_len min_score
       (map_of (rev xs) ''--lang''))))"

section \<open>Numbering\<close>

lemma show_nat_inject: "show_nat m = show_nat n \<longleftrightarrow> m = n"
proof
  assume "show_nat m = show_nat n"
  then have "show_int (int m) = show_int (int n)" by (simp add: show_int_def)
  then show "m = n" by (metis py_int_show_int option.inject of_nat_eq_iff)
qed simp

text \<open>
  The chunks of an article are numbered from zero without a gap, each knows how many there
  are, and their identifiers are distinct, so one of them can be addressed.
\<close>

theorem article_to_chunks_numbered:
  "map k_index (article_to_chunks lb target overlap min_chars row)
     = [0..<length (article_to_chunks lb target overlap min_chars row)]
   \<and> list_all (\<lambda>k. k_n k = length (article_to_chunks lb target overlap min_chars row)
       \<and> k_article k = t_id row \<and> k_id k = chunk_id lb (t_url row) (k_index k))
       (article_to_chunks lb target overlap min_chars row)
   \<and> distinct (map k_id (article_to_chunks lb target overlap min_chars row))"
proof -
  let ?ks = "article_to_chunks lb target overlap min_chars row"
  let ?ps = "split_markdown (case t_content row of None \<Rightarrow> [] | Some c \<Rightarrow> c) target overlap min_chars"
  have len: "length ?ks = length ?ps" by (simp add: article_to_chunks_def Let_def)
  have idx: "map k_index ?ks = map fst (enumerate 0 ?ps)"
    by (simp add: article_to_chunks_def Let_def case_prod_unfold comp_def)
  then have 1: "map k_index ?ks = [0..<length ?ks]" by (simp add: len)
  have 2: "list_all (\<lambda>k. k_n k = length ?ks \<and> k_article k = t_id row
      \<and> k_id k = chunk_id lb (t_url row) (k_index k)) ?ks"
    by (auto simp: article_to_chunks_def Let_def list_all_iff)
  have "map k_id ?ks = map (chunk_id lb (t_url row) \<circ> k_index) ?ks"
    using 2 by (simp add: list_all_iff)
  also have "\<dots> = map (chunk_id lb (t_url row)) [0..<length ?ks]"
    by (simp only: map_map [symmetric] 1)
  finally have "distinct (map k_id ?ks)"
    by (simp add: distinct_map inj_on_def chunk_id_def show_nat_inject)
  with 1 2 show ?thesis by blast
qed

section \<open>The incremental export\<close>

text \<open>What the table's query answers, and the text of a corpus.\<close>

definition rag_db :: "env \<Rightarrow> art_row list \<Rightarrow> bool" where
  "rag_db env table \<longleftrightarrow> (\<forall>tr n. env tr (Query rag_sql [PInt n])
     = ArtRows (filter (\<lambda>r. n < t_id r \<and> t_content r \<noteq> None) table))"

definition corpus_text :: "lib \<Rightarrow> (chunk_row \<Rightarrow> string) \<Rightarrow> rag_job \<Rightarrow> art_row list \<Rightarrow> string" where
  "corpus_text lb dumps job rows = concat (map (json_line dumps)
     (concat (map (job_chunks lb job) (filter (\<lambda>r. t_content r \<noteq> None) rows))))"

definition contents :: "(string \<rightharpoonup> string) \<Rightarrow> string \<Rightarrow> string" where
  "contents fs p = (case fs p of None \<Rightarrow> [] | Some t \<Rightarrow> t)"

definition exported ::
  "lib \<Rightarrow> (chunk_row \<Rightarrow> string) \<Rightarrow> (int \<Rightarrow> string) \<Rightarrow> rag_job \<Rightarrow> (string \<rightharpoonup> string) \<Rightarrow> int \<Rightarrow> art_row list \<Rightarrow> bool" where
  "exported lb dumps print job fs m rows \<longleftrightarrow>
     contents fs (j_out job) = corpus_text lb dumps job rows
     \<and> (fs (j_state job) = Some (print m) \<or> fs (j_state job) = None \<and> m = 0)
     \<and> (\<forall>r \<in> set rows. t_content r \<noteq> None \<longrightarrow> t_id r \<le> m)"

lemma rag_row_Inr:
  "rag_row env lb dumps job (n, m) r s = (Inr acc, s') \<longleftrightarrow>
     write_lines env (j_out job) dumps (job_chunks lb job r) s = (Inr (), s')
     \<and> acc = (n + length (job_chunks lb job r), max m (t_id r))"
  by (auto simp: rag_row_def Let_def bindP_eq_Inr ret_def)

lemma rag_loop:
  assumes "foldP (rag_row env lb dumps job) (n, m) rows s = (Inr (n', m'), s')"
    "fs_of (trace s) (j_out job) = Some t"
  shows "fs_of (trace s') (j_out job) = Some (t @ concat (map (json_line dumps) (concat (map (job_chunks lb job) rows))))
    \<and> (\<forall>p. p \<noteq> j_out job \<longrightarrow> fs_of (trace s') p = fs_of (trace s) p)
    \<and> m \<le> m' \<and> (\<forall>r \<in> set rows. t_id r \<le> m') \<and> n' = n + length (concat (map (job_chunks lb job) rows))"
  using assms
proof (induction rows arbitrary: n m s t)
  case Nil
  then show ?case by (simp add: ret_def)
next
  case (Cons r rows)
  let ?cs = "job_chunks lb job r"
  obtain s1 where 1: "write_lines env (j_out job) dumps ?cs s = (Inr (), s1)"
    and 2: "foldP (rag_row env lb dumps job) (n + length ?cs, max m (t_id r)) rows s1 = (Inr (n', m'), s')"
    using Cons.prems(1) by (auto simp: bindP_eq_Inr rag_row_Inr)
  from write_lines_fs [OF 1 Cons.prems(2)] Cons.IH [OF 2] show ?case by auto
qed

lemma load_state_Inr:
  assumes "files env" "\<And>i. parse (print i) = LastId (Some i)"
    "fs_of (trace s) path = Some (print m) \<or> fs_of (trace s) path = None \<and> m = 0"
  shows "\<exists>r. load_state env parse path s = (Inr m, s\<lparr>trace := trace s @ [(FileRead path, r)]\<rparr>)"
  using assms by (auto simp: load_state_def tryP_def bindP_def call_text_def call_def Let_def files_def
      ret_def throw_def)

lemma save_state_fs:
  assumes "save_state env print path m s = (Inr u, s')"
  shows "fs_of (trace s') = (fs_of (trace s)) (path := Some (print m), path @ ''.tmp'' := None)"
  using assms by (auto simp: save_state_def Let_def bindP_eq_Inr call_unit_Inr fs_of_append fun_eq_iff)

lemma rag_body_Inr:
  assumes "rag_db env table" "\<not> j_full job" "rag_body env lb dumps job m s = (Inr (n, m'), s')"
  defines "rows \<equiv> filter (\<lambda>r. m < t_id r \<and> t_content r \<noteq> None) table"
  shows "contents (fs_of (trace s')) (j_out job) = contents (fs_of (trace s)) (j_out job)
        @ corpus_text lb dumps job rows
    \<and> (\<forall>p. p \<noteq> j_out job \<longrightarrow> fs_of (trace s') p = fs_of (trace s) p)
    \<and> m \<le> m' \<and> (\<forall>r \<in> set rows. t_id r \<le> m') \<and> n = length (concat (map (job_chunks lb job) rows))"
proof -
  obtain s1 s2 where 1: "s1 = s\<lparr>trace := trace s @ [(Query rag_sql [PInt m], ArtRows rows)]\<rparr>"
    and 2: "call_unit env (FileOpen (j_out job) ''a'') s1 = (Inr (), s2)"
    and 3: "foldP (rag_row env lb dumps job) (0, m) rows s2 = (Inr (n, m'), s')"
    using assms by (auto simp: rag_body_def bindP_eq_Inr call_articles_Inr rag_db_def)
  have fs2: "fs_of (trace s2) = (fs_of (trace s)) (j_out job := Some (contents (fs_of (trace s)) (j_out job)))"
    using 1 2 by (auto simp: call_unit_Inr fs_of_append contents_def)
  have "filter (\<lambda>r. t_content r \<noteq> None) rows = rows" by (simp add: rows_def)
  with rag_loop [OF 3, of "contents (fs_of (trace s)) (j_out job)"] fs2 show ?thesis
    by (simp add: contents_def corpus_text_def)
qed

text \<open>
  C9: Incremental runs neither repeat nor lose an article. If the file holds the chunks of the
  rows \<open>old\<close> and the state file says how far it got, then after a run over a table that has
  grown by rows with higher identifiers, the file holds the chunks of all of them, and the
  state file again says how far it got, so the next run continues from there.
\<close>

theorem export_chunks_exactly_once:
  fixes s :: "'z cworld_scheme"
  assumes env: "files env" "rag_db env (old @ new)" and json: "\<And>i. parse (print i) = LastId (Some i)"
    and job: "\<not> j_full job" "j_out job \<noteq> j_state job" "j_out job \<noteq> j_state job @ ''.tmp''"
    and inv: "exported lb dumps print job (fs_of (trace s)) m old" "\<forall>r \<in> set new. m < t_id r"
    and run: "export_chunks env lb cfg dumps parse print job s = (Inr (n, m'), s')"
  shows "exported lb dumps print job (fs_of (trace s')) m' (old @ new) \<and> m \<le> m'"
proof -
  from inv(1) have "fs_of (trace s) (j_state job) = Some (print m) \<or> fs_of (trace s) (j_state job) = None \<and> m = 0"
    by (simp add: exported_def)
  from load_state_Inr [where parse = parse and print = print, OF env(1) json this] obtain r where load: "load_state env parse (j_state job) s
      = (Inr m, s\<lparr>trace := trace s @ [(FileRead (j_state job), r)]\<rparr>)"
    by blast
  let ?s0 = "s\<lparr>trace := trace s @ [(FileRead (j_state job), r)]\<rparr>"
  obtain s2 where block: "with_conn env cfg (rag_body env lb dumps job m) ?s0 = (Inr (n, m'), s2)"
    and save: "save_state env print (j_state job) m' s2 = (Inr (), s')"
    using run load job(1) by (auto simp: export_chunks_def bindP_eq_Inr bindP_Inr ret_def)
  from with_conn_Inr [OF block] obtain sa sb :: "'z cworld_scheme" and ea eb
    where body: "rag_body env lb dumps job m sa = (Inr (n, m'), sb)"
      and ea: "trace sa = trace ?s0 @ ea" "list_all pool_event ea"
      and eb: "trace s2 = trace sb @ eb" "list_all pool_event eb"
    by blast
  have fsa: "fs_of (trace sa) = fs_of (trace s)"
    by (simp add: ea(1) fs_of_append pool_fs [OF ea(2)])
  have fsb: "fs_of (trace s2) = fs_of (trace sb)"
    by (simp only: eb(1) fs_of_append pool_fs [OF eb(2)])
  let ?rows = "filter (\<lambda>r. m < t_id r \<and> t_content r \<noteq> None) (old @ new)"
  have rows: "?rows = filter (\<lambda>r. t_content r \<noteq> None) new"
  proof -
    have "filter (\<lambda>r. m < t_id r \<and> t_content r \<noteq> None) old = []"
      using inv(1) by (fastforce simp: exported_def filter_empty_conv)
    moreover have "filter (\<lambda>r. m < t_id r \<and> t_content r \<noteq> None) new = filter (\<lambda>r. t_content r \<noteq> None) new"
      using inv(2) by (intro filter_cong) auto
    ultimately show ?thesis by simp
  qed
  note B = rag_body_Inr [OF env(2) job(1) body, unfolded rows fsa fsb [symmetric]]
  have "contents (fs_of (trace s2)) (j_out job) = contents (fs_of (trace s)) (j_out job)
      @ corpus_text lb dumps job new" "m \<le> m'" "\<forall>r \<in> set new. t_content r \<noteq> None \<longrightarrow> t_id r \<le> m'"
    using B by (auto simp: corpus_text_def)
  with inv(1) job save_state_fs [OF save] show ?thesis
    by (force simp: exported_def contents_def corpus_text_def)
qed

definition corpus_row :: "int \<Rightarrow> string option \<Rightarrow> art_row" where
  "corpus_row i content = \<lparr>t_id = i, t_url = ''http://h/'' @ show_int i, t_title = None,
     t_content = content, t_author = None, t_published = None, t_tags = None, t_source = None,
     t_lang = None, t_score = None, t_crawled = None, t_hash = None\<rparr>"

definition corpus_rows :: "art_row list" where
  "corpus_rows = [corpus_row 1 (Some ''A first text that is long enough.''), corpus_row 2 None]"

definition more_rows :: "art_row list" where
  "more_rows = [corpus_row 3 (Some ''A second text, as long as that.'')]"

definition default_job :: rag_job where
  "default_job = \<lparr>j_out = ''corpus_chunks.jsonl'', j_state = ''rag_export_state.json'', j_full = False,
     j_target = 1200, j_overlap = 150, j_min = 30\<rparr>"

text \<open>Files and a table that work as documented.\<close>

definition corpus_env :: "art_row list \<Rightarrow> env" where
  "corpus_env table tr c = (case c of
     Query sql ps \<Rightarrow> (case ps of [PInt n] \<Rightarrow> ArtRows (filter (\<lambda>r. n < t_id r \<and> t_content r \<noteq> None) table)
                     | _ \<Rightarrow> Done)
   | FileRead p \<Rightarrow> (case fs_of tr p of None \<Rightarrow> Fail (OSError p) | Some t \<Rightarrow> Txt t)
   | _ \<Rightarrow> Done)"

lemma corpus_env_laws: "files (corpus_env table)" "rag_db (corpus_env table) table"
  by (simp_all add: files_def rag_db_def corpus_env_def)

definition corpus_lib :: lib where
  "corpus_lib = \<lparr>json_loads = (\<lambda>_. NotJson), json_dumps = (\<lambda>_. []), sha256_hex = (\<lambda>u. u),
     blake2b8 = (\<lambda>_. []), is_ip = (\<lambda>_. True), completion = (\<lambda>n. [0..<n])\<rparr>"

definition parse_state :: "string \<Rightarrow> state_json" where
  "parse_state t = (case py_int t of None \<Rightarrow> BadJson | Some i \<Rightarrow> LastId (Some i))"

theorem export_chunks_exactly_once_witness:
  "\<exists>m' s'. export_chunks (corpus_env (corpus_rows @ more_rows)) corpus_lib default_config k_text
       parse_state show_int default_job
       (snd (export_chunks (corpus_env corpus_rows) corpus_lib default_config k_text
         parse_state show_int default_job \<lparr>trace = [], c_pool = True\<rparr>)) = (Inr (1, m'), s')
     \<and> exported corpus_lib k_text show_int default_job (fs_of (trace s')) m' (corpus_rows @ more_rows)"
proof -
  let ?s1 = "snd (export_chunks (corpus_env corpus_rows) corpus_lib default_config k_text
      parse_state show_int default_job \<lparr>trace = [], c_pool = True\<rparr>)"
  let ?run = "export_chunks (corpus_env (corpus_rows @ more_rows)) corpus_lib default_config k_text
      parse_state show_int default_job ?s1"
  have "fst ?run = Inr (1, 3)" by code_simp
  then obtain s' where run: "?run = (Inr (1, 3), s')" by (metis prod.collapse)
  have inv: "exported corpus_lib k_text show_int default_job (fs_of (trace ?s1)) 1 corpus_rows"
    by code_simp
  have "exported corpus_lib k_text show_int default_job (fs_of (trace s')) 3 (corpus_rows @ more_rows)"
    using export_chunks_exactly_once [where parse = parse_state and print = show_int,
        OF corpus_env_laws _ _ _ _ inv _ run]
    by (simp add: parse_state_def py_int_show_int default_job_def more_rows_def corpus_row_def)
  with run show ?thesis by blast
qed

section \<open>The documents\<close>

lemma export_jsonl_file:
  fixes s :: "'z cworld_scheme"
  assumes "export_jsonl env cfg dumps out limit min_len min_score lang s = (Inr n, s')"
  shows "\<exists>tr rows. env tr (Query (fst (doc_query limit min_len min_score lang))
        (snd (doc_query limit min_len min_score lang))) = ArtRows rows
    \<and> n = length rows \<and> fs_of (trace s') out = Some (concat (map (json_line dumps \<circ> doc_of) rows))"
proof -
  let ?q = "doc_query limit min_len min_score lang"
  from with_conn_Inr [OF assms [unfolded export_jsonl_def]] obtain sa sb :: "'z cworld_scheme" and eb
    where body: "doc_body env dumps out ?q sa = (Inr n, sb)"
      and eb: "trace s' = trace sb @ eb" "list_all pool_event eb"
    by blast
  then obtain rows s2 where 1: "env (trace sa) (Query (fst ?q) (snd ?q)) = ArtRows rows"
    and 2: "write_lines env out dumps (map doc_of rows) s2 = (Inr (), sb)" "n = length rows"
    and 3: "fs_of (trace s2) out = Some []"
    by (auto simp: doc_body_def bindP_eq_Inr call_articles_Inr call_unit_Inr ret_def fs_of_append)
  have "fs_of (trace s') = fs_of (trace sb)"
    by (simp only: eb(1) fs_of_append pool_fs [OF eb(2)])
  with write_lines_fs [OF 2(1) 3] 1 2(2) show ?thesis by (metis append_Nil map_map)
qed

text \<open>
  Whatever filters are switched on, the statement has one placeholder for each parameter, so
  the export never fails on a mismatch.
\<close>

theorem doc_query_aligned:
  "placeholders (fst (doc_query limit min_len min_score lang)) = length (snd (doc_query limit min_len min_score lang))"
proof -
  have sql: "placeholders doc_sql = 1" by code_simp
  have nonempty: "l \<noteq> [] \<Longrightarrow> l = hd l # tl l" for l :: string by simp
  note app = placeholders_append
  show ?thesis
    by (cases lang) (auto simp: doc_query_def Let_def app sql)
qed

text \<open>
  A full export writes the same default file but leaves the state file alone, so the incremental
  run after it appends every article again.
\<close>

lemma full_then_incremental_repeats:
  "(let full = rag_main (corpus_env corpus_rows) corpus_lib default_config k_text parse_state show_int
        [(''--full'', [])] \<lparr>trace = [], c_pool = True\<rparr>;
      again = rag_main (corpus_env corpus_rows) corpus_lib default_config k_text parse_state show_int
        [] (snd full)
    in contents (fs_of (trace (snd again))) ''corpus_chunks.jsonl'')
   = corpus_text corpus_lib k_text default_job corpus_rows @ corpus_text corpus_lib k_text default_job corpus_rows"
  by code_simp

end
