(* ===== verification/Embed.thy ===== *)
theory Embed
  imports Session Fetcher "HOL-Library.Multiset"
begin

text \<open>
  \<open>py-processor/embed_chunks.py\<close>: vectors for the chunks of a file from an embeddings server,
  in batches, with retries, resuming from the archive of an earlier run. The server, the
  \<open>.npz\<close> format and the JSON parser and printers are the environment and parameters. Rounding
  to \<open>float32\<close> and the clock readings that only feed the progress line are left out.

  The lemmas: batching loses nothing, a batch sends at most as many requests as configured, and
  an archive only ever pairs a chunk with the vector the server returned for its text.
\<close>

section \<open>Settings\<close>

record embed_config =
  EMBED_BATCH_SIZE :: int
  MIN_INTERVAL :: rat
  MAX_ATTEMPTS :: int
  SAVE_EVERY :: int
  EMBED_TIMEOUT :: int

definition load_embed :: "(string \<rightharpoonup> string) \<Rightarrow> exn + embed_config" where
  "load_embed e =
     bindE (getint e ''EMBED_BATCH_SIZE'' ''32'') (\<lambda>size.
     bindE (getfloat e ''EMBED_MIN_INTERVAL'' ''1.0'') (\<lambda>interval.
     bindE (getint e ''EMBED_MAX_ATTEMPTS'' ''8'') (\<lambda>attempts.
     bindE (getint e ''EMBED_SAVE_EVERY'' ''5000'') (\<lambda>save.
     bindE (getint e ''EMBED_TIMEOUT'' ''60'') (\<lambda>t.
     Inr \<lparr>EMBED_BATCH_SIZE = size, MIN_INTERVAL = interval, MAX_ATTEMPTS = attempts,
          SAVE_EVERY = save, EMBED_TIMEOUT = t\<rparr>)))))"

section \<open>Batches\<close>

function batches_from :: "nat \<Rightarrow> nat \<Rightarrow> chunk_row list \<Rightarrow> (nat \<times> string list) list" where
  "batches_from k i items =
     (if k = 0 \<or> items = [] then []
      else (i, map k_text (take k items)) # batches_from k (i + k) (drop k items))"
  by pat_completeness auto
termination
  by (relation "measure (\<lambda>(k, i, items). length items)") auto

declare batches_from.simps [simp del]

text \<open>\<open>range\<close> refuses a step of zero; with a negative one it is empty.\<close>

definition batch_texts :: "chunk_row list \<Rightarrow> int \<Rightarrow> exn + (nat \<times> string list) list" where
  "batch_texts items k =
     (if k = 0 then Inl (ValueError ''range() arg 3 must not be zero'')
      else if k < 0 then Inr [] else Inr (batches_from (nat k) 0 items))"

section \<open>One request with retries\<close>

definition embed_retry_after :: "string option \<Rightarrow> py_float option" where
  "embed_retry_after value = (case value of
     None \<Rightarrow> None
   | Some v \<Rightarrow> if v = [] then None else (case py_float v of
       None \<Rightarrow> None
     | Some (Fin x) \<Rightarrow> Some (Fin (max x 0))
     | Some NInf \<Rightarrow> Some (Fin 0)
     | Some x \<Rightarrow> Some x))"

text \<open>
  What an attempt comes to: the vectors in the order of their index, or the wait the server
  asked for. A body that is JSON but has no data is a \<open>KeyError\<close>; one that is not JSON is a
  \<open>RequestException\<close> of the call.
\<close>

definition embed_attempt ::
  "env \<Rightarrow> embed_config \<Rightarrow> string \<Rightarrow> string \<Rightarrow> string \<Rightarrow> string list
   \<Rightarrow> ('z world_scheme, vec list + py_float option) prog" where
  "embed_attempt env ec url key model texts =
     tryP
       (bindP (call env (Post (rstrip_char CHR ''/'' url @ ''/embeddings'') key model texts (EMBED_TIMEOUT ec))) (\<lambda>r.
        case r of
          Embedded data \<Rightarrow> ret (Inl (map snd (sort_key fst data)))
        | Response status retry_after body \<Rightarrow>
            if status = 200 then throw (KeyError ''data'') else ret (Inr (embed_retry_after retry_after))
        | _ \<Rightarrow> throw bad_reply))
       (\<lambda>e. case e of RequestException _ \<Rightarrow> True | _ \<Rightarrow> False)
       (\<lambda>_. ret (Inr None))"

definition embed_wait :: "env \<Rightarrow> nat \<Rightarrow> py_float option \<Rightarrow> ('z world_scheme, py_float) prog" where
  "embed_wait env attempt retry_after = (case retry_after of
     Some w \<Rightarrow> ret w
   | None \<Rightarrow> bindP (call_time env (Uniform 0 1)) (\<lambda>u. ret (Fin (min 300 (2 ^ attempt) + u))))"

text \<open>The second argument counts the attempts left.\<close>

fun embed_attempts ::
  "env \<Rightarrow> embed_config \<Rightarrow> string \<Rightarrow> string \<Rightarrow> string \<Rightarrow> string list \<Rightarrow> nat \<Rightarrow> nat \<Rightarrow> ('z world_scheme, vec list) prog" where
  "embed_attempts env ec url key model texts attempt 0 =
     throw (RuntimeError ''embed batch failed'')"
| "embed_attempts env ec url key model texts attempt (Suc n) =
     bindP (embed_attempt env ec url key model texts) (\<lambda>res. case res of
       Inl vecs \<Rightarrow> ret vecs
     | Inr retry_after \<Rightarrow>
         bindP (embed_wait env attempt retry_after) (\<lambda>wait.
         bindP (py_sleep env wait) (\<lambda>_.
         embed_attempts env ec url key model texts (Suc attempt) n)))"

definition embed_batch_retry ::
  "env \<Rightarrow> embed_config \<Rightarrow> string \<Rightarrow> string \<Rightarrow> string \<Rightarrow> string list \<Rightarrow> ('z world_scheme, vec list) prog" where
  "embed_batch_retry env ec url key model texts =
     embed_attempts env ec url key model texts 0 (nat (MAX_ATTEMPTS ec))"

section \<open>A run\<close>

definition load_existing :: "env \<Rightarrow> string \<Rightarrow> ('z world_scheme, string list \<times> vec list) prog" where
  "load_existing env path =
     bindP (call_num env (FileExists path)) (\<lambda>there.
     if there = 0 then ret ([], [])
     else bindP (call env (NpzLoad path)) (\<lambda>r. case r of
       Archive ids vecs \<Rightarrow> ret (ids, vecs) | _ \<Rightarrow> throw bad_reply))"

text \<open>
  \<open>np.asarray\<close> wants vectors of one length; \<open>np.savez_compressed\<close> adds the extension when it
  is missing.
\<close>

definition same_length :: "vec list \<Rightarrow> bool" where
  "same_length vecs \<longleftrightarrow> (\<forall>v \<in> set vecs. length v = length (hd vecs))"

definition npz_name :: "string \<Rightarrow> string" where
  "npz_name path = (if suffix ''.npz'' path then path else path @ ''.npz'')"

definition save_vectors :: "env \<Rightarrow> string \<Rightarrow> string list \<Rightarrow> vec list \<Rightarrow> ('z world_scheme, unit) prog" where
  "save_vectors env out ids vecs =
     (if \<not> same_length vecs then throw (ValueError ''inhomogeneous shape'')
      else call_unit env (NpzSave (npz_name out) ids vecs))"

record embed_state =
  e_ids :: "string list"
  e_vecs :: "vec list"
  e_failed :: "string list"
  e_last_call :: rat
  e_done :: nat

record embed_job =
  e_url :: string
  e_key :: string
  e_model :: string
  e_out :: string
  e_todo :: "chunk_row list"
  e_items :: nat

text \<open>Indexing raises past the end.\<close>

definition todo_ids :: "chunk_row list \<Rightarrow> nat \<Rightarrow> nat \<Rightarrow> exn + string list" where
  "todo_ids todo offset n =
     (if n \<noteq> 0 \<and> length todo < offset + n then Inl IndexError
      else Inr (map k_id (take n (drop offset todo))))"

definition throttle_embed :: "env \<Rightarrow> embed_config \<Rightarrow> rat \<Rightarrow> ('z world_scheme, rat) prog" where
  "throttle_embed env ec last_call =
     bindP (call_time env Now) (\<lambda>now.
     bindP (if MIN_INTERVAL ec - (now - last_call) > 0
            then call_unit env (Sleep (MIN_INTERVAL ec - (now - last_call))) else ret ()) (\<lambda>_.
     call_time env Now))"

text \<open>A turn of the loop: the request, \<open>None\<close> when it gave up, and what is made of it.\<close>

definition embed_request ::
  "env \<Rightarrow> embed_config \<Rightarrow> embed_job \<Rightarrow> string list \<Rightarrow> ('z world_scheme, vec list option) prog" where
  "embed_request env ec job texts =
     tryP (bindP (embed_batch_retry env ec (e_url job) (e_key job) (e_model job) texts) (\<lambda>v. ret (Some v)))
       (\<lambda>e. case e of RuntimeError _ \<Rightarrow> True | _ \<Rightarrow> False) (\<lambda>_. ret None)"

definition book_failed ::
  "embed_job \<Rightarrow> embed_state \<Rightarrow> nat \<Rightarrow> string list \<Rightarrow> ('z world_scheme, embed_state) prog" where
  "book_failed job st offset texts =
     bindP (liftE (todo_ids (e_todo job) offset (length texts))) (\<lambda>ids.
     ret (st\<lparr>e_failed := e_failed st @ ids\<rparr>))"

definition book_vectors ::
  "env \<Rightarrow> embed_config \<Rightarrow> embed_job \<Rightarrow> embed_state \<Rightarrow> nat \<Rightarrow> vec list \<Rightarrow> ('z world_scheme, embed_state) prog" where
  "book_vectors env ec job st0 offset embeddings =
     bindP (liftE (todo_ids (e_todo job) offset (length embeddings))) (\<lambda>ids.
     let st = st0\<lparr>e_ids := e_ids st0 @ ids, e_vecs := e_vecs st0 @ embeddings\<rparr> in
     if int (length (e_ids st)) - int (e_done st) \<ge> SAVE_EVERY ec \<or> length (e_ids st) = e_items job
     then bindP (save_vectors env (e_out job) (e_ids st) (e_vecs st)) (\<lambda>_.
          ret (st\<lparr>e_done := length (e_ids st)\<rparr>))
     else ret st)"

definition embed_turn ::
  "env \<Rightarrow> embed_config \<Rightarrow> embed_job \<Rightarrow> embed_state \<Rightarrow> nat \<times> string list \<Rightarrow> ('z world_scheme, embed_state) prog" where
  "embed_turn env ec job st b =
     bindP (throttle_embed env ec (e_last_call st)) (\<lambda>now.
     bindP (embed_request env ec job (snd b)) (\<lambda>res. case res of
       None \<Rightarrow> book_failed job (st\<lparr>e_last_call := now\<rparr>) (fst b) (snd b)
     | Some embeddings \<Rightarrow> book_vectors env ec job (st\<lparr>e_last_call := now\<rparr>) (fst b) embeddings))"

text \<open>
  The printers of the two side files, and what follows the loop. The shape of no vectors has no
  second dimension.
\<close>

record embed_io =
  io_loads :: "string \<Rightarrow> chunk_row option"
  io_meta :: "string \<Rightarrow> nat \<Rightarrow> nat \<Rightarrow> string"
  io_ids :: "string list \<Rightarrow> string"

definition embed_finish ::
  "env \<Rightarrow> embed_io \<Rightarrow> embed_job \<Rightarrow> embed_state \<Rightarrow> ('z world_scheme, nat \<times> nat) prog" where
  "embed_finish env io job st =
     bindP (save_vectors env (e_out job) (e_ids st) (e_vecs st)) (\<lambda>_.
     bindP (call_unit env (FileOpen (e_out job @ ''.meta.json'') ''w'')) (\<lambda>_.
     bindP (if e_vecs st = [] then throw IndexError else ret (length (hd (e_vecs st)))) (\<lambda>dim.
     bindP (call_unit env (FileWrite (e_out job @ ''.meta.json'') (io_meta io (e_model job) dim (length (e_vecs st))))) (\<lambda>_.
     bindP (if e_failed st = [] then ret ()
            else bindP (call_unit env (FileOpen (e_out job @ ''.failed.json'') ''w'')) (\<lambda>_.
                 call_unit env (FileWrite (e_out job @ ''.failed.json'') (io_ids io (e_failed st))))) (\<lambda>_.
     ret (length (e_vecs st), dim))))))"

definition embed_loop ::
  "env \<Rightarrow> embed_config \<Rightarrow> embed_io \<Rightarrow> embed_job \<Rightarrow> string list \<times> vec list \<Rightarrow> ('z world_scheme, nat \<times> nat) prog" where
  "embed_loop env ec io job existing =
     bindP (liftE (batch_texts (e_todo job) (EMBED_BATCH_SIZE ec))) (\<lambda>batches.
     bindP (foldP (embed_turn env ec job)
         \<lparr>e_ids = fst existing, e_vecs = snd existing, e_failed = [], e_last_call = 0,
          e_done = length (fst existing)\<rparr> batches) (\<lambda>st.
     embed_finish env io job st))"

definition make_job ::
  "string \<Rightarrow> string \<Rightarrow> string \<Rightarrow> string \<Rightarrow> chunk_row list \<Rightarrow> string list \<Rightarrow> embed_job" where
  "make_job out url key model items done_ids = \<lparr>e_url = url, e_key = key, e_model = model, e_out = out,
     e_todo = filter (\<lambda>it. k_id it \<notin> set done_ids) items, e_items = length items\<rparr>"

definition embed_run ::
  "env \<Rightarrow> embed_config \<Rightarrow> embed_io \<Rightarrow> string \<Rightarrow> string \<Rightarrow> string \<Rightarrow> string \<Rightarrow> string \<Rightarrow> ('z world_scheme, nat \<times> nat) prog" where
  "embed_run env ec io chunks_path out url key model =
     bindP (call_text env (FileRead chunks_path)) (\<lambda>t.
     bindP (liftE (load_lines (io_loads io) (file_lines t))) (\<lambda>items.
     bindP (load_existing env out) (\<lambda>existing.
     embed_loop env ec io (make_job out url key model items (fst existing)) existing)))"

definition embed_main ::
  "env \<Rightarrow> embed_config \<Rightarrow> embed_io \<Rightarrow> (string \<rightharpoonup> string) \<Rightarrow> args \<Rightarrow> ('z world_scheme, nat \<times> nat) prog" where
  "embed_main env ec io e xs =
     (let base = getenv e ''EMBEDDING_API_BASE'' []; key = getenv e ''EMBEDDING_API_KEY'' [];
          model = getenv e ''EMBEDDING_MODEL'' []
      in if base = [] \<or> key = [] \<or> model = []
         then throw (SystemExit ''set EMBEDDING_API_BASE / EMBEDDING_API_KEY / EMBEDDING_MODEL (see .env.example)'')
         else embed_run env ec io (arg xs ''--chunks'' ''corpus_chunks.jsonl'') (arg xs ''--out'' ''corpus_vectors.npz'')
           base key model)"

section \<open>Batches cover the list\<close>

definition batch_ok :: "chunk_row list \<Rightarrow> nat \<times> string list \<Rightarrow> bool" where
  "batch_ok items b \<longleftrightarrow> fst b + length (snd b) \<le> length items \<and> snd b \<noteq> []
     \<and> snd b = map k_text (take (length (snd b)) (drop (fst b) items))"

text \<open>The offsets follow each other: each batch starts where the one before it ended.\<close>

fun contiguous :: "nat \<Rightarrow> (nat \<times> string list) list \<Rightarrow> bool" where
  "contiguous i [] = True"
| "contiguous i (b # bs) = (fst b = i \<and> contiguous (i + length (snd b)) bs)"

lemma batches_from_ok:
  "0 < k \<Longrightarrow> list_all (\<lambda>b. batch_ok (pre @ items) b \<and> length (snd b) \<le> k) (batches_from k (length pre) items)
    \<and> contiguous (length pre) (batches_from k (length pre) items)
    \<and> length pre + length (concat (map snd (batches_from k (length pre) items))) = length (pre @ items)"
proof (induction "length items" arbitrary: pre items rule: less_induct)
  case less
  show ?case
  proof (cases "items = []")
    case True
    then show ?thesis by (simp add: batches_from.simps)
  next
    case False
    let ?p = "pre @ take k items"
    let ?rest = "batches_from k (length pre + k) (drop k items)"
    have eq: "batches_from k (length pre) items = (length pre, map k_text (take k items)) # ?rest"
      using False less.prems by (subst batches_from.simps) simp
    show ?thesis
    proof (cases "length items \<le> k")
      case True
      then have "?rest = []" by (subst batches_from.simps) simp
      with False True show ?thesis by (simp add: eq batch_ok_def)
    next
      case long: False
      have len: "length ?p = length pre + k" using long by simp
      have "length (drop k items) < length items" using False less.prems by simp
      from less.hyps [OF this less.prems, of ?p] long show ?thesis
        using False less.prems by (simp add: eq len batch_ok_def)
    qed
  qed
qed

text \<open>
  Batching is lossless: the batches are contiguous from the first item, each holds the texts
  of its stretch of the list, none is empty or larger than the limit, and together they are as
  long as the list.
\<close>

theorem batch_texts_cover:
  assumes "0 < k"
  shows "\<exists>bs. batch_texts items k = Inr bs \<and> contiguous 0 bs
    \<and> list_all (\<lambda>b. batch_ok items b \<and> int (length (snd b)) \<le> k) bs
    \<and> length (concat (map snd bs)) = length items"
  using batches_from_ok [of "nat k" "[]" items] assms
  by (auto simp: batch_texts_def list_all_iff)

definition sample_chunk :: "string \<Rightarrow> string \<Rightarrow> chunk_row" where
  "sample_chunk i t = \<lparr>k_id = i, k_article = 1, k_url = ''u'', k_title = None, k_path = [], k_index = 0,
     k_n = 1, k_text = t, k_tags = [], k_source = None, k_lang = None, k_published = None, k_score = None\<rparr>"

theorem batch_texts_cover_witness:
  "\<exists>bs. batch_texts [sample_chunk ''a'' ''x'', sample_chunk ''b'' ''y'', sample_chunk ''c'' ''z''] 2 = Inr bs
    \<and> contiguous 0 bs
    \<and> list_all (\<lambda>b. batch_ok [sample_chunk ''a'' ''x'', sample_chunk ''b'' ''y'', sample_chunk ''c'' ''z''] b
        \<and> int (length (snd b)) \<le> 2) bs
    \<and> length (concat (map snd bs)) = length [sample_chunk ''a'' ''x'', sample_chunk ''b'' ''y'', sample_chunk ''c'' ''z'']"
  by (rule batch_texts_cover) simp

section \<open>Requests of a batch\<close>

definition is_post :: "event \<Rightarrow> bool" where
  "is_post e \<longleftrightarrow> (case fst e of Post _ _ _ _ _ \<Rightarrow> True | _ \<Rightarrow> False)"

lemma at_most_embed_attempt: "at_most is_post 1 (embed_attempt env ec url key model texts)"
proof -
  have 1: "at_most is_post (1 + 0) (bindP (call env (Post (rstrip_char CHR ''/'' url @ ''/embeddings'') key model texts (EMBED_TIMEOUT ec)))
      (\<lambda>r. case r of Embedded data \<Rightarrow> ret (Inl (map snd (sort_key fst data)))
        | Response status retry_after body \<Rightarrow>
            if status = 200 then throw (KeyError ''data'') else ret (Inr (embed_retry_after retry_after))
        | _ \<Rightarrow> throw bad_reply))"
    by (intro at_most_bind at_most_call at_most_emits) (auto intro!: emits_rules split: reply.split)
  have "at_most is_post (1 + 0 + 0) (embed_attempt env ec url key model texts)"
    unfolding embed_attempt_def
    by (intro at_most_try 1 at_most_emits emits_rules)
  then show ?thesis by simp
qed

lemma emits_embed_wait: "emits (\<lambda>e. \<not> is_post e) (embed_wait env attempt ra)"
  by (auto simp: embed_wait_def is_post_def intro!: emits_rules split: option.split)

lemma at_most_embed_attempts:
  "at_most is_post n (embed_attempts env ec url key model texts attempt n :: ('z world_scheme, vec list) prog)"
proof (induction n arbitrary: attempt)
  case 0
  then show ?case by (auto intro!: at_most_emits emits_rules)
next
  case (Suc n)
  have sleep: "at_most is_post 0 (py_sleep env w)" for w
    by (intro at_most_emits emits_sleep) (simp add: is_post_def)
  have wait: "at_most is_post 0 (embed_wait env attempt ra)" for ra
    by (intro at_most_emits emits_embed_wait)
  have "at_most is_post (1 + (0 + (0 + n))) (embed_attempts env ec url key model texts attempt (Suc n) :: ('z world_scheme, vec list) prog)"
    unfolding embed_attempts.simps
  proof (intro at_most_bind at_most_embed_attempt)
    fix res :: "vec list + py_float option"
    show "at_most is_post (0 + (0 + n)) (case res of Inl vecs \<Rightarrow> (ret vecs :: ('z world_scheme, vec list) prog)
      | Inr ra \<Rightarrow> bindP (embed_wait env attempt ra) (\<lambda>wait. bindP (py_sleep env wait)
          (\<lambda>_. embed_attempts env ec url key model texts (Suc attempt) n)))"
    proof (cases res)
      case (Inl vecs)
      then show ?thesis by (simp only: sum.case) (intro at_most_emits emits_ret)
    next
      case (Inr ra)
      then show ?thesis by (simp only: sum.case) (intro at_most_bind wait sleep Suc.IH)
    qed
  qed
  then show ?case by simp
qed

text \<open>A batch sends at most the configured number of requests, whatever the server answers.\<close>

theorem embed_batch_posts:
  "at_most is_post (nat (MAX_ATTEMPTS ec)) (embed_batch_retry env ec url key model texts)"
  by (simp add: embed_batch_retry_def at_most_embed_attempts)

section \<open>What the archives hold\<close>

text \<open>
  The server maps a text to a vector, and gives each text of a request its index; an archive
  that is loaded was saved before; a chunk identifier stands for one text.
\<close>

definition embed_server :: "env \<Rightarrow> (string \<Rightarrow> vec) \<Rightarrow> bool" where
  "embed_server env emb \<longleftrightarrow> (\<forall>tr u k m ts t data. env tr (Post u k m ts t) = Embedded data \<longrightarrow>
     map snd (sort_key fst data) = map emb ts)"

definition npz_files :: "env \<Rightarrow> bool" where
  "npz_files env \<longleftrightarrow> (\<forall>tr p ids vecs. env tr (NpzLoad p) = Archive ids vecs \<longrightarrow>
     (\<exists>q r. (NpzSave q ids vecs, r) \<in> set tr))"

definition texts_fixed :: "(string \<Rightarrow> chunk_row option) \<Rightarrow> (string \<Rightarrow> string) \<Rightarrow> bool" where
  "texts_fixed loads text_of \<longleftrightarrow> (\<forall>l c. loads l = Some c \<longrightarrow> k_text c = text_of (k_id c))"

definition paired :: "(string \<Rightarrow> vec) \<Rightarrow> (string \<Rightarrow> string) \<Rightarrow> string list \<Rightarrow> vec list \<Rightarrow> bool" where
  "paired emb text_of ids vecs \<longleftrightarrow> vecs = map (emb \<circ> text_of) ids"

definition right_save :: "(string \<Rightarrow> vec) \<Rightarrow> (string \<Rightarrow> string) \<Rightarrow> event \<Rightarrow> bool" where
  "right_save emb text_of e \<longleftrightarrow> (case fst e of NpzSave p ids vecs \<Rightarrow> paired emb text_of ids vecs | _ \<Rightarrow> True)"

lemma load_lines_loaded: "load_lines loads ls = Inr rs \<Longrightarrow> r \<in> set rs \<Longrightarrow> \<exists>l. loads l = Some r"
  by (induction ls arbitrary: rs) (auto split: if_splits option.splits sum.splits)

lemma embed_attempts_value:
  assumes "embed_server env emb" "embed_attempts env ec url key model texts attempt n s = (Inr vecs, s')"
  shows "vecs = map emb texts"
  using assms(2)
proof (induction n arbitrary: attempt s)
  case 0
  then show ?case by (simp add: throw_def)
next
  case (Suc n)
  then obtain res s1 where 1: "embed_attempt env ec url key model texts s = (Inr res, s1)"
    and 2: "(case res of Inl vecs \<Rightarrow> ret vecs
      | Inr ra \<Rightarrow> bindP (embed_wait env attempt ra) (\<lambda>wait. bindP (py_sleep env wait)
          (\<lambda>_. embed_attempts env ec url key model texts (Suc attempt) n))) s1 = (Inr vecs, s')"
    by (auto simp: bindP_eq_Inr)
  show ?case
  proof (cases res)
    case (Inl v)
    with 1 have "v = map emb texts"
      using assms(1) unfolding embed_server_def embed_attempt_def
      by (auto simp: tryP_def bindP_def call_def Let_def ret_def throw_def split: reply.splits sum.splits if_splits exn.splits)
    with 2 Inl show ?thesis by (simp add: ret_def)
  next
    case (Inr ra)
    with 2 Suc.IH show ?thesis by (auto simp: bindP_eq_Inr)
  qed
qed

lemma todo_ids_Inr: "todo_ids todo i n = Inr ids \<Longrightarrow> ids = map k_id (take n (drop i todo)) \<and> length ids = n"
  by (auto simp: todo_ids_def split: if_splits)

lemma embed_request_value:
  assumes "embed_server env emb" "embed_request env ec job texts s = (Inr res, s')"
  shows "res = None \<or> res = Some (map emb texts)"
  using assms(2) embed_attempts_value [OF assms(1)]
  by (auto simp: embed_request_def embed_batch_retry_def tryP_def bindP_def ret_def
      split: prod.splits sum.splits if_splits)

text \<open>What a turn adds: the identifiers of its stretch of the list, to the results or to the failures.\<close>

definition stretch :: "embed_job \<Rightarrow> nat \<times> string list \<Rightarrow> chunk_row list" where
  "stretch job b = take (length (snd b)) (drop (fst b) (e_todo job))"

lemma book_failed_Inr:
  "book_failed job st (fst b) (snd b) s = (Inr st', s') \<Longrightarrow>
     st' = st\<lparr>e_failed := e_failed st @ map k_id (stretch job b)\<rparr>"
  by (auto simp: book_failed_def bindP_def liftE_def ret_def stretch_def split: sum.splits dest: todo_ids_Inr)

lemma book_vectors_Inr:
  "length vecs = length (snd b) \<Longrightarrow> book_vectors env ec job st (fst b) vecs s = (Inr st', s') \<Longrightarrow>
     e_ids st' = e_ids st @ map k_id (stretch job b) \<and> e_vecs st' = e_vecs st @ vecs \<and> e_failed st' = e_failed st"
  by (auto simp: book_vectors_def bindP_eq_Inr liftE_def Let_def ret_def stretch_def
      split: sum.splits if_splits dest!: todo_ids_Inr)

lemma embed_turn_Inr:
  assumes "embed_server env emb" "embed_turn env ec job st b s = (Inr st', s')"
  shows "(e_ids st' = e_ids st @ map k_id (stretch job b) \<and> e_vecs st' = e_vecs st @ map emb (snd b)
      \<and> e_failed st' = e_failed st)
    \<or> (e_ids st' = e_ids st \<and> e_vecs st' = e_vecs st \<and> e_failed st' = e_failed st @ map k_id (stretch job b))"
proof -
  obtain now res s2 s1 where 1: "embed_request env ec job (snd b) s1 = (Inr res, s2)"
    and 2: "(case res of None \<Rightarrow> book_failed job (st\<lparr>e_last_call := now\<rparr>) (fst b) (snd b)
      | Some embeddings \<Rightarrow> book_vectors env ec job (st\<lparr>e_last_call := now\<rparr>) (fst b) embeddings) s2 = (Inr st', s')"
    using assms(2) by (auto simp: embed_turn_def bindP_eq_Inr)
  from embed_request_value [OF assms(1) 1] show ?thesis
  proof
    assume "res = None"
    with 2 book_failed_Inr [of job "st\<lparr>e_last_call := now\<rparr>" b s2 st' s'] show ?thesis by simp
  next
    assume "res = Some (map emb (snd b))"
    with 2 book_vectors_Inr [of "map emb (snd b)" b env ec job "st\<lparr>e_last_call := now\<rparr>" s2 st' s'] show ?thesis by simp
  qed
qed

lemma embed_turns_Inr:
  assumes "embed_server env emb" "foldP (embed_turn env ec job) st bs s = (Inr st', s')"
    "contiguous i bs" "list_all (batch_ok (e_todo job)) bs"
  shows "\<exists>x y. e_ids st' = e_ids st @ x \<and> e_failed st' = e_failed st @ y
    \<and> mset (x @ y) = mset (map k_id (take (length (concat (map snd bs))) (drop i (e_todo job))))"
  using assms(2-)
proof (induction bs arbitrary: st s i)
  case Nil
  then show ?case by (simp add: ret_def)
next
  case (Cons b bs)
  then obtain st1 s1 where 1: "embed_turn env ec job st b s = (Inr st1, s1)"
    and 2: "foldP (embed_turn env ec job) st1 bs s1 = (Inr st', s')"
    by (auto simp: bindP_eq_Inr)
  let ?n = "length (snd b)" and ?m = "length (concat (map snd bs))"
  obtain x y where xy: "e_ids st' = e_ids st1 @ x" "e_failed st' = e_failed st1 @ y"
    "mset (x @ y) = mset (map k_id (take ?m (drop (i + ?n) (e_todo job))))"
    using Cons.IH [OF 2, of "i + ?n"] Cons.prems by auto
  have str: "stretch job b = take ?n (drop i (e_todo job))"
    using Cons.prems by (simp add: stretch_def)
  have "take (?n + ?m) (drop i (e_todo job)) = take ?n (drop i (e_todo job)) @ take ?m (drop (i + ?n) (e_todo job))"
    by (simp add: take_add add.commute)
  then have split: "mset (map k_id (take (length (concat (map snd (b # bs)))) (drop i (e_todo job))))
      = mset (map k_id (stretch job b)) + mset (x @ y)"
    using xy(3) str by simp
  from embed_turn_Inr [OF assms(1) 1] show ?case
  proof
    assume "e_ids st1 = e_ids st @ map k_id (stretch job b) \<and> e_vecs st1 = e_vecs st @ map emb (snd b)
      \<and> e_failed st1 = e_failed st"
    with xy split show ?thesis
      by (intro exI [of _ "map k_id (stretch job b) @ x"] exI [of _ y]) simp
  next
    assume "e_ids st1 = e_ids st \<and> e_vecs st1 = e_vecs st \<and> e_failed st1 = e_failed st @ map k_id (stretch job b)"
    with xy split show ?thesis
      by (intro exI [of _ x] exI [of _ "map k_id (stretch job b) @ y"]) simp
  qed
qed

lemma emits_book: "(\<And>ids vecs r. P (NpzSave (npz_name (e_out job)) ids vecs, r)) \<Longrightarrow>
   emits P (book_vectors env ec job st i vecs)"
  by (auto simp: book_vectors_def save_vectors_def Let_def intro!: emits_rules)

lemma emits_embed_request:
  assumes "\<And>c r. (case c of NpzSave _ _ _ \<Rightarrow> False | FileWrite _ _ \<Rightarrow> False | _ \<Rightarrow> True) \<Longrightarrow> P (c, r)"
  shows "emits P (embed_request env ec job texts :: ('z world_scheme, vec list option) prog)"
proof -
  have "emits P (embed_attempts env ec url key model texts k n :: ('z world_scheme, vec list) prog)" for url key model k n
    by (induction n arbitrary: k)
      (auto simp: embed_attempt_def embed_wait_def intro!: emits_rules emits_sleep assms
        split: sum.split option.split reply.split)
  then show ?thesis
    by (auto simp: embed_request_def embed_batch_retry_def intro!: emits_rules)
qed

lemma emits_throttle:
  assumes "\<And>c r. (case c of NpzSave _ _ _ \<Rightarrow> False | FileWrite _ _ \<Rightarrow> False | _ \<Rightarrow> True) \<Longrightarrow> P (c, r)"
  shows "emits P (throttle_embed env ec t0)"
  by (auto simp: throttle_embed_def intro!: emits_rules assms)

lemma emits_embed_all:
  "emits (\<lambda>_. True) (load_existing env out)"
  "emits (\<lambda>_. True) (foldP (embed_turn env ec job) st bs)"
  "emits (\<lambda>_. True) (embed_finish env io job st)"
  by (auto simp: load_existing_def embed_turn_def book_failed_def embed_finish_def save_vectors_def
      intro!: emits_rules emits_book emits_embed_request emits_throttle split: reply.split option.split)

lemma embed_loop_accounts:
  fixes s :: "'z world_scheme"
  assumes "embed_server env emb" "0 < EMBED_BATCH_SIZE ec" "embed_loop env ec io job existing s = (Inr r, s')"
  shows "\<exists>x y vecs. mset (x @ y) = mset (map k_id (e_todo job))
    \<and> (\<exists>z. (NpzSave (npz_name (e_out job)) (fst existing @ x) vecs, z) \<in> set (trace s'))
    \<and> (y \<noteq> [] \<longrightarrow> (\<exists>z. (FileWrite (e_out job @ ''.failed.json'') (io_ids io y), z) \<in> set (trace s')))
    \<and> set (trace s) \<subseteq> set (trace s')"
proof -
  let ?bs = "batches_from (nat (EMBED_BATCH_SIZE ec)) 0 (e_todo job)"
  have bs: "contiguous 0 ?bs" "list_all (batch_ok (e_todo job)) ?bs" "length (concat (map snd ?bs)) = length (e_todo job)"
    using batches_from_ok [of "nat (EMBED_BATCH_SIZE ec)" "[]" "e_todo job"] assms(2)
    by (auto simp: list_all_iff)
  let ?st = "\<lparr>e_ids = fst existing, e_vecs = snd existing, e_failed = [], e_last_call = 0,
    e_done = length (fst existing)\<rparr>"
  obtain st' and s3 :: "'z world_scheme" where
    fold: "foldP (embed_turn env ec job) ?st ?bs s = (Inr st', s3)"
    and fin: "embed_finish env io job st' s3 = (Inr r, s')"
    using assms(2,3) by (auto simp: embed_loop_def bindP_eq_Inr liftE_def batch_texts_def)
  from embed_turns_Inr [OF assms(1) fold bs(1,2)] bs(3) obtain x y where
    xy: "e_ids st' = fst existing @ x" "e_failed st' = y" "mset (x @ y) = mset (map k_id (e_todo job))"
    by auto
  have "\<exists>z. (NpzSave (npz_name (e_out job)) (e_ids st') (e_vecs st'), z) \<in> set (trace s')"
    and "e_failed st' \<noteq> [] \<longrightarrow> (\<exists>z. (FileWrite (e_out job @ ''.failed.json'') (io_ids io (e_failed st')), z) \<in> set (trace s'))"
    using fin by (auto simp: embed_finish_def save_vectors_def bindP_eq_Inr call_unit_Inr ret_def throw_def
        split: if_splits)
  moreover have "set (trace s) \<subseteq> set (trace s')"
    using emitsD [OF emits_embed_all(2) fold] emitsD [OF emits_embed_all(3) fin] by auto
  ultimately show ?thesis using xy
    by (intro exI [of _ x] exI [of _ y] exI [of _ "e_vecs st'"]) simp
qed

lemma make_job_simps [simp]:
  "e_out (make_job out url key model items ids) = out"
  "e_todo (make_job out url key model items ids) = filter (\<lambda>it. k_id it \<notin> set ids) items"
  by (simp_all add: make_job_def)

text \<open>
  C15: A run that returns accounts for every chunk of its input: the archive it saved last and the
  failures it reported cover all of them, and when the identifiers are distinct no chunk is in
  both, so a re-run asks for exactly the failed ones.
\<close>

theorem embed_run_accounts:
  fixes s :: "'z world_scheme"
  assumes "embed_server env emb" "0 < EMBED_BATCH_SIZE ec"
    and "embed_run env ec io chunks out url key model s = (Inr r, s')"
  shows "\<exists>t items ids vecs failed. (FileRead chunks, Txt t) \<in> set (trace s')
    \<and> load_lines (io_loads io) (file_lines t) = Inr items
    \<and> (\<exists>x. (NpzSave (npz_name out) ids vecs, x) \<in> set (trace s'))
    \<and> (failed \<noteq> [] \<longrightarrow> (\<exists>x. (FileWrite (out @ ''.failed.json'') (io_ids io failed), x) \<in> set (trace s')))
    \<and> k_id ` set items \<subseteq> set ids \<union> set failed
    \<and> (distinct (map k_id items) \<longrightarrow> set ids \<inter> set failed = {})"
proof -
  obtain t items existing and s1 s2 :: "'z world_scheme" where t: "call_text env (FileRead chunks) s = (Inr t, s1)"
    and items: "load_lines (io_loads io) (file_lines t) = Inr items"
    and have1: "load_existing env out s1 = (Inr existing, s2)"
    and loop: "embed_loop env ec io (make_job out url key model items (fst existing)) existing s2 = (Inr r, s')"
    using assms(3) by (auto simp: embed_run_def bindP_eq_Inr liftE_def)
  let ?todo = "filter (\<lambda>it. k_id it \<notin> set (fst existing)) items"
  from embed_loop_accounts [OF assms(1,2) loop] obtain x y vecs where
    xy: "mset (x @ y) = mset (map k_id ?todo)"
    and save: "\<exists>z. (NpzSave (npz_name out) (fst existing @ x) vecs, z) \<in> set (trace s')"
    and log: "y \<noteq> [] \<longrightarrow> (\<exists>z. (FileWrite (out @ ''.failed.json'') (io_ids io y), z) \<in> set (trace s'))"
    and sub: "set (trace s2) \<subseteq> set (trace s')" by auto
  have set: "set x \<union> set y = k_id ` set ?todo" using arg_cong [OF xy, of set_mset] by simp
  then have cover: "k_id ` set items \<subseteq> set (fst existing @ x) \<union> set y" by auto
  have sep: "distinct (map k_id items) \<longrightarrow> set (fst existing @ x) \<inter> set y = {}"
  proof
    assume "distinct (map k_id items)"
    then have "distinct (map k_id ?todo)" by (rule distinct_map_filter)
    with xy have "distinct (x @ y)" by (metis mset_eq_imp_distinct_iff)
    with set show "set (fst existing @ x) \<inter> set y = {}" by auto
  qed
  have "(FileRead chunks, Txt t) \<in> set (trace s1)" using t by (auto simp: call_text_Inr)
  moreover obtain es where "trace s2 = trace s1 @ es" using emitsD [OF emits_embed_all(1) have1] by blast
  ultimately have "(FileRead chunks, Txt t) \<in> set (trace s')" using sub by auto
  then show ?thesis using items save log cover sep
    by (intro exI [of _ t] exI [of _ items] exI [of _ "fst existing @ x"] exI [of _ vecs] exI [of _ y] conjI)
qed

definition embed_emb :: "string \<Rightarrow> vec" where
  "embed_emb t = [of_nat (length t), 1]"

text \<open>A server that answers as documented, but refuses texts that start with an x.\<close>

definition embed_env :: "string \<Rightarrow> env" where
  "embed_env file tr c = (case c of
     FileRead p \<Rightarrow> Txt file
   | FileExists p \<Rightarrow> Num 0
   | Now \<Rightarrow> Time 0
   | Uniform a b \<Rightarrow> Time 0
   | Post u k m ts t \<Rightarrow> if ts \<noteq> [] \<and> take 1 (hd ts) = ''x'' then Response 500 None []
       else Embedded (zip (map int [0..<length ts]) (map embed_emb ts))
   | _ \<Rightarrow> Done)"

definition chunk_loads :: "string \<Rightarrow> chunk_row option" where
  "chunk_loads l = Some (sample_chunk l l)"

definition embed_test_io :: embed_io where
  "embed_test_io = \<lparr>io_loads = chunk_loads, io_meta = (\<lambda>m d n. m), io_ids = concat\<rparr>"

definition embed_test_config :: embed_config where
  "embed_test_config = \<lparr>EMBED_BATCH_SIZE = 1, MIN_INTERVAL = 1, MAX_ATTEMPTS = 1, SAVE_EVERY = 5000, EMBED_TIMEOUT = 60\<rparr>"

lemma zip_sorted: "sort_key fst (zip (map int [0..<length xs]) xs) = zip (map int [0..<length xs]) xs"
  by (rule sort_key_id_if_sorted) (simp add: sorted_map)

lemma embed_env_server: "embed_server (embed_env file) embed_emb"
  using zip_sorted [where xs = "map embed_emb ts" for ts]
  by (auto simp: embed_server_def embed_env_def split: if_splits)

theorem embed_run_accounts_witness:
  "\<exists>s'. embed_run (embed_env ''ab'') embed_test_config embed_test_io ''c'' ''o.npz''
        ''u'' ''k'' ''m'' \<lparr>trace = []\<rparr> = (Inr (1, 2), s')
    \<and> (\<exists>t items ids vecs failed. (FileRead ''c'', Txt t) \<in> set (trace s')
    \<and> load_lines (io_loads embed_test_io) (file_lines t) = Inr items
    \<and> (\<exists>x. (NpzSave (npz_name ''o.npz'') ids vecs, x) \<in> set (trace s'))
    \<and> (failed \<noteq> [] \<longrightarrow> (\<exists>x. (FileWrite (''o.npz'' @ ''.failed.json'') (io_ids embed_test_io failed), x) \<in> set (trace s')))
    \<and> k_id ` set items \<subseteq> set ids \<union> set failed
    \<and> (distinct (map k_id items) \<longrightarrow> set ids \<inter> set failed = {}))"
proof -
  have "fst (embed_run (embed_env ''ab'') embed_test_config embed_test_io ''c'' ''o.npz'' ''u'' ''k'' ''m''
      \<lparr>trace = []\<rparr>) = Inr (1, 2)"
    by code_simp
  then obtain s' where run: "embed_run (embed_env ''ab'') embed_test_config embed_test_io ''c'' ''o.npz''
      ''u'' ''k'' ''m'' \<lparr>trace = []\<rparr> = (Inr (1, 2), s')"
    by (metis prod.collapse)
  have "0 < EMBED_BATCH_SIZE embed_test_config" by (simp add: embed_test_config_def)
  from embed_run_accounts [OF embed_env_server this run] run show ?thesis
    by (intro exI [of _ s'] conjI)
qed

text \<open>
  When no vector came back at all the run fails on the shape of an empty matrix, before it
  reports the failed identifiers.
\<close>

lemma embed_run_no_vectors:
  "(let r = embed_run (embed_env ''xa'') embed_test_config embed_test_io ''c'' ''o.npz'' ''u'' ''k'' ''m'' \<lparr>trace = []\<rparr>
    in fst r = Inl IndexError \<and> list_all (\<lambda>e. case fst e of FileWrite _ _ \<Rightarrow> False | _ \<Rightarrow> True) (trace (snd r)))"
  by code_simp

text \<open>A wait that is no number ends the run, with everything since the last save.\<close>

lemma embed_bad_wait:
  "fst (embed_batch_retry (\<lambda>_ _. Response 429 (Some ''nan'') []) embed_test_config ''u'' ''k'' ''m'' [''t''] \<lparr>trace = []\<rparr>)
     = Inl (ValueError ''Invalid value NaN (not a number)'')
   \<and> fst (embed_batch_retry (\<lambda>_ _. Response 429 (Some ''inf'') []) embed_test_config ''u'' ''k'' ''m'' [''t''] \<lparr>trace = []\<rparr>)
     = Inl OverflowError"
  by code_simp

section \<open>The pairing of identifiers and vectors\<close>

abbreviation saves_right :: "(string \<Rightarrow> vec) \<Rightarrow> (string \<Rightarrow> string) \<Rightarrow> 'z world_scheme \<Rightarrow> bool" where
  "saves_right emb text_of s \<equiv> list_all (right_save emb text_of) (trace s)"

lemma other_save_right: "(case c of NpzSave _ _ _ \<Rightarrow> False | _ \<Rightarrow> True) \<Longrightarrow> right_save emb text_of (c, r)"
  by (cases c) (simp_all add: right_save_def)

lemma emits_request_right:
  "emits (right_save emb text_of) (embed_request env ec job texts)"
  by (rule emits_embed_request) (auto intro: other_save_right split: cmd.splits)

lemma emits_throttle_right: "emits (right_save emb text_of) (throttle_embed env ec t0)"
  by (rule emits_throttle) (auto intro: other_save_right split: cmd.splits)

lemma emits_save_right:
  "paired emb text_of ids vecs \<Longrightarrow> emits (right_save emb text_of) (save_vectors env out ids vecs)"
  by (auto simp: save_vectors_def right_save_def intro!: emits_rules)

lemma stretch_vectors:
  assumes "\<forall>c \<in> set (e_todo job). k_text c = text_of (k_id c)" "batch_ok (e_todo job) b"
  shows "map emb (snd b) = map (emb \<circ> text_of) (map k_id (stretch job b))"
proof -
  have "snd b = map k_text (stretch job b)" using assms(2) by (simp add: batch_ok_def stretch_def)
  also have "\<dots> = map (text_of \<circ> k_id) (stretch job b)"
    using assms(1) by (auto simp: stretch_def dest!: in_set_takeD in_set_dropD)
  finally show ?thesis by (metis map_map)
qed

lemma book_vectors_right:
  assumes "paired emb text_of (e_ids st) (e_vecs st)" "length vecs = length (snd b)"
    and "vecs = map (emb \<circ> text_of) (map k_id (stretch job b))"
  shows "triple (saves_right emb text_of) (book_vectors env ec job st (fst b) vecs)
    (\<lambda>st' s. saves_right emb text_of s \<and> paired emb text_of (e_ids st') (e_vecs st')) (\<lambda>_. saves_right emb text_of)"
proof (rule triple_emits_value)
  show "emits (right_save emb text_of) (book_vectors env ec job st (fst b) vecs)"
  proof (cases "todo_ids (e_todo job) (fst b) (length vecs)")
    case (Inl e)
    then show ?thesis by (simp add: book_vectors_def bindP_liftE emits_throw)
  next
    case (Inr ids)
    then have "ids = map k_id (stretch job b)" using assms(2) by (auto dest: todo_ids_Inr simp: stretch_def)
    then have "paired emb text_of (e_ids st @ ids) (e_vecs st @ vecs)" using assms by (simp add: paired_def)
    then have "emits (right_save emb text_of) (save_vectors env (e_out job) (e_ids st @ ids) (e_vecs st @ vecs))"
      by (rule emits_save_right)
    then show ?thesis
      using Inr by (auto simp: book_vectors_def bindP_liftE Let_def intro!: emits_bind emits_ret)
  qed
next
  fix s x s' assume "book_vectors env ec job st (fst b) vecs s = (Inr x, s')"
  from book_vectors_Inr [OF assms(2) this] assms(1,3) show "paired emb text_of (e_ids x) (e_vecs x)"
    by (simp add: paired_def)
qed

lemma embed_answer_right:
  assumes texts: "\<forall>c \<in> set (e_todo job). k_text c = text_of (k_id c)"
    and ok: "batch_ok (e_todo job) b" and st: "paired emb text_of (e_ids st) (e_vecs st)"
    and res: "res = None \<or> res = Some (map emb (snd b))"
  shows "triple (saves_right emb text_of)
      (case res of None \<Rightarrow> book_failed job st (fst b) (snd b)
        | Some embeddings \<Rightarrow> book_vectors env ec job st (fst b) embeddings)
      (\<lambda>st' s. saves_right emb text_of s \<and> paired emb text_of (e_ids st') (e_vecs st')) (\<lambda>_. saves_right emb text_of)"
proof (cases res)
  case None
  have "emits (right_save emb text_of) (book_failed job st (fst b) (snd b))"
    by (auto simp: book_failed_def intro!: emits_rules)
  with None st show ?thesis by (auto intro!: triple_emits_value dest!: book_failed_Inr)
next
  case (Some vecs)
  with res have "res = Some (map emb (snd b))" by simp
  with book_vectors_right [OF st _ stretch_vectors [OF texts ok]] show ?thesis by simp
qed

lemma embed_turn_right:
  assumes srv: "embed_server env emb" and texts: "\<forall>c \<in> set (e_todo job). k_text c = text_of (k_id c)"
    and ok: "batch_ok (e_todo job) b" and st: "paired emb text_of (e_ids st) (e_vecs st)"
  shows "triple (saves_right emb text_of) (embed_turn env ec job st b)
    (\<lambda>st' s. saves_right emb text_of s \<and> paired emb text_of (e_ids st') (e_vecs st')) (\<lambda>_. saves_right emb text_of)"
  unfolding embed_turn_def
proof (rule triple_bind [OF triple_emits [OF emits_throttle_right]], rule triple_bind)
  show "triple (saves_right emb text_of) (embed_request env ec job (snd b))
      (\<lambda>res s. saves_right emb text_of s \<and> (res = None \<or> res = Some (map emb (snd b)))) (\<lambda>_. saves_right emb text_of)"
    using embed_request_value [OF srv] by (intro triple_emits_value emits_request_right)
qed (intro triple_pure embed_answer_right [OF texts ok]; simp add: st)

lemma load_existing_right:
  assumes "npz_files env"
  shows "triple (saves_right emb text_of) (load_existing env out)
    (\<lambda>x s. saves_right emb text_of s \<and> paired emb text_of (fst x) (snd x)) (\<lambda>_. saves_right emb text_of)"
proof (rule tripleI)
  have all: "emits (right_save emb text_of) (load_existing env out)"
    by (auto simp: load_existing_def right_save_def intro!: emits_rules split: reply.split)
  fix s x s' assume s: "saves_right emb text_of s" "load_existing env out s = (Inr x, s')"
  have "paired emb text_of (fst x) (snd x)"
  proof (cases "snd x = [] \<and> fst x = []")
    case True
    then show ?thesis by (simp add: paired_def)
  next
    case False
    then obtain tr where "env (trace s @ tr) (NpzLoad out) = Archive (fst x) (snd x)"
      and "trace s @ tr = trace s @ [(FileExists out, env (trace s) (FileExists out))]"
      using s(2) by (auto simp: load_existing_def bindP_eq_Inr call_num_Inr call_Inr ret_def throw_def
          split: if_splits reply.splits)
    then obtain q r where "(NpzSave q (fst x) (snd x), r) \<in> set (trace s)"
      using assms unfolding npz_files_def by fastforce
    with s(1) show ?thesis by (auto simp: list_all_iff right_save_def)
  qed
  then show "saves_right emb text_of s' \<and> paired emb text_of (fst x) (snd x)"
    using tripleD(1) [OF triple_emits [OF all] s] by simp
next
  have all: "emits (right_save emb text_of) (load_existing env out)"
    by (auto simp: load_existing_def right_save_def intro!: emits_rules split: reply.split)
  fix s e s' assume s: "saves_right emb text_of s" "load_existing env out s = (Inl e, s')"
  then show "saves_right emb text_of s'" using tripleD(2) [OF triple_emits [OF all] s] by simp
qed

lemma embed_loop_right:
  assumes srv: "embed_server env emb" and texts: "\<forall>c \<in> set (e_todo job). k_text c = text_of (k_id c)"
    and old: "paired emb text_of (fst existing) (snd existing)"
  shows "triple (saves_right emb text_of) (embed_loop env ec io job existing) (\<lambda>_. saves_right emb text_of)
    (\<lambda>_. saves_right emb text_of)"
proof (cases "batch_texts (e_todo job) (EMBED_BATCH_SIZE ec)")
  case (Inl e)
  then show ?thesis by (simp add: embed_loop_def bindP_liftE triple_throw)
next
  case (Inr bs)
  then have ok: "\<forall>b \<in> set bs. batch_ok (e_todo job) b"
    using batches_from_ok [of "nat (EMBED_BATCH_SIZE ec)" "[]" "e_todo job"]
    by (auto simp: batch_texts_def list_all_iff split: if_splits)
  let ?I = "\<lambda>st s. saves_right emb text_of s \<and> paired emb text_of (e_ids st) (e_vecs st)"
  let ?st = "\<lparr>e_ids = fst existing, e_vecs = snd existing, e_failed = [], e_last_call = 0, e_done = length (fst existing)\<rparr>"
  have "triple (?I ?st) (foldP (embed_turn env ec job) ?st bs) ?I (\<lambda>_. saves_right emb text_of)"
    using embed_turn_right [OF srv texts] ok by (intro triple_fold triple_pure) blast
  then have loop: "triple (saves_right emb text_of) (foldP (embed_turn env ec job) ?st bs) ?I (\<lambda>_. saves_right emb text_of)"
    using old by (auto elim: triple_weaken)
  have fin: "triple (?I st) (embed_finish env io job st) (\<lambda>_. saves_right emb text_of) (\<lambda>_. saves_right emb text_of)" for st
  proof (rule triple_pure, rule triple_emits)
    assume "paired emb text_of (e_ids st) (e_vecs st)"
    then show "emits (right_save emb text_of) (embed_finish env io job st)"
      by (auto simp: embed_finish_def right_save_def intro!: emits_rules emits_save_right)
  qed
  show ?thesis
    unfolding embed_loop_def Inr bindP_liftE by (rule triple_bind [OF loop fin])
qed

text \<open>
  C14: An archive never mixes vectors up. If a chunk identifier stands for one text, the server
  returns the vectors of the texts it is sent, and the archives saved so far give each identifier
  the vector of its text, then so does every archive a run saves, however the run ends, whichever
  batches failed and from whatever archive it resumed.
\<close>

theorem embed_run_pairs:
  assumes "embed_server env emb" "npz_files env" "texts_fixed (io_loads io) text_of"
    and "saves_right emb text_of s"
  shows "saves_right emb text_of (snd (embed_run env ec io chunks out url key model s))"
proof -
  have items: "load_lines (io_loads io) ls = Inr items \<Longrightarrow> c \<in> set items \<Longrightarrow> k_text c = text_of (k_id c)" for ls items c
    using load_lines_loaded [of "io_loads io" ls items c] assms(3) by (auto simp: texts_fixed_def)
  have rest: "triple (saves_right emb text_of)
      (bindP (liftE (load_lines (io_loads io) (file_lines t))) (\<lambda>items. bindP (load_existing env out) (\<lambda>existing.
        embed_loop env ec io (make_job out url key model items (fst existing)) existing)))
      (\<lambda>_. saves_right emb text_of) (\<lambda>_. saves_right emb text_of)" for t
  proof (cases "load_lines (io_loads io) (file_lines t)")
    case (Inl e)
    then show ?thesis by (simp add: bindP_liftE triple_throw)
  next
    case (Inr cs)
    have "triple (\<lambda>s. saves_right emb text_of s \<and> paired emb text_of (fst x) (snd x))
        (embed_loop env ec io (make_job out url key model cs (fst x)) x)
        (\<lambda>_. saves_right emb text_of) (\<lambda>_. saves_right emb text_of)" for x
      using items [OF Inr] by (intro triple_pure embed_loop_right [OF assms(1)]) auto
    then show ?thesis
      unfolding Inr bindP_liftE by (rule triple_bind [OF load_existing_right [OF assms(2)]])
  qed
  have read: "emits (right_save emb text_of) (call_text env (FileRead chunks))"
    by (auto simp: right_save_def intro!: emits_rules)
  have "triple (saves_right emb text_of) (embed_run env ec io chunks out url key model)
      (\<lambda>_. saves_right emb text_of) (\<lambda>_. saves_right emb text_of)"
    unfolding embed_run_def by (rule triple_bind [OF triple_emits [OF read] rest])
  then show ?thesis
    using assms(4) by (cases "embed_run env ec io chunks out url key model s"; cases "fst (embed_run env ec io chunks out url key model s)")
      (auto dest: tripleD)
qed

theorem embed_run_pairs_witness:
  "saves_right embed_emb (\<lambda>i. i) (snd (embed_run (embed_env ''ab'') embed_test_config embed_test_io ''c'' ''o.npz''
     ''u'' ''k'' ''m'' \<lparr>trace = []\<rparr>))"
  by (rule embed_run_pairs [OF embed_env_server])
    (auto simp: npz_files_def embed_env_def texts_fixed_def embed_test_io_def chunk_loads_def sample_chunk_def)

end
