(* ===== verification/Sync.thy ===== *)
theory Sync
  imports Corpus Embed Pgvector
begin

text \<open>
  \<open>py-processor/sync_vectors.py\<close>: the chain from new articles over their vectors into the table of
  chunks, composed of the stages of the theories Corpus, Embed and Pgvector. The lemma follows
  the incremental chain to its end.
\<close>

definition max_article_sql :: string where
  "max_article_sql = ''SELECT COALESCE(max(article_id), 0) FROM article_chunks''"

definition max_ingested :: "env \<Rightarrow> ('z world_scheme, int) prog" where
  "max_ingested env =
     tryP
       (bindP (call_counts env (Query max_article_sql [])) (\<lambda>rows. case rows of
          [] \<Rightarrow> throw (TypeError ''fetchone'')
        | row # _ \<Rightarrow> (case row of [] \<Rightarrow> throw IndexError | i # _ \<Rightarrow> ret i)))
       is_Exception
       (\<lambda>_. bindP (call_unit env Rollback) (\<lambda>_. ret 0))"

text \<open>The chunk settings of the sync; the rows are written as in the RAG export.\<close>

definition sync_job :: "string \<Rightarrow> rag_job" where
  "sync_job out = \<lparr>j_out = out, j_state = [], j_full = True, j_target = 1200, j_overlap = 150, j_min = 30\<rparr>"

definition export_new_chunks ::
  "env \<Rightarrow> lib \<Rightarrow> (chunk_row \<Rightarrow> string) \<Rightarrow> int \<Rightarrow> string \<Rightarrow> ('z world_scheme, nat \<times> int) prog" where
  "export_new_chunks env lb dumps since out =
     bindP (call_articles env (Query rag_sql [PInt since])) (\<lambda>rows.
     bindP (call_unit env (FileOpen out ''w'')) (\<lambda>_.
     foldP (rag_row env lb dumps (sync_job out)) (0, since) rows))"

definition tmp_chunks :: string where "tmp_chunks = ''/tmp/sync_chunks.jsonl''"
definition tmp_vectors :: string where "tmp_vectors = ''/tmp/sync_vectors.npz''"

record sync_io =
  sy_dumps :: "chunk_row \<Rightarrow> string"
  sy_embed :: embed_io
  sy_import :: import_io

definition sync_export ::
  "env \<Rightarrow> lib \<Rightarrow> config \<Rightarrow> sync_io \<Rightarrow> bool \<Rightarrow> ('z cworld_scheme, int \<times> nat \<times> int) prog" where
  "sync_export env lb cfg io initial = with_conn env cfg
     (bindP (if initial then ret 0 else max_ingested env) (\<lambda>last_id.
      bindP (export_new_chunks env lb (sy_dumps io) last_id tmp_chunks) (\<lambda>res. ret (last_id, res))))"

text \<open>The result is the number of rows the import wrote; \<open>None\<close> when there was nothing to sync.\<close>

definition sync_main ::
  "env \<Rightarrow> lib \<Rightarrow> config \<Rightarrow> embed_config \<Rightarrow> sync_io \<Rightarrow> bool \<Rightarrow> ('z cworld_scheme, nat option) prog" where
  "sync_main env lb cfg ec io initial =
     (if EMBEDDING_API_BASE cfg = [] \<or> EMBEDDING_API_KEY cfg = [] \<or> EMBEDDING_MODEL cfg = []
      then throw (SystemExit ''set EMBEDDING_API_BASE / EMBEDDING_API_KEY / EMBEDDING_MODEL (see .env.example)'')
      else bindP (sync_export env lb cfg io initial) (\<lambda>(last_id, written, max_id).
        if written = 0 then ret None
        else bindP (embed_run env ec (sy_embed io) tmp_chunks tmp_vectors (EMBEDDING_API_BASE cfg)
                     (EMBEDDING_API_KEY cfg) (EMBEDDING_MODEL cfg)) (\<lambda>_.
          bindP (import_main env cfg (sy_import io) tmp_chunks tmp_vectors (initial \<and> last_id = 0)) (\<lambda>n.
          ret (Some n)))))"

definition sync_script ::
  "env \<Rightarrow> lib \<Rightarrow> config \<Rightarrow> embed_config \<Rightarrow> sync_io \<Rightarrow> args \<Rightarrow> ('z cworld_scheme, nat option) prog" where
  "sync_script env lb cfg ec io xs = sync_main env lb cfg ec io (arg_flag xs ''--initial'')"

section \<open>The incremental chain\<close>

text \<open>The calls that write rows: a bulk copy, a page of a batch statement, a page of values.\<close>

definition sends_rows :: "event \<Rightarrow> bool" where
  "sends_rows e \<longleftrightarrow> (case fst e of CopyIn _ _ \<Rightarrow> True | ExecuteBatch _ _ _ \<Rightarrow> True | ExecuteValues _ _ \<Rightarrow> True | _ \<Rightarrow> False)"

definition plain :: "event \<Rightarrow> bool" where
  "plain e \<longleftrightarrow> \<not> is_conn e \<and> \<not> sends_rows e"

lemma plainD: "plain e \<Longrightarrow> \<not> is_conn e" "plain e \<Longrightarrow> \<not> sends_rows e"
  by (simp_all add: plain_def)

lemma plain_pair: "plain (c, r) \<longleftrightarrow> (case c of GetConn \<Rightarrow> False | PutConn _ \<Rightarrow> False | CopyIn _ _ \<Rightarrow> False
     | ExecuteBatch _ _ _ \<Rightarrow> False | ExecuteValues _ _ \<Rightarrow> False | _ \<Rightarrow> True)"
  by (simp add: plain_def is_conn_def sends_rows_def split: cmd.split)

lemma pool_not_rows: "pool_event e \<Longrightarrow> \<not> sends_rows e"
  by (auto simp: pool_event_def sends_rows_def split: cmd.splits)

lemma emits_counts [emits_rules]: "(\<And>r. P (c, r)) \<Longrightarrow> emits P (call_counts env c)"
  unfolding call_counts_def by (auto intro!: emits_rules split: reply.split)

text \<open>The incremental path does not even make a call.\<close>

lemma upsert_incremental_silent:
  "snd (upsert_incremental env ids vecs chunks s) = s
   \<and> (fst (upsert_incremental env ids vecs chunks s) = Inr 0 \<or> fst (upsert_incremental env ids vecs chunks s) = Inl template_error)"
proof -
  have 14: "\<forall>vr \<in> set (known_rows ids vecs chunks). length (snd vr) = 14"
    using known_rows_length by blast
  from upsert_loop_fails [OF 14, of "[]" env 0 s] show ?thesis
    by (auto simp: upsert_incremental_def bindP_def batch_rows_def upsert_rows_fails ret_def)
qed

lemma emits_upsert: "emits P (upsert_incremental env ids vecs chunks)"
  unfolding emits_def using upsert_incremental_silent by (metis append_Nil2 list.pred_inject(1))

lemma import_incremental_Inr:
  assumes "import_main env cfg io c v False s = (Inr n, s')"
  shows "n = 0"
proof -
  have "k = 0" if "upsert_incremental env ids vecs chunks t = (Inr k, t')" for ids vecs chunks t t' k
    using upsert_incremental_silent [of env ids vecs chunks t] that by simp
  with assms show ?thesis
    by (fastforce simp: import_main_def import_body_def write_pairs_def bindP_eq_Inr finally_Inr ret_def throw_def
        split: prod.splits if_splits)
qed

lemma import_incremental_plain: "emits plain (import_main env cfg io chunks vectors False)"
  unfolding import_main_def import_body_def load_pairs_def index_exists_def build_index_def write_pairs_def
  by (auto simp: plain_pair Let_def intro!: emits_rules emits_upsert split: reply.split option.split)

lemma embed_plain: "emits plain (embed_run env ec io chunks out url key model)"
proof -
  have "emits plain (embed_attempts env ec u k m texts attempt n)" for u k m texts attempt n
    by (induction n arbitrary: attempt)
      (auto simp: embed_attempt_def embed_wait_def plain_pair
        intro!: emits_rules emits_sleep split: reply.split option.split sum.split)
  then show ?thesis
    unfolding embed_run_def load_existing_def embed_loop_def embed_turn_def throttle_embed_def embed_request_def
      embed_batch_retry_def book_failed_def book_vectors_def embed_finish_def save_vectors_def Let_def
    by (auto simp: plain_pair intro!: emits_rules split: reply.split option.split)
qed

lemma export_new_plain: "emits plain (export_new_chunks env lb dumps i out)" "emits plain (max_ingested env)"
  unfolding export_new_chunks_def rag_row_def max_ingested_def write_lines_def Let_def
  by (auto simp: plain_pair intro!: emits_rules split: list.split)

lemma sync_export_rows: "emits (\<lambda>e. \<not> sends_rows e) (sync_export env lb cfg io initial)"
proof -
  have "emits (\<lambda>e. \<not> sends_rows e) (take_conn env cfg)" "emits (\<lambda>e. \<not> sends_rows e) (put_conn env)"
    by (rule emits_mono [OF emits_take_conn pool_not_rows] emits_mono [OF emits_put_conn pool_not_rows]; assumption)+
  moreover have "emits (\<lambda>e. \<not> sends_rows e) (export_new_chunks env lb dumps i out)"
    "emits (\<lambda>e. \<not> sends_rows e) (max_ingested env)" for dumps i out
    by (rule emits_mono [OF export_new_plain(1) plainD(2)] emits_mono [OF export_new_plain(2) plainD(2)]; assumption)+
  ultimately show ?thesis
    unfolding sync_export_def with_conn_def by (auto intro!: emits_rules)
qed

text \<open>
  C17: An incremental sync never brings a chunk into the table. Whatever the services answer and
  however it ends, it sends no row, neither by a copy nor in a page of a statement; it ends with
  nothing to sync, with an import of zero rows, or with an exception, although the module
  documents it as the way to run every sync after the first.
\<close>

theorem sync_incremental_writes_nothing:
  fixes s :: "'z cworld_scheme"
  shows "case sync_main env lb cfg ec io False s of (r, s') \<Rightarrow>
    (\<exists>es. trace s' = trace s @ es \<and> list_all (\<lambda>e. \<not> sends_rows e) es)
    \<and> (r = Inr None \<or> r = Inr (Some 0) \<or> (\<exists>e. r = Inl e))"
proof (cases "sync_main env lb cfg ec io False s")
  case (Pair r s')
  have "emits (\<lambda>e. \<not> sends_rows e) (sync_main env lb cfg ec io False :: ('z cworld_scheme, nat option) prog)"
    unfolding sync_main_def
    by (auto intro!: emits_rules sync_export_rows emits_mono [OF embed_plain plainD(2)] emits_mono [OF import_incremental_plain plainD(2)])
  from emitsD [OF this Pair] have "\<exists>es. trace s' = trace s @ es \<and> list_all (\<lambda>e. \<not> sends_rows e) es" .
  moreover have "res = None \<or> res = Some 0" if "r = Inr res" for res
    using Pair that import_incremental_Inr
    by (fastforce simp: sync_main_def bindP_eq_Inr ret_def throw_def split: prod.splits if_splits)
  ultimately show ?thesis using Pair by (cases r) auto
qed

end
