(* ===== verification/Sft.thy ===== *)
theory Sft
  imports Session Regex
begin

text \<open>
  \<open>py-processor/export_sft.py\<close>: question and answer pairs out of the stored StackExchange
  articles, as lines of instruction data. The JSON printer is the parameter \<open>dumps\<close>.

  The lemmas give the round trip of the composed document through \<open>parse_qa\<close>, and the
  equivalence of the export loop with a reference definition on the list of rows: the first
  qualifying row of each title, in the order of the query.
\<close>

section \<open>A composed document and its parts\<close>

definition title_re :: regex where
  "title_re = seqs [ch CHR ''#'', plus1 spc, Grp 1 (plus1 dot)]"

definition answer_sep :: string where
  "answer_sep = lf # ''## Top answer'' @ [lf]"

definition parse_qa :: "string option \<Rightarrow> int \<Rightarrow> (string \<times> string \<times> string) option" where
  "parse_qa content min_answer = (case content of
     None \<Rightarrow> None
   | Some c \<Rightarrow>
       if c = [] then None
       else (case re_match title_re (strip c) of
         None \<Rightarrow> None
       | Some (st, caps) \<Rightarrow>
           (let title = strip (group 1 caps); rest = strip (snd st)
            in case partition answer_sep rest of
              None \<Rightarrow> None
            | Some (q, a) \<Rightarrow>
                (let question = strip q; answer = strip a
                 in if question = [] \<or> int (length answer) < min_answer then None
                    else Some (title, question, answer)))))"

text \<open>The document of a question and its answer, as the module documents it.\<close>

definition compose_qa :: "string \<Rightarrow> string \<Rightarrow> string \<Rightarrow> string" where
  "compose_qa title question answer =
     ''# '' @ title @ [lf, lf] @ question @ [lf] @ answer_sep @ [lf] @ answer"

datatype sft_rec =
    Alpaca string string string string "string list"
  | ShareGpt string string string "string list"

definition to_alpaca :: "string \<Rightarrow> string \<Rightarrow> string \<Rightarrow> string \<Rightarrow> string list option \<Rightarrow> sft_rec" where
  "to_alpaca title question answer url tags =
     Alpaca title question answer url (case tags of None \<Rightarrow> [] | Some ts \<Rightarrow> ts)"

definition to_sharegpt :: "string \<Rightarrow> string \<Rightarrow> string \<Rightarrow> string \<Rightarrow> string list option \<Rightarrow> sft_rec" where
  "to_sharegpt title question answer url tags =
     ShareGpt (strip (title @ [lf, lf] @ question)) answer url
       (case tags of None \<Rightarrow> [] | Some ts \<Rightarrow> ts)"

section \<open>The export\<close>

definition sft_sql :: string where
  "sft_sql = ''SELECT url, title, content_md, quality_score, tags FROM articles WHERE source_type = 'stackexchange' AND content_md IS NOT NULL ORDER BY quality_score DESC NULLS LAST, id''"

definition sft_record :: "string \<Rightarrow> art_row \<Rightarrow> string \<times> string \<times> string \<Rightarrow> sft_rec" where
  "sft_record fmt row qa = (case qa of (title, question, answer) \<Rightarrow>
     if fmt = ''alpaca'' then to_alpaca title question answer (t_url row) (t_tags row)
     else to_sharegpt title question answer (t_url row) (t_tags row))"

text \<open>One turn of the loop: the count and the titles seen.\<close>

definition sft_row ::
  "env \<Rightarrow> (sft_rec \<Rightarrow> string) \<Rightarrow> string \<Rightarrow> string \<Rightarrow> rat \<Rightarrow> int \<Rightarrow> nat \<times> string list \<Rightarrow> art_row
   \<Rightarrow> ('z world_scheme, nat \<times> string list) prog" where
  "sft_row env dumps out fmt min_quality min_answer acc row =
     (if (case t_score row of None \<Rightarrow> False | Some x \<Rightarrow> x < min_quality) then ret acc
      else (case parse_qa (t_content row) min_answer of
        None \<Rightarrow> ret acc
      | Some qa \<Rightarrow>
          (let key = lower (fst qa)
           in if key \<in> set (snd acc) then ret acc
              else bindP (call_unit env (FileWrite out (json_line dumps (sft_record fmt row qa))))
                (\<lambda>_. ret (fst acc + 1, snd acc @ [key])))))"

definition sft_body ::
  "env \<Rightarrow> (sft_rec \<Rightarrow> string) \<Rightarrow> string \<Rightarrow> string \<Rightarrow> rat \<Rightarrow> int \<Rightarrow> ('z world_scheme, nat) prog" where
  "sft_body env dumps out fmt min_quality min_answer =
     bindP (call_articles env (Query sft_sql [])) (\<lambda>rows.
     bindP (call_unit env (FileOpen out ''w'')) (\<lambda>_.
     bindP (foldP (sft_row env dumps out fmt min_quality min_answer) (0, []) rows)
       (\<lambda>acc. ret (fst acc))))"

definition export_sft ::
  "env \<Rightarrow> config \<Rightarrow> (sft_rec \<Rightarrow> string) \<Rightarrow> string \<Rightarrow> string \<Rightarrow> rat \<Rightarrow> int \<Rightarrow> ('z cworld_scheme, nat) prog" where
  "export_sft env cfg dumps out fmt0 min_quality min_answer =
     bindP (take_conn env cfg) (\<lambda>_.
       let fmt = lower fmt0
       in if fmt \<noteq> ''alpaca'' \<and> fmt \<noteq> ''sharegpt''
          then throw (SystemExit (''unsupported format: '' @ fmt))
          else finallyP (sft_body env dumps out fmt min_quality min_answer) (put_conn env))"

definition sft_main :: "env \<Rightarrow> config \<Rightarrow> (sft_rec \<Rightarrow> string) \<Rightarrow> args \<Rightarrow> ('z cworld_scheme, nat) prog" where
  "sft_main env cfg dumps xs =
     bindP (liftE (arg_choice xs ''--format'' ''alpaca'' [''alpaca'', ''sharegpt''])) (\<lambda>fmt.
     bindP (liftE (arg_float xs ''--min-quality'' 0)) (\<lambda>min_quality.
     bindP (liftE (arg_int xs ''--min-answer-chars'' 100)) (\<lambda>min_answer.
     export_sft env cfg dumps (arg xs ''--out'' ''sft_alpaca.jsonl'') fmt min_quality min_answer)))"

section \<open>The round trip\<close>

lemma mat_star_cls:
  "list_all f u \<Longrightarrow> v = [] \<or> \<not> f (hd v) \<Longrightarrow>
   \<exists>ms. mat (Star (Cls f)) (p, u @ v) = ((if u = [] then p else Some (last u), v), []) # ms"
proof (induction u arbitrary: p)
  case Nil
  then show ?case by (cases v) (auto simp: mat.simps(5))
next
  case (Cons c u)
  from Cons.IH [of "Some c"] Cons.prems obtain ms where
    ms: "mat (Star (Cls f)) (Some c, u @ v) = ((if u = [] then Some c else Some (last u), v), []) # ms"
    by auto
  show ?case
    using Cons.prems ms by (subst mat.simps(5)) (auto simp: add_caps_def)
qed

lemma mat_plus_cls:
  assumes "list_all f u" "u \<noteq> []" "v = [] \<or> \<not> f (hd v)"
  shows "\<exists>ms. mat (plus1 (Cls f)) (p, u @ v) = ((Some (last u), v), []) # ms"
proof -
  obtain c w where u: "u = c # w" using assms(2) by (cases u) auto
  obtain ms where "mat (Star (Cls f)) (Some c, w @ v) = ((if w = [] then Some c else Some (last w), v), []) # ms"
    using mat_star_cls [of f w v "Some c"] assms u by auto
  then show ?thesis using assms(1) u by (auto simp: plus1_def add_caps_def)
qed

lemma title_match:
  assumes "lf \<notin> set title" "title \<noteq> []" "\<not> is_space (hd title)"
  shows "\<exists>p. re_match title_re (''# '' @ title @ lf # rest) = Some ((p, lf # rest), [(1, title)])"
proof -
  obtain ms where 1: "mat (plus1 (Cls is_space)) (Some CHR ''#'', '' '' @ title @ lf # rest)
      = ((Some CHR '' '', title @ lf # rest), []) # ms"
    using mat_plus_cls [of is_space "'' ''" "title @ lf # rest" "Some CHR ''#''"] assms
    by (auto simp: is_space_def code_def)
  obtain ns where 2: "mat (plus1 (Cls (\<lambda>c. c \<noteq> lf))) (Some CHR '' '', title @ lf # rest)
      = ((Some (last title), lf # rest), []) # ns"
    using mat_plus_cls [of "\<lambda>c. c \<noteq> lf" title "lf # rest" "Some CHR '' ''"] assms
    by (auto simp: list_all_iff)
  have "re_match title_re (''# '' @ title @ lf # rest) = Some ((Some (last title), lf # rest), [(1, title)])"
    using 1 2 by (simp add: re_match_def title_re_def ch_def spc_def dot_def add_caps_def consumed_append)
  then show ?thesis by blast
qed

lemma no_early_separator:
  assumes "\<not> sublist answer_sep (q @ [lf])"
  shows "partition answer_sep (q @ lf # answer_sep @ x) = Some (q @ [lf], x)"
  using assms
proof (induction q)
  case Nil
  then show ?case by (simp add: answer_sep_def lf_def)
next
  case (Cons c q)
  have ih: "\<not> sublist answer_sep (q @ [lf])"
    using Cons.prems by (auto simp: sublist_Cons_right)
  have "\<not> prefix answer_sep (c # q @ lf # answer_sep @ x)"
  proof
    assume p: "prefix answer_sep (c # q @ lf # answer_sep @ x)"
    show False
    proof (cases "length answer_sep \<le> length (c # q @ [lf])")
      case True
      then have "prefix answer_sep (c # q @ [lf])"
        using p prefix_length_prefix [of answer_sep "c # q @ lf # answer_sep @ x" "c # q @ [lf]"] by simp
      with Cons.prems show False by (simp add: prefix_imp_sublist)
    next
      case False
      then have "Suc (length q) < 14" by (simp add: answer_sep_def)
      moreover have "answer_sep ! Suc (length q) = lf"
      proof -
        obtain z where "c # q @ lf # answer_sep @ x = answer_sep @ z" using p by (auto simp: prefix_def)
        then have "(answer_sep @ z) ! Suc (length q) = (c # q @ lf # answer_sep @ x) ! Suc (length q)"
          by simp
        then show ?thesis using False by (simp add: nth_append)
      qed
      moreover have "\<forall>i < 14. 0 < i \<longrightarrow> answer_sep ! i \<noteq> lf" by code_simp
      ultimately show False by blast
    qed
  qed
  with Cons.IH [OF ih] show ?case by simp
qed

text \<open>
  C29: Reading back a composed document gives its parts. The title is one stripped, non-empty
  line; question and answer are stripped and non-empty; the question does not itself contain
  the line that introduces the answer; the answer is long enough.
\<close>

theorem parse_compose_qa:
  assumes "lf \<notin> set title" "title \<noteq> []" "strip title = title"
    and "question \<noteq> []" "strip question = question" "\<not> sublist answer_sep (question @ [lf])"
    and "answer \<noteq> []" "strip answer = answer" "min_answer \<le> int (length answer)"
  shows "parse_qa (Some (compose_qa title question answer)) min_answer = Some (title, question, answer)"
proof -
  have ends: "\<not> is_space (hd s) \<and> \<not> is_space (last s)" if "s \<noteq> []" "strip s = s" for s
    using that strip_ends [of s] by simp
  let ?rest = "question @ lf # answer_sep @ lf # answer"
  have doc: "compose_qa title question answer = ''# '' @ title @ lf # lf # ?rest"
    by (simp add: compose_qa_def)
  have strip_doc: "strip (compose_qa title question answer) = compose_qa title question answer"
    using ends [OF assms(7,8)] assms(7)
    by (intro strip_fixedI) (simp add: compose_qa_def is_space_def code_def)
  have space_lf: "is_space lf" by (simp add: is_space_def)
  have "strip ?rest = ?rest"
    using ends [OF assms(4,5)] ends [OF assms(7,8)] assms(4,7) by (intro strip_fixedI) simp
  then have rest: "strip (lf # lf # ?rest) = ?rest"
    using strip_lstrip_append [of "[lf, lf]" ?rest] space_lf by simp
  have q: "strip (question @ [lf]) = question" and a: "strip (lf # answer) = answer"
    using strip_rstrip_append [of "[lf]" question] strip_lstrip_append [of "[lf]" answer] space_lf assms
    by simp_all
  obtain p where "re_match title_re (''# '' @ title @ lf # lf # ?rest) = Some ((p, lf # lf # ?rest), [(1, title)])"
    using title_match [of title "lf # ?rest"] assms(1,2) ends [OF assms(2,3)] by blast
  moreover have "partition answer_sep ?rest = Some (question @ [lf], lf # answer)"
    using no_early_separator [OF assms(6), of "lf # answer"] by simp
  moreover have "compose_qa title question answer \<noteq> []" by (simp add: compose_qa_def)
  ultimately show ?thesis
    using assms rest q a strip_doc by (simp add: parse_qa_def doc group_def Let_def)
qed

theorem parse_compose_qa_witness:
  "parse_qa (Some (compose_qa ''Sort a list?'' ''How?'' ''Use sorted.'')) 5
     = Some (''Sort a list?'', ''How?'', ''Use sorted.'')"
proof -
  have "\<not> sublist answer_sep (''How?'' @ [lf])" by (auto simp: answer_sep_def dest: sublist_length_le)
  then show ?thesis
    by (intro parse_compose_qa) (simp_all add: strip_def lstrip_def rstrip_def is_space_def code_def lf_def)
qed

section \<open>The loop and its reference\<close>

text \<open>The elements whose key no earlier element has.\<close>

definition firsts :: "('a \<Rightarrow> 'k) \<Rightarrow> 'a list \<Rightarrow> 'a list" where
  "firsts key xs = map snd (filter (\<lambda>(i, x). \<forall>j<i. key (xs ! j) \<noteq> key x) (zip [0..<length xs] xs))"

definition qualifies :: "rat \<Rightarrow> art_row \<Rightarrow> bool" where
  "qualifies min_quality row = (case t_score row of None \<Rightarrow> True | Some x \<Rightarrow> min_quality \<le> x)"

definition candidates :: "rat \<Rightarrow> int \<Rightarrow> art_row list \<Rightarrow> (art_row \<times> string \<times> string \<times> string) list" where
  "candidates min_quality min_answer rows =
     concat (map (\<lambda>row. case parse_qa (t_content row) min_answer of
         None \<Rightarrow> [] | Some qa \<Rightarrow> [(row, qa)]) (filter (qualifies min_quality) rows))"

definition title_key :: "art_row \<times> string \<times> string \<times> string \<Rightarrow> string" where
  "title_key c = lower (fst (snd c))"

definition sft_reference :: "string \<Rightarrow> rat \<Rightarrow> int \<Rightarrow> art_row list \<Rightarrow> sft_rec list" where
  "sft_reference fmt min_quality min_answer rows =
     map (\<lambda>c. sft_record fmt (fst c) (snd c)) (firsts title_key (candidates min_quality min_answer rows))"

lemma firsts_Nil [simp]: "firsts key [] = []"
  by (simp add: firsts_def)

lemma firsts_snoc:
  "firsts key (xs @ [x]) = firsts key xs @ (if key x \<in> key ` set xs then [] else [x])"
proof -
  have "filter (\<lambda>(i, y). \<forall>j<i. key ((xs @ [x]) ! j) \<noteq> key y) (zip [0..<length xs] xs)
      = filter (\<lambda>(i, y). \<forall>j<i. key (xs ! j) \<noteq> key y) (zip [0..<length xs] xs)"
    by (rule filter_cong) (auto simp: set_zip nth_append)
  moreover have "(\<forall>j<length xs. key ((xs @ [x]) ! j) \<noteq> key x) \<longleftrightarrow> key x \<notin> key ` set xs"
    by (auto simp: nth_append) (metis imageE in_set_conv_nth, metis image_eqI nth_mem)
  ultimately show ?thesis by (auto simp: firsts_def)
qed

lemma set_firsts: "key ` set (firsts key xs) = key ` set xs"
  by (induction xs rule: rev_induct) (auto simp: firsts_snoc)

lemma candidates_snoc:
  "candidates q a (rows @ [row]) = candidates q a rows @
     (if qualifies q row then (case parse_qa (t_content row) a of None \<Rightarrow> [] | Some qa \<Rightarrow> [(row, qa)]) else [])"
  by (simp add: candidates_def)

lemma sft_row_Inr:
  assumes "sft_row env dumps out fmt q a acc row s = (Inr acc', s')"
    "acc = (length (sft_reference fmt q a rows), map title_key (firsts title_key (candidates q a rows)))"
    "fs_of (trace s) out = Some t"
  shows "acc' = (length (sft_reference fmt q a (rows @ [row])),
        map title_key (firsts title_key (candidates q a (rows @ [row]))))
    \<and> fs_of (trace s') out = Some (t @ concat (map (json_line dumps)
        (drop (length (sft_reference fmt q a rows)) (sft_reference fmt q a (rows @ [row])))))"
proof (cases "qualifies q row")
  case False
  then show ?thesis
    using assms by (auto simp: sft_row_def qualifies_def ret_def sft_reference_def candidates_snoc
        split: option.splits if_splits)
next
  case True
  then have q: "\<not> (case t_score row of None \<Rightarrow> False | Some x \<Rightarrow> x < q)"
    by (auto simp: qualifies_def split: option.splits)
  show ?thesis
  proof (cases "parse_qa (t_content row) a")
    case None
    then show ?thesis
      using assms q True by (simp add: sft_row_def ret_def sft_reference_def candidates_snoc)
  next
    case (Some qa)
    have seen: "lower (fst qa) \<in> set (snd acc) \<longleftrightarrow> title_key (row, qa) \<in> title_key ` set (candidates q a rows)"
      using assms(2) set_firsts [of title_key "candidates q a rows"] by (simp add: title_key_def)
    show ?thesis
    proof (cases "lower (fst qa) \<in> set (snd acc)")
      case True
      with seen have "title_key (row, qa) \<in> title_key ` set (candidates q a rows)" by simp
      with True show ?thesis
        using assms q Some \<open>qualifies q row\<close>
        by (simp add: sft_row_def ret_def sft_reference_def candidates_snoc firsts_snoc)
    next
      case False
      then have "acc' = (fst acc + 1, snd acc @ [lower (fst qa)])"
        "fs_of (trace s') out = Some (t @ json_line dumps (sft_record fmt row qa))"
        using assms(1,3) q Some
        by (auto simp: sft_row_def Let_def bindP_eq_Inr call_unit_Inr ret_def fs_of_snoc)
      then show ?thesis
        using assms(2) False Some seen \<open>qualifies q row\<close>
        by (simp add: sft_reference_def candidates_snoc firsts_snoc title_key_def)
    qed
  qed
qed

lemma sft_reference_snoc:
  "sft_reference fmt q a (rows @ [row]) = sft_reference fmt q a rows @
     drop (length (sft_reference fmt q a rows)) (sft_reference fmt q a (rows @ [row]))"
  by (simp add: sft_reference_def candidates_snoc firsts_snoc split: option.split)

lemma sft_loop:
  assumes "foldP (sft_row env dumps out fmt q a) (0, []) rows s = (Inr acc, s')"
    "fs_of (trace s) out = Some []"
  shows "acc = (length (sft_reference fmt q a rows), map title_key (firsts title_key (candidates q a rows)))
    \<and> fs_of (trace s') out = Some (concat (map (json_line dumps) (sft_reference fmt q a rows)))"
  using assms
proof (induction rows arbitrary: acc s' rule: rev_induct)
  case Nil
  then show ?case by (simp add: ret_def sft_reference_def candidates_def)
next
  case (snoc row rows)
  then obtain acc1 s1 where 1: "foldP (sft_row env dumps out fmt q a) (0, []) rows s = (Inr acc1, s1)"
    and 2: "sft_row env dumps out fmt q a acc1 row s1 = (Inr acc, s')"
    by (auto simp: foldP_append bindP_eq_Inr ret_def)
  from snoc.IH [OF 1 snoc.prems(2)] sft_row_Inr [OF 2] show ?case
    by (subst sft_reference_snoc) auto
qed

lemma emits_sft_loop:
  "emits (\<lambda>e. \<not> is_query e) (foldP (sft_row env dumps out fmt q a) (0, []) rows)"
  by (auto simp: sft_row_def is_query_def Let_def intro!: emits_rules split: option.split)

text \<open>
  C10: The export writes exactly the reference: of the rows of its one query that reach the
  minimum quality and parse, the first of each title up to case, one record per line and
  nothing else in the file; the result is their number.
\<close>

theorem export_sft_reference:
  fixes s :: "'z cworld_scheme"
  assumes "export_sft env cfg dumps out fmt q a s = (Inr n, s')"
  shows "\<exists>es rows. trace s' = trace s @ es \<and> filter is_query es = [(Query sft_sql [], ArtRows rows)]
    \<and> n = length (sft_reference (lower fmt) q a rows)
    \<and> fs_of (trace s') out = Some (concat (map (json_line dumps) (sft_reference (lower fmt) q a rows)))"
proof -
  let ?body = "sft_body env dumps out (lower fmt) q a"
  have "with_conn env cfg ?body s = (Inr n, s')"
    using assms by (auto simp: export_sft_def with_conn_def bindP_eq_Inr Let_def throw_def split: if_splits)
  from with_conn_Inr [OF this] obtain s1 s4 :: "'z cworld_scheme" and e1 e5 where body: "?body s1 = (Inr n, s4)"
    and e1: "trace s1 = trace s @ e1" "list_all pool_event e1"
    and e5: "trace s' = trace s4 @ e5" "list_all pool_event e5"
    by blast
  from body obtain rows s2 s3 acc where 2: "call_articles env (Query sft_sql []) s1 = (Inr rows, s2)"
    and 3: "call_unit env (FileOpen out ''w'') s2 = (Inr (), s3)"
    and 4: "foldP (sft_row env dumps out (lower fmt) q a) (0, []) rows s3 = (Inr acc, s4)" "n = fst acc"
    by (auto simp: sft_body_def bindP_eq_Inr ret_def)
  obtain e4 where e4: "trace s4 = trace s3 @ e4" "list_all (\<lambda>e. \<not> is_query e) e4"
    using emitsD [OF emits_sft_loop 4(1)] by blast
  let ?e = "[(Query sft_sql [], ArtRows rows), (FileOpen out ''w'', env (trace s2) (FileOpen out ''w''))]"
  have e23: "trace s3 = trace s1 @ ?e" "fs_of (trace s3) out = Some []"
    using 2 3 by (auto simp: call_articles_Inr call_unit_Inr fs_of_append)
  have "fs_of (trace s') = fs_of (trace s4)"
    by (simp only: e5(1) fs_of_append pool_fs [OF e5(2)])
  with sft_loop [OF 4(1) e23(2)] 4(2) have
    "n = length (sft_reference (lower fmt) q a rows)"
    "fs_of (trace s') out = Some (concat (map (json_line dumps) (sft_reference (lower fmt) q a rows)))"
    by simp_all
  moreover have "trace s' = trace s @ e1 @ ?e @ e4 @ e5"
    using e1(1) e23(1) e4(1) e5(1) by simp
  moreover have "filter is_query (e1 @ ?e @ e4 @ e5) = [(Query sft_sql [], ArtRows rows)]"
    using pool_queries [OF e1(2)] no_queries [OF e4(2)] pool_queries [OF e5(2)]
    by (simp add: is_query_def)
  ultimately show ?thesis
    by (intro exI [of _ "e1 @ ?e @ e4 @ e5"] exI [of _ rows]) simp
qed

definition sft_sample_row :: "int \<Rightarrow> string \<Rightarrow> string \<Rightarrow> rat option \<Rightarrow> art_row" where
  "sft_sample_row i title answer score = \<lparr>t_id = i, t_url = ''http://h/q'', t_title = Some title,
     t_content = Some (compose_qa title ''How?'' answer), t_author = None, t_published = None,
     t_tags = None, t_source = Some ''stackexchange'', t_lang = None, t_score = score,
     t_crawled = None, t_hash = None\<rparr>"

definition sft_sample_rows :: "art_row list" where
  "sft_sample_rows = [sft_sample_row 1 ''Sort'' ''Use sorted.'' (Some 1),
     sft_sample_row 2 ''SORT'' ''Use list.sort.'' (Some (1/2)), sft_sample_row 3 ''Other'' ''No.'' None]"

definition sft_env :: env where
  "sft_env tr c = (case c of Query _ _ \<Rightarrow> ArtRows sft_sample_rows | _ \<Rightarrow> Done)"

definition sft_dumps :: "sft_rec \<Rightarrow> string" where
  "sft_dumps r = (case r of Alpaca t q a u ts \<Rightarrow> a | ShareGpt q a u ts \<Rightarrow> a)"

theorem export_sft_reference_witness:
  "\<exists>s'. export_sft sft_env default_config sft_dumps ''out'' ''Alpaca'' 0 5 \<lparr>trace = [], c_pool = True\<rparr> = (Inr 1, s')
     \<and> (\<exists>rows. 1 = length (sft_reference (lower ''Alpaca'') 0 5 rows)
        \<and> fs_of (trace s') ''out'' = Some (concat (map (json_line sft_dumps) (sft_reference (lower ''Alpaca'') 0 5 rows))))"
proof -
  have "fst (export_sft sft_env default_config sft_dumps ''out'' ''Alpaca'' 0 5 \<lparr>trace = [], c_pool = True\<rparr>) = Inr 1"
    by code_simp
  then obtain s' where run: "export_sft sft_env default_config sft_dumps ''out'' ''Alpaca'' 0 5
      \<lparr>trace = [], c_pool = True\<rparr> = (Inr 1, s')"
    by (metis prod.collapse)
  from export_sft_reference [OF run] show ?thesis using run by blast
qed

text \<open>
  An unsupported format ends the program between taking the connection and the \<open>try\<close> that
  gives it back.
\<close>

lemma export_sft_bad_format_leaks:
  "snd (export_sft sft_env default_config sft_dumps ''out'' ''csv'' 0 5 \<lparr>trace = [], c_pool = True\<rparr>)
     = \<lparr>trace = [(GetConn, Done)], c_pool = True\<rparr>"
  "fst (export_sft sft_env default_config sft_dumps ''out'' ''csv'' 0 5 \<lparr>trace = [], c_pool = True\<rparr>)
     = Inl (SystemExit ''unsupported format: csv'')"
  by code_simp+

end
