(* ===== verification/Replay.thy ===== *)
theory Replay
  imports Session
begin

text \<open>
  \<open>py-processor/dlq_replay.py\<close>: moving the messages of the dead-letter stream back into the
  main stream, once or in rounds. Redis is the environment; what is printed is left out, but
  for the exceptions raised while the line is put together.

  The lemmas describe a round on working streams, and the rounds of the loop mode: when every
  entry carries an article they drain the dead-letter stream in order, and what stops them
  otherwise.
\<close>

section \<open>A round\<close>

definition has_article :: "message \<Rightarrow> bool" where
  "has_article m = (case map_of (snd m) ''article'' of None \<Rightarrow> False | Some a \<Rightarrow> a \<noteq> [])"

definition article_of :: "message \<Rightarrow> string" where
  "article_of m = (case map_of (snd m) ''article'' of None \<Rightarrow> [] | Some a \<Rightarrow> a)"

text \<open>
  The URL that is printed: the field, else that of the article's JSON, for which an unreadable
  text counts as an empty object.
\<close>

definition entry_url :: "lib \<Rightarrow> message \<Rightarrow> exn + string" where
  "entry_url lb m =
     (let field = (case map_of (snd m) ''url'' of None \<Rightarrow> [] | Some u \<Rightarrow> u)
      in if field \<noteq> [] then Inr field
         else (case json_loads lb (article_of m) of
           NotJson \<Rightarrow> Inr ''?''
         | NotObject \<Rightarrow> Inl (AttributeError ''get'')
         | Obj a \<Rightarrow> Inr (case a_url a of None \<Rightarrow> ''?'' | Some u \<Rightarrow> u)))"

definition replay_entry ::
  "env \<Rightarrow> lib \<Rightarrow> config \<Rightarrow> bool \<Rightarrow> bool \<Rightarrow> nat \<times> nat \<Rightarrow> message \<Rightarrow> ('z world_scheme, nat \<times> nat) prog" where
  "replay_entry env lb cfg delete dry_run acc m =
     (if \<not> has_article m then ret (fst acc, snd acc + 1)
      else bindP (liftE (entry_url lb m)) (\<lambda>_.
        if dry_run then ret acc
        else bindP (call_unit env (Xadd (STREAM cfg) None [(''article'', article_of m)])) (\<lambda>_.
             bindP (if delete then call_unit env (Xdel (DLQ_STREAM cfg) (fst m)) else ret ()) (\<lambda>_.
             ret (fst acc + 1, snd acc)))))"

text \<open>\<open>xrange\<close> refuses a count below one; zero is none.\<close>

definition read_dlq :: "env \<Rightarrow> config \<Rightarrow> int \<Rightarrow> ('z world_scheme, message list) prog" where
  "read_dlq env cfg limit =
     (if limit < 0 then throw (RedisError ''XRANGE count must be a positive integer'')
      else bindP (call env (Xrange (DLQ_STREAM cfg) (if limit = 0 then None else Some (nat limit)))) (\<lambda>r.
        case r of Messages ms \<Rightarrow> ret ms | _ \<Rightarrow> throw bad_reply))"

definition replay_round ::
  "env \<Rightarrow> lib \<Rightarrow> config \<Rightarrow> int \<Rightarrow> bool \<Rightarrow> bool \<Rightarrow> ('z world_scheme, nat \<times> nat) prog" where
  "replay_round env lb cfg limit delete dry_run =
     bindP (read_dlq env cfg limit) (\<lambda>entries.
     foldP (replay_entry env lb cfg delete dry_run) (0, 0) entries)"

section \<open>Rounds\<close>

fun replay_loop ::
  "env \<Rightarrow> lib \<Rightarrow> config \<Rightarrow> int \<Rightarrow> int \<Rightarrow> bool \<Rightarrow> bool \<Rightarrow> nat \<Rightarrow> ('z world_scheme, unit) prog" where
  "replay_loop env lb cfg batch interval delete dry_run 0 = ret ()"
| "replay_loop env lb cfg batch interval delete dry_run (Suc n) =
     bindP (replay_round env lb cfg batch delete dry_run) (\<lambda>res.
     bindP (call_num env (Xlen (DLQ_STREAM cfg))) (\<lambda>remaining.
     if fst res = 0 \<or> dry_run then ret ()
     else if remaining = 0 then ret ()
     else bindP (py_sleep env (Fin (of_int interval))) (\<lambda>_.
       replay_loop env lb cfg batch interval delete dry_run n)))"

text \<open>
  The program. Its result is what the last line of a single round reports: the number a dry run
  announces, else the numbers replayed and skipped; the loop only reports the stream's length.
\<close>

datatype report = Looped int | WouldReplay nat | Replayed nat nat

definition replay_main :: "env \<Rightarrow> lib \<Rightarrow> config \<Rightarrow> args \<Rightarrow> ('z world_scheme, report) prog" where
  "replay_main env lb cfg xs =
     bindP (liftE (arg_int xs ''--limit'' 0)) (\<lambda>limit.
     bindP (liftE (arg_int xs ''--batch'' 300)) (\<lambda>batch.
     bindP (liftE (arg_int xs ''--interval-sec'' 900)) (\<lambda>interval.
     bindP (liftE (arg_int xs ''--max-rounds'' 40)) (\<lambda>max_rounds.
     let dry_run = arg_flag xs ''--dry-run''; delete = arg_flag xs ''--delete'' in
     bindP (call_num env (Xlen (DLQ_STREAM cfg))) (\<lambda>_.
     if arg_flag xs ''--loop''
     then bindP (replay_loop env lb cfg batch interval delete dry_run (nat max_rounds)) (\<lambda>_.
          bindP (call_num env (Xlen (DLQ_STREAM cfg))) (\<lambda>left. ret (Looped left)))
     else bindP (replay_round env lb cfg limit delete dry_run) (\<lambda>res.
          ret (if dry_run then WouldReplay (fst res + snd res) else Replayed (fst res) (snd res))))))))"

section \<open>Working streams\<close>

text \<open>The entries of a stream after a trace: additions at the end, deletions by identifier.\<close>

definition stream_step :: "string \<Rightarrow> message list \<Rightarrow> event \<Rightarrow> message list" where
  "stream_step k ms e = (case e of
     (Xadd k' _ fs, Txt i) \<Rightarrow> if k' = k then ms @ [(i, fs)] else ms
   | (Xdel k' i, Num _) \<Rightarrow> if k' = k then filter (\<lambda>m. fst m \<noteq> i) ms else ms
   | _ \<Rightarrow> ms)"

definition stream_of :: "(string \<Rightarrow> message list) \<Rightarrow> event list \<Rightarrow> string \<Rightarrow> message list" where
  "stream_of init tr k = foldl (stream_step k) (init k) tr"

definition streams_up :: "(string \<Rightarrow> message list) \<Rightarrow> env \<Rightarrow> bool" where
  "streams_up init env \<longleftrightarrow>
     (\<forall>tr k n. env tr (Xrange k n) = Messages (case n of None \<Rightarrow> stream_of init tr k
        | Some c \<Rightarrow> take c (stream_of init tr k)))
     \<and> (\<forall>tr k n fs. \<exists>i. env tr (Xadd k n fs) = Txt i)
     \<and> (\<forall>tr k i. \<exists>n. env tr (Xdel k i) = Num n)
     \<and> (\<forall>tr k. env tr (Xlen k) = Num (int (length (stream_of init tr k))))
     \<and> (\<forall>tr t. env tr (Sleep t) = Done)"

lemma stream_of_append [simp]: "stream_of init (tr @ es) k = foldl (stream_step k) (stream_of init tr k) es"
  by (simp add: stream_of_def)

definition printable :: "lib \<Rightarrow> message \<Rightarrow> bool" where
  "printable lb m \<longleftrightarrow> (case entry_url lb m of Inl _ \<Rightarrow> False | Inr _ \<Rightarrow> True)"

text \<open>The messages of a stream without their identifiers.\<close>

definition payloads :: "message list \<Rightarrow> fields list" where
  "payloads ms = map snd ms"

definition replayed :: "message list \<Rightarrow> fields list" where
  "replayed ms = map (\<lambda>m. [(''article'', article_of m)]) (filter has_article ms)"

definition removed :: "bool \<Rightarrow> message list \<Rightarrow> message list \<Rightarrow> message list" where
  "removed delete ms q = (if delete then filter (\<lambda>m. fst m \<notin> fst ` set (filter has_article ms)) q else q)"

lemma removed_step:
  "removed d ms (removed d [m] q) = removed d (m # ms) q"
  by (auto simp: removed_def intro!: filter_cong)

lemma streams_upD:
  assumes "streams_up init env"
  shows "env tr (Xrange k n) = Messages (case n of None \<Rightarrow> stream_of init tr k
        | Some c \<Rightarrow> take c (stream_of init tr k))"
    and "\<exists>i. env tr (Xadd k c fs) = Txt i" and "\<exists>x. env tr (Xdel k d) = Num x"
    and "env tr (Xlen k) = Num (int (length (stream_of init tr k)))" and "env tr (Sleep t) = Done"
  using assms unfolding streams_up_def by blast+

lemma replay_entry_result:
  assumes up: "streams_up init env" and two: "STREAM cfg \<noteq> DLQ_STREAM cfg" and "printable lb m"
  shows "\<exists>s'. replay_entry env lb cfg delete False (a, b) m s
      = (Inr (a + length (replayed [m]), b + (if has_article m then 0 else 1)), s')
    \<and> stream_of init (trace s') (DLQ_STREAM cfg) = removed delete [m] (stream_of init (trace s) (DLQ_STREAM cfg))
    \<and> payloads (stream_of init (trace s') (STREAM cfg))
      = payloads (stream_of init (trace s) (STREAM cfg)) @ replayed [m]"
proof (cases "has_article m")
  case False
  then show ?thesis by (simp add: replay_entry_def ret_def removed_def replayed_def)
next
  case True
  obtain u where u: "entry_url lb m = Inr u"
    using assms(3) by (auto simp: printable_def split: sum.splits)
  let ?add = "Xadd (STREAM cfg) None [(''article'', article_of m)]"
  obtain i where i: "env (trace s) ?add = Txt i" using streams_upD(2) [OF up] by blast
  let ?tr = "trace s @ [(?add, Txt i)]"
  obtain n where n: "env ?tr (Xdel (DLQ_STREAM cfg) (fst m)) = Num n"
    using streams_upD(3) [OF up] by blast
  show ?thesis
    using True u i n two
    by (auto simp: replay_entry_def bindP_def liftE_def call_unit_def call_def Let_def ret_def
        replayed_def removed_def payloads_def stream_step_def intro!: filter_cong)
qed

lemma replay_entries:
  assumes up: "streams_up init env" and two: "STREAM cfg \<noteq> DLQ_STREAM cfg" and "list_all (printable lb) ms"
  shows "\<exists>s'. foldP (replay_entry env lb cfg delete False) (a, b) ms s
      = (Inr (a + length (replayed ms), b + length (filter (\<lambda>m. \<not> has_article m) ms)), s')
    \<and> stream_of init (trace s') (DLQ_STREAM cfg) = removed delete ms (stream_of init (trace s) (DLQ_STREAM cfg))
    \<and> payloads (stream_of init (trace s') (STREAM cfg))
      = payloads (stream_of init (trace s) (STREAM cfg)) @ replayed ms"
  using assms(3)
proof (induction ms arbitrary: a b s)
  case Nil
  then show ?case by (simp add: ret_def replayed_def removed_def)
next
  case (Cons m ms)
  obtain s1 where 1: "replay_entry env lb cfg delete False (a, b) m s
      = (Inr (a + length (replayed [m]), b + (if has_article m then 0 else 1)), s1)"
    and q: "stream_of init (trace s1) (DLQ_STREAM cfg) = removed delete [m] (stream_of init (trace s) (DLQ_STREAM cfg))"
    and p: "payloads (stream_of init (trace s1) (STREAM cfg))
      = payloads (stream_of init (trace s) (STREAM cfg)) @ replayed [m]"
    using replay_entry_result [OF up two, of lb m delete a b s] Cons.prems by auto
  obtain s2 where 2: "foldP (replay_entry env lb cfg delete False)
        (a + length (replayed [m]), b + (if has_article m then 0 else 1)) ms s1
      = (Inr (a + length (replayed [m]) + length (replayed ms),
          b + (if has_article m then 0 else 1) + length (filter (\<lambda>m. \<not> has_article m) ms)), s2)"
    and q2: "stream_of init (trace s2) (DLQ_STREAM cfg) = removed delete ms (stream_of init (trace s1) (DLQ_STREAM cfg))"
    and p2: "payloads (stream_of init (trace s2) (STREAM cfg))
      = payloads (stream_of init (trace s1) (STREAM cfg)) @ replayed ms"
    using Cons.IH [of "a + length (replayed [m])" "b + (if has_article m then 0 else 1)" s1] Cons.prems
    by auto
  have cnt: "length (replayed (m # ms)) = length (replayed [m]) + length (replayed ms)"
    by (simp add: replayed_def)
  have app: "replayed (m # ms) = replayed [m] @ replayed ms" by (simp add: replayed_def)
  have run: "foldP (replay_entry env lb cfg delete False) (a, b) (m # ms) s
      = foldP (replay_entry env lb cfg delete False)
        (a + length (replayed [m]), b + (if has_article m then 0 else 1)) ms s1"
    using 1 by (simp add: bindP_def)
  show ?case
    unfolding run 2 by (auto simp: q2 q p2 p app removed_step)
qed

lemma stream_of_ignored:
  "stream_step k ms (Xrange j n, r) = ms" "stream_step k ms (Xlen j, r) = ms" "stream_step k ms (Sleep t, r) = ms"
  by (simp_all add: stream_step_def)

lemma replay_round_result:
  assumes up: "streams_up init env" and two: "STREAM cfg \<noteq> DLQ_STREAM cfg" and "0 < batch"
    and "list_all (printable lb) (stream_of init (trace s) (DLQ_STREAM cfg))"
  defines "ms \<equiv> take (nat batch) (stream_of init (trace s) (DLQ_STREAM cfg))"
  shows "\<exists>s'. replay_round env lb cfg batch delete False s
      = (Inr (length (replayed ms), length (filter (\<lambda>m. \<not> has_article m) ms)), s')
    \<and> stream_of init (trace s') (DLQ_STREAM cfg) = removed delete ms (stream_of init (trace s) (DLQ_STREAM cfg))
    \<and> payloads (stream_of init (trace s') (STREAM cfg))
      = payloads (stream_of init (trace s) (STREAM cfg)) @ replayed ms"
proof -
  let ?c = "Xrange (DLQ_STREAM cfg) (Some (nat batch))"
  let ?s1 = "s\<lparr>trace := trace s @ [(?c, Messages ms)]\<rparr>"
  have "env (trace s) ?c = Messages ms" using streams_upD(1) [OF up] by (simp add: ms_def)
  then have "replay_round env lb cfg batch delete False s
      = foldP (replay_entry env lb cfg delete False) (0, 0) ms ?s1"
    using assms(3) by (simp add: replay_round_def read_dlq_def bindP_def call_def Let_def ret_def)
  moreover have "list_all (printable lb) ms"
    using assms(4) by (auto simp: ms_def list_all_iff dest: in_set_takeD)
  ultimately show ?thesis
    using replay_entries [OF up two, of lb ms delete 0 0 ?s1] by (simp add: stream_of_ignored)
qed

text \<open>What a working round with \<open>--delete\<close> leaves of a dead-letter stream whose entries all carry an article.\<close>

lemma removed_all:
  assumes "distinct (map fst q)" "list_all has_article q"
  shows "removed True (take n q) q = drop n q"
proof -
  have f: "filter has_article (take n q) = take n q"
    using assms(2) by (auto simp: filter_id_conv list_all_iff dest: in_set_takeD)
  have "distinct (map fst (take n q @ drop n q))" using assms(1) by simp
  then have "\<forall>m \<in> set (drop n q). fst m \<notin> fst ` set (take n q)"
    by (auto simp only: map_append distinct_append set_map)
  then have "filter (\<lambda>m. fst m \<notin> fst ` set (take n q)) (drop n q) = drop n q" by simp
  moreover have "filter (\<lambda>m. fst m \<notin> fst ` set (take n q)) (take n q) = []"
    by (simp add: filter_empty_conv)
  ultimately have "filter (\<lambda>m. fst m \<notin> fst ` set (take n q)) (take n q @ drop n q) = drop n q"
    by (simp only: filter_append append_Nil)
  with f show ?thesis by (simp add: removed_def)
qed

lemma replayed_all: "list_all has_article ms \<Longrightarrow> replayed ms = map (\<lambda>m. [(''article'', article_of m)]) ms"
  by (simp add: replayed_def list_all_iff)

text \<open>
  On working streams the loop with \<open>--delete\<close> empties a dead-letter stream whose entries all
  carry an article, if its rounds suffice, and returns; each article has then been added to the
  main stream once, in the order of the dead letters.
\<close>

theorem replay_loop_drains:
  assumes up: "streams_up init env" and two: "STREAM cfg \<noteq> DLQ_STREAM cfg" and batch: "0 < batch"
    and "distinct (map fst (stream_of init (trace s) (DLQ_STREAM cfg)))"
    and "list_all has_article (stream_of init (trace s) (DLQ_STREAM cfg))"
    and "list_all (printable lb) (stream_of init (trace s) (DLQ_STREAM cfg))"
    and "length (stream_of init (trace s) (DLQ_STREAM cfg)) \<le> rounds * nat batch" and interval: "0 \<le> interval"
  shows "\<exists>s'. replay_loop env lb cfg batch interval True False rounds s = (Inr (), s')
    \<and> stream_of init (trace s') (DLQ_STREAM cfg) = []
    \<and> payloads (stream_of init (trace s') (STREAM cfg)) = payloads (stream_of init (trace s) (STREAM cfg))
        @ map (\<lambda>m. [(''article'', article_of m)]) (stream_of init (trace s) (DLQ_STREAM cfg))"
  using assms(4-7)
proof (induction rounds arbitrary: s)
  case 0
  then show ?case by (simp add: ret_def)
next
  case (Suc n)
  let ?q = "stream_of init (trace s) (DLQ_STREAM cfg)"
  let ?ms = "take (nat batch) ?q"
  have art: "list_all has_article ?ms" using Suc.prems(2) by (auto simp: list_all_iff dest: in_set_takeD)
  obtain s1 where 1: "replay_round env lb cfg batch True False s
        = (Inr (length (replayed ?ms), length (filter (\<lambda>m. \<not> has_article m) ?ms)), s1)"
    and q1: "stream_of init (trace s1) (DLQ_STREAM cfg) = drop (nat batch) ?q"
    and p1: "payloads (stream_of init (trace s1) (STREAM cfg))
      = payloads (stream_of init (trace s) (STREAM cfg)) @ map (\<lambda>m. [(''article'', article_of m)]) ?ms"
    using replay_round_result [OF up two batch Suc.prems(3), of True]
      removed_all [OF Suc.prems(1,2), of "nat batch"] replayed_all [OF art] by auto
  let ?len = "(Xlen (DLQ_STREAM cfg), Num (int (length (drop (nat batch) ?q))))"
  let ?s2 = "s1\<lparr>trace := trace s1 @ [?len]\<rparr>"
  have len: "call_num env (Xlen (DLQ_STREAM cfg)) s1 = (Inr (int (length (drop (nat batch) ?q))), ?s2)"
    using streams_upD(4) [OF up] q1 by (simp add: call_num_Inr)
  have cnt: "length (replayed ?ms) = length ?ms" by (simp add: replayed_all [OF art])
  show ?case
  proof (cases "length (replayed ?ms) = 0 \<or> length (drop (nat batch) ?q) = 0")
    case True
    then have all: "drop (nat batch) ?q = []" using cnt batch by auto
    then have ms: "?ms = ?q" by simp
    have run: "replay_loop env lb cfg batch interval True False (Suc n) s = (Inr (), ?s2)"
      using 1 len all by (simp add: bindP_def ret_def)
    show ?thesis
      using q1 p1 all ms by (intro exI [of _ ?s2] conjI run) (simp_all add: stream_of_ignored)
  next
    case False
    let ?s3 = "?s2\<lparr>trace := trace ?s2 @ [(Sleep (of_int interval), Done)]\<rparr>"
    from False have "length (drop (nat batch) ?q) \<noteq> 0" by blast
    then have "int (length (drop (nat batch) ?q)) \<noteq> 0" by (metis of_nat_eq_0_iff)
    then have run: "replay_loop env lb cfg batch interval True False (Suc n) s
        = replay_loop env lb cfg batch interval True False n ?s3"
      using 1 len False streams_upD(5) [OF up] interval
      by (simp add: bindP_def py_sleep_def call_unit_def call_def Let_def ret_def del: length_drop drop_eq_Nil)
    have q3: "stream_of init (trace ?s3) (DLQ_STREAM cfg) = drop (nat batch) ?q"
      and p3: "payloads (stream_of init (trace ?s3) (STREAM cfg)) = payloads (stream_of init (trace s1) (STREAM cfg))"
      using q1 by (simp_all add: stream_of_ignored)
    have "distinct (map fst (drop (nat batch) ?q))" using Suc.prems(1) by (simp add: drop_map [symmetric])
    moreover have "list_all has_article (drop (nat batch) ?q)" "list_all (printable lb) (drop (nat batch) ?q)"
      using Suc.prems(2,3) by (auto simp: list_all_iff dest: in_set_dropD)
    moreover have "length (drop (nat batch) ?q) \<le> n * nat batch" using Suc.prems(4) by simp
    ultimately obtain s' where "replay_loop env lb cfg batch interval True False n ?s3 = (Inr (), s')"
      "stream_of init (trace s') (DLQ_STREAM cfg) = []"
      "payloads (stream_of init (trace s') (STREAM cfg)) = payloads (stream_of init (trace ?s3) (STREAM cfg))
        @ map (\<lambda>m. [(''article'', article_of m)]) (drop (nat batch) ?q)"
      using Suc.IH [of ?s3] unfolding q3 by blast
    moreover have "map (\<lambda>m. [(''article'', article_of m)]) ?q = map (\<lambda>m. [(''article'', article_of m)]) ?ms
        @ map (\<lambda>m. [(''article'', article_of m)]) (drop (nat batch) ?q)"
      by (simp only: map_append [symmetric] append_take_drop_id)
    ultimately show ?thesis
      using run p1 p3 by (intro exI [of _ s']) simp
  qed
qed

section \<open>Scenarios\<close>

definition streams_env :: "(string \<Rightarrow> message list) \<Rightarrow> env" where
  "streams_env init tr c = (case c of
     Xrange k n \<Rightarrow> Messages (case n of None \<Rightarrow> stream_of init tr k | Some c \<Rightarrow> take c (stream_of init tr k))
   | Xadd k n fs \<Rightarrow> Txt (''r'' @ show_nat (length tr))
   | Xdel k i \<Rightarrow> Num 1
   | Xlen k \<Rightarrow> Num (int (length (stream_of init tr k)))
   | _ \<Rightarrow> Done)"

lemma streams_env_up: "streams_up init (streams_env init)"
  by (simp add: streams_up_def streams_env_def)

definition dlq_lib :: lib where
  "dlq_lib = \<lparr>json_loads = (\<lambda>_. NotJson), json_dumps = (\<lambda>_. []), sha256_hex = (\<lambda>u. u),
     blake2b8 = (\<lambda>_. []), is_ip = (\<lambda>_. True), completion = (\<lambda>n. [0..<n])\<rparr>"

definition two_parked :: "string \<Rightarrow> message list" where
  "two_parked k = (if k = ''articles_dlq''
     then [(''1-0'', [(''url'', ''u''), (''article'', ''a'')]), (''2-0'', [(''url'', ''v''), (''article'', ''b'')])] else [])"

definition one_broken :: "string \<Rightarrow> message list" where
  "one_broken k = (if k = ''articles_dlq''
     then [(''1-0'', [(''reason'', ''?'')]), (''2-0'', [(''url'', ''v''), (''article'', ''b'')])] else [])"

theorem replay_loop_drains_witness:
  "\<exists>s'. replay_loop (streams_env two_parked) dlq_lib default_config 1 900 True False 2 \<lparr>trace = []\<rparr> = (Inr (), s')
     \<and> stream_of two_parked (trace s') ''articles_dlq'' = []"
proof -
  have "STREAM default_config \<noteq> DLQ_STREAM default_config" "DLQ_STREAM default_config = ''articles_dlq''"
    "distinct (map fst (stream_of two_parked (trace \<lparr>trace = []\<rparr>) (DLQ_STREAM default_config)))"
    "list_all has_article (stream_of two_parked (trace \<lparr>trace = []\<rparr>) (DLQ_STREAM default_config))"
    "list_all (printable dlq_lib) (stream_of two_parked (trace \<lparr>trace = []\<rparr>) (DLQ_STREAM default_config))"
    "length (stream_of two_parked (trace \<lparr>trace = []\<rparr>) (DLQ_STREAM default_config)) \<le> 2 * nat 1"
    by code_simp+
  then show ?thesis
    using replay_loop_drains [OF streams_env_up, where s = "\<lparr>trace = []\<rparr>" and batch = 1 and rounds = 2
        and cfg = default_config and lb = dlq_lib and init = two_parked and interval = 900] by auto
qed

text \<open>
  Without \<open>--delete\<close> every round of the loop replays the same entries again, up to the cap on the
  rounds.
\<close>

lemma replay_loop_repeats:
  "(let r = replay_main (streams_env two_parked) dlq_lib default_config
        [(''--loop'', []), (''--batch'', ''1''), (''--max-rounds'', ''3'')] \<lparr>trace = []\<rparr>
    in fst r = Inr (Looped 2) \<and>
      payloads (stream_of two_parked (trace (snd r)) ''articles'') = replicate 3 [(''article'', ''a'')])"
  by code_simp

text \<open>
  An entry without an article is never removed: once such entries fill a batch, the loop ends,
  although replayable entries are left behind them.
\<close>

lemma replay_loop_blocked:
  "(let r = replay_main (streams_env one_broken) dlq_lib default_config
        [(''--loop'', []), (''--delete'', []), (''--batch'', ''1'')] \<lparr>trace = []\<rparr>
    in fst r = Inr (Looped 2) \<and> payloads (stream_of one_broken (trace (snd r)) ''articles'') = [])"
  by code_simp

text \<open>A dry run announces the entries that would be skipped, not those that would be replayed.\<close>

lemma dry_run_count:
  "fst (replay_main (streams_env two_parked) dlq_lib default_config [(''--dry-run'', [])] \<lparr>trace = []\<rparr>)
     = Inr (WouldReplay 0)
   \<and> fst (replay_main (streams_env two_parked) dlq_lib default_config [] \<lparr>trace = []\<rparr>) = Inr (Replayed 2 0)"
  by code_simp

end
