(* ===== verification/Connections.thy ===== *)
theory Connections
  imports Webapp Tools Sync Sft Replay
begin

text \<open>
  Every program with a pool gives back the connections it takes, whatever fails: the exports, the
  tools, the monitor and each request to the dashboard leave as many connections taken as they
  found. The exception is the SFT export called with an unknown format, which its command line
  rules out (theory Sft), and the reconnection of the consumer (theory Failures).
\<close>

section \<open>Connections taken\<close>

lemma held_other: "list_all (\<lambda>e. \<not> is_conn e) es \<Longrightarrow> held es = 0"
  by (induction es) (auto simp: held_def is_conn_def split: cmd.splits)

lemma is_conn_pair: "is_conn (c, r) \<longleftrightarrow> (case c of GetConn \<Rightarrow> True | PutConn _ \<Rightarrow> True | _ \<Rightarrow> False)"
  by (simp add: is_conn_def)

lemma held_given_back: "given_back es \<Longrightarrow> held es = 0"
proof -
  assume "given_back es"
  then obtain pre rest where es: "es = pre @ rest" "list_all (\<lambda>e. \<not> is_conn e) pre"
    and rest: "rest = [] \<or> (\<exists>x. rest = [(GetConn, x)] \<and> \<not> ok_reply x) \<or>
      (\<exists>x y body. rest = (GetConn, x) # body @ [(PutConn False, y)] \<and> ok_reply x \<and>
         list_all (\<lambda>e. \<not> is_conn e) body)"
    unfolding given_back_def by blast
  have "held rest = 0"
    using rest held_other by (fastforce simp: held_def)
  with es show ?thesis by (simp add: held_other)
qed

abbreviation balanced :: "('z world_scheme, 'a) prog \<Rightarrow> bool" where
  "balanced \<equiv> keeps (\<lambda>s. held (trace s))"

named_theorems balance "programs that give back what they take"

lemmas [balance] = keeps_simple(1-4) keeps_bind keeps_try keeps_fold

lemma balanced_upd [balance]: "(\<And>s. trace (h s) = trace s) \<Longrightarrow> balanced (updP h)"
  by (simp add: keeps_def updP_def)

lemma balanced_liftE: "(\<And>x. r = Inr x \<Longrightarrow> balanced (f x)) \<Longrightarrow> balanced (bindP (liftE r) f)"
  by (cases r) (simp_all add: bindP_liftE keeps_simple)

lemma balanced_emits: "emits (\<lambda>e. \<not> is_conn e) m \<Longrightarrow> balanced m"
  unfolding emits_def keeps_def by (metis held_append held_other add.right_neutral)

lemma balanced_calls [balance]:
  assumes "\<And>r. \<not> is_conn (c, r)"
  shows "balanced (call env c)" "balanced (call_unit env c)" "balanced (call_num env c)"
    "balanced (call_texts env c)" "balanced (call_text env c)" "balanced (call_time env c)"
    "balanced (call_pairs env c)"
  using assms by (auto intro!: balanced_emits emits_rules)

lemma balanced_with_conn:
  fixes body :: "('z cworld_scheme, 'a) prog"
  assumes "emits (\<lambda>e. \<not> is_conn e) body" "keeps c_pool body"
  shows "balanced (with_conn env cfg body)"
  unfolding keeps_def
proof
  fix s :: "'z cworld_scheme"
  from with_conn_gives_back [OF assms, of env cfg s] obtain es
    where "trace (snd (with_conn env cfg body s)) = trace s @ es" "given_back es" by blast
  then show "held (trace (snd (with_conn env cfg body s))) = held (trace s)"
    by (simp add: held_given_back)
qed

lemmas [keeps_rules] = keeps_for

lemma keeps_more_calls [keeps_rules]:
  assumes "\<And>s es. g (s\<lparr>trace := es\<rparr>) = g s"
  shows "keeps g (call_articles env c)" "keeps g (call_pairs env c)" "keeps g (call_counts env c)"
  using assms unfolding call_articles_def call_pairs_def call_counts_def
  by (auto intro!: keeps_rules split: reply.split)

section \<open>The programs\<close>

lemma write_lines_frame:
  "emits (\<lambda>e. \<not> is_conn e) (write_lines env out dumps xs)" "keeps c_pool (write_lines env out dumps xs)"
  by (auto simp: write_lines_def is_conn_def intro!: emits_rules keeps_rules)

lemma rag_body_frame:
  "emits (\<lambda>e. \<not> is_conn e) (rag_body env lb dumps job i)" "keeps c_pool (rag_body env lb dumps job i)"
  unfolding rag_body_def rag_row_def Let_def
  by (auto simp: is_conn_pair intro!: write_lines_frame emits_rules keeps_rules)

lemma doc_body_frame:
  "emits (\<lambda>e. \<not> is_conn e) (doc_body env dumps out q)" "keeps c_pool (doc_body env dumps out q)"
  unfolding doc_body_def by (auto simp: is_conn_pair intro!: write_lines_frame emits_rules keeps_rules)

lemma sft_body_frame:
  "emits (\<lambda>e. \<not> is_conn e) (sft_body env dumps out fmt q a)" "keeps c_pool (sft_body env dumps out fmt q a)"
  unfolding sft_body_def sft_row_def Let_def
  by (auto simp: is_conn_pair intro!: emits_rules keeps_rules split: option.split)

lemma balanced_rag: "balanced (export_chunks env lb cfg dumps parse print job)"
  unfolding export_chunks_def load_state_def save_state_def
  by (auto simp: is_conn_pair Let_def intro!: balance balanced_with_conn rag_body_frame split: state_json.split)

lemma balanced_corpus: "balanced (export_jsonl env cfg dumps out limit min_len min_score lang)"
  unfolding export_jsonl_def by (intro balanced_with_conn doc_body_frame)

lemma balanced_backfill: "balanced (backfill env lb cfg)"
  unfolding backfill_def backfill_body_def backfill_step_def
  by (auto simp: is_conn_pair Let_def intro!: balanced_with_conn emits_rules keeps_rules)

lemma balanced_probe: "balanced (probe env cfg limit)"
  unfolding probe_def by (auto simp: is_conn_pair intro!: balance balanced_with_conn emits_rules keeps_rules)

lemma balanced_counters:
  "balanced (get_counter env k)" "balanced (get_counters env k)" "balanced (pending_count env cfg)"
  unfolding get_counter_def get_counters_def pending_count_def
  by (auto simp: is_conn_pair intro!: balance split: reply.split)

lemma balanced_monitor: "balanced (monitor_main env cfg mc dumps n)"
proof -
  have body: "balanced (write_snapshot env cfg row)" "balanced (prune_old env cfg k False)" for row k
    unfolding write_snapshot_def prune_old_def prune_body_def
    by (auto simp: is_conn_pair intro!: balanced_with_conn emits_rules keeps_rules)
  have "balanced (read_state env cfg)"
    unfolding read_state_def
    by (auto simp: is_conn_pair intro!: balance balanced_counters split: reply.split)
  then have "balanced (monitor_turn env cfg mc dumps)"
    unfolding monitor_turn_def sample_turn_def snapshot_once_def
    by (auto simp: is_conn_pair intro!: balance body balanced_emits [OF emits_sleep])
  then have "balanced (monitor_loop env cfg mc dumps n)" by (induction n) (auto intro!: balance)
  then show ?thesis unfolding monitor_main_def by (auto intro!: balance)
qed

lemma balanced_app: "balanced (app env cfg d header req)"
proof -
  have conn: "balanced (with_conn env cfg (call_counts env (Query sql ps)))"
    "balanced (with_conn env cfg (bindP (call env (Query sql ps)) (\<lambda>r. case r of
       Labels ls \<Rightarrow> ret ls | _ \<Rightarrow> throw bad_reply)))"
    "balanced (with_conn env cfg (call_articles env (Query sql ps)))"
    "balanced (with_conn env cfg (articles_body env wp limit offset))"
    "balanced (with_conn env cfg (snapshots env hours))"
    "balanced (with_conn env cfg (run_search env q))" for sql ps wp limit offset hours q
    unfolding articles_body_def snapshots_def run_search_def
    by (auto simp: is_conn_pair intro!: balanced_with_conn emits_rules keeps_rules split: reply.split list.split)
  have "balanced (handler env cfg d req)"
    by (cases req)
      (auto simp: is_conn_pair Let_def file_response_def guarded_def checked_def api_daily_def api_health_def api_article_detail_def
        api_articles_def api_search_def summary_def lang_distribution_def source_distribution_def daily_def
        pipeline_def articles_def article_by_id_def health_def semantic_search_def search_throttle_def
        embed_query_cached_def embed_query_def query_counts_def query_labels_def
        intro!: balance balanced_counters conn split: reply.split list.split option.split exn.split)
  then show ?thesis by (auto simp: app_def auth_guard_def intro!: balance)
qed

lemma balanced_sft: "balanced (sft_main env cfg dumps xs :: ('z cworld_scheme, nat) prog)"
proof -
  have "balanced (export_sft env cfg dumps out fmt q a :: ('z cworld_scheme, nat) prog)" if "lower fmt \<in> {''alpaca'', ''sharegpt''}" for out fmt q a
  proof -
    have "export_sft env cfg dumps out fmt q a
        = (with_conn env cfg (sft_body env dumps out (lower fmt) q a) :: ('z cworld_scheme, nat) prog)"
      using that by (auto simp: export_sft_def with_conn_def Let_def)
    then show ?thesis using balanced_with_conn [OF sft_body_frame] by metis
  qed
  moreover have "lower fmt \<in> {''alpaca'', ''sharegpt''}"
    if "arg_choice xs ''--format'' ''alpaca'' [''alpaca'', ''sharegpt''] = Inr fmt" for fmt
  proof -
    have "fmt = ''alpaca'' \<or> fmt = ''sharegpt''"
      using that by (auto simp: arg_choice_def Let_def split: if_splits)
    moreover have "lower ''alpaca'' = ''alpaca''" "lower ''sharegpt'' = ''sharegpt''" by code_simp+
    ultimately show ?thesis by auto
  qed
  ultimately show ?thesis unfolding sft_main_def by (intro balanced_liftE) blast
qed

lemma sync_export_balanced: "balanced (sync_export env lb cfg io initial)"
proof -
  have "emits (\<lambda>e. \<not> is_conn e) (export_new_chunks env lb dumps i out)"
    "keeps c_pool (export_new_chunks env lb dumps i out)" for dumps i out
    unfolding export_new_chunks_def rag_row_def Let_def
    by (auto simp: is_conn_pair intro!: write_lines_frame emits_rules keeps_rules)
  moreover have "emits (\<lambda>e. \<not> is_conn e) (max_ingested env)" "keeps c_pool (max_ingested env)"
    unfolding max_ingested_def
    by (auto simp: is_conn_pair intro!: emits_rules keeps_rules split: list.split)
  ultimately show ?thesis
    unfolding sync_export_def by (auto intro!: balanced_with_conn emits_rules keeps_rules)
qed

lemma import_frame: "emits (\<lambda>e. \<not> is_conn e) (import_main env cfg io chunks vectors initial)"
  unfolding import_main_def import_body_def load_pairs_def index_exists_def build_index_def write_pairs_def
    copy_initial_def copy_step_def copy_rows_def
  by (auto simp: is_conn_pair Let_def intro!: emits_rules emits_upsert split: reply.split option.split)

lemma embed_frame: "emits (\<lambda>e. \<not> is_conn e) (embed_run env ec io chunks out url key model)"
  by (rule emits_mono [OF embed_plain plainD(1)])

lemma balanced_sync: "balanced (sync_main env lb cfg ec io initial)"
  unfolding sync_main_def
  by (auto intro!: balance sync_export_balanced balanced_emits [OF embed_frame] balanced_emits [OF import_frame])

text \<open>
  C8: Every program that takes connections from the pool gives them all back, whichever call
  fails and whatever it raises: the three exports, the probe, the backfill, the vector
  synchronisation, any number of turns of the monitor, and each request to the dashboard leave as
  many connections taken as they found.
\<close>

theorem programs_give_back:
  "held (trace (snd (export_main env cfg dd xs s))) = held (trace s)
   \<and> held (trace (snd (rag_main env lb cfg dc parse print xs s))) = held (trace s)
   \<and> held (trace (snd (sft_main env cfg ds xs s))) = held (trace s)
   \<and> held (trace (snd (probe_main env cfg xs s))) = held (trace s)
   \<and> held (trace (snd (backfill env lb cfg s))) = held (trace s)
   \<and> held (trace (snd (sync_script env lb cfg ec io xs s))) = held (trace s)
   \<and> held (trace (snd (monitor_main env cfg mc db n s1))) = held (trace s1)
   \<and> held (trace (snd (app env cfg d header req s2))) = held (trace s2)"
proof -
  have "balanced (export_main env cfg dd xs)" "balanced (rag_main env lb cfg dc parse print xs)"
    "balanced (probe_main env cfg xs)" "balanced (sync_script env lb cfg ec io xs)"
    unfolding export_main_def rag_main_def probe_main_def sync_script_def
    by (auto intro!: balance balanced_corpus balanced_rag balanced_probe balanced_sync)
  note balanced = this balanced_sft balanced_backfill balanced_monitor balanced_app
  show ?thesis by (intro conjI; use balanced in \<open>unfold keeps_def, fast\<close>)
qed

end
