(* ===== verification/Spec2Isabelle.thy ===== *)
theory Spec2Isabelle
  imports Failures Chunker Connections
begin

text \<open>
  A verification library for the Python half of the article crawler, \<open>py-processor/\<close>: all of
  its modules, translated function by function, with the theorems that make them correct and,
  where they are not, the executions that show it.

  \<^bold>\<open>The program.\<close> A crawler written in Go publishes articles, as JSON in a field of a message, on
  a Redis stream. The consumer (\<open>main.py\<close>) reads batches, fetches what has no content
  (\<open>fetcher.py\<close>), passes every text through the quality gate (\<open>quality.py\<close>), the language
  detector and the near-duplicate index (\<open>dedupe.py\<close>, \<open>neardup.py\<close>), stores the rest in
  PostgreSQL (\<open>store.py\<close>) and acknowledges the batch; what cannot be fetched or extracted is
  parked on a dead-letter stream, from which \<open>dlq_replay.py\<close> puts it back. On the stored
  articles work the exports (\<open>export.py\<close>, \<open>export_sft.py\<close>, \<open>rag_export.py\<close>, the last over
  \<open>chunker.py\<close>), the embedding of chunks and their import into a vector table
  (\<open>embed_chunks.py\<close>, \<open>import_pgvector.py\<close>, chained by \<open>sync_vectors.py\<close>), two tools
  (\<open>quality_probe.py\<close>, \<open>backfill_simhash.py\<close>), the monitor (\<open>monitor.py\<close>) and the dashboard
  with its search (\<open>dashboard/app.py\<close>, \<open>queries.py\<close>, \<open>rag_search.py\<close>).

  \<^bold>\<open>How it is modelled.\<close> A program is a function from a state to an exception or a result and a new
  state; the state it reached is kept when it raises, as in Python. \<open>bindP\<close>, \<open>tryP\<close>,
  \<open>finallyP\<close>, \<open>foldP\<close> and \<open>forP\<close> are sequencing, \<open>try/except\<close>, \<open>try/finally\<close> and the
  \<open>for\<close> loops. What is not code of the repository (Redis, PostgreSQL, HTTP servers, the file
  system, clocks, random numbers, the extractor, the language detector) is the parameter \<open>env\<close>,
  a function from all calls so far and the next call to its reply; the calls and replies are
  the \<open>trace\<close> in the state. So a theorem holds for every behaviour of the services unless it
  names a predicate on \<open>env\<close>; the pure libraries (JSON, digests) are the record \<open>lib\<close> or
  arguments of the definitions that use them. Integers are \<^typ>\<open>int\<close>, as Python's are unbounded.

  \<^bold>\<open>Theories.\<close>
  \<^item> Prelude: programs, exceptions, Hoare triples and their rules, counters.
  \<^item> PyStr, Regex: the string methods and the part of \<open>re\<close> the sources use, the latter as a
    backtracking matcher; soundness of the matcher and of the scan.
  \<^item> Effects: calls, replies, traces; what a program emits, what it keeps, what it never raises.
  \<^item> Config (\<open>config.py\<close>), Dedupe (\<open>dedupe.py\<close>), Neardup (\<open>neardup.py\<close>), Quality
    (\<open>quality.py\<close>), Chunker (\<open>chunker.py\<close>), Fetcher (\<open>fetcher.py\<close>), Store (\<open>store.py\<close>).
    Fingerprints are the bitwise majority; close ones share a band (locale \<open>banding_scheme\<close>,
    interpreted on \<open>band_keys\<close>), so the Redis index implements the abstract set of fingerprints up to
    distance 3; the limiter bounds the rate for every interleaving (locale \<open>rate_limiter\<close>,
    interpreted on \<open>bucket_step\<close>); a fetch returns what the server said; chunks lose no line.
  \<^item> Processor: \<open>main.py\<close> in its phases. Policy: the order of storing, indexing and
    acknowledging. Ledger: every message is accounted for and what reaches the database.
    Retry: two deliveries of a batch side by side. Failures: dead letters, and how one failed
    insertion loses the articles of a batch and one malformed payload stops the consumer and
    empties the pool.
  \<^item> Session: what the batch programs share (a connection for a block, files of one JSON object
    per line, command lines, placeholders of a statement).
  \<^item> Sft (\<open>export_sft.py\<close>): the file equals that of a reference definition; parsing inverts the
    composition of a document. Corpus (\<open>rag_export.py\<close>, \<open>export.py\<close>): incremental exports
    neither repeat nor lose an article. Replay (\<open>dlq_replay.py\<close>): the rounds drain the stream.
  \<^item> Embed (\<open>embed_chunks.py\<close>): a run accounts for every chunk and never pairs an identifier with
    a foreign vector. Pgvector (\<open>import_pgvector.py\<close>): the bulk import is complete, array
    literals are read back, the incremental import always fails. Sync (\<open>sync_vectors.py\<close>): so
    an incremental synchronisation writes nothing.
  \<^item> Monitor (\<open>monitor.py\<close>): changes telescope, every turn takes a fresh sample and pauses, whatever fails. Search
    (\<open>rag_search.py\<close>): gate and cache. Dashboard (\<open>queries.py\<close>): paging, the health panel.
    Webapp (\<open>app.py\<close>): the guard, the status codes, the advice of a 429. Tools
    (\<open>quality_probe.py\<close>, \<open>backfill_simhash.py\<close>): the histogram and the updates are exact.
  \<^item> Connections: every program with a pool gives back what it takes.
  \<^item> This theory: a dead letter, from \<open>push_dlq\<close> over the replay to the consumer's parser.

  \<^bold>\<open>Bounds and fuel.\<close> The loops that end are recursions over their lists or over the number of
  attempts the source fixes (\<open>FETCH_RETRIES\<close>, \<open>MAX_ATTEMPTS\<close>, \<open>--max-rounds\<close>). Only
  \<open>acquire\<close>, the recovery of pending messages and the reconnection take fuel, and running out is
  the result \<open>NoReturn\<close>; \<open>acquire_returns\<close> shows how many rounds are enough. The two services that never
  end by design, \<open>main_loop\<close> and \<open>monitor_loop\<close>, are run for a given number of turns, and the
  theorems hold for every number.

  \<^bold>\<open>What is abstracted.\<close> Characters above 255 are outside the model of strings. Ratios, scores
  and vectors are exact rationals; \<open>inf\<close> and \<open>nan\<close> are values where the code can meet them. The
  threads of \<open>fetch_many\<close> run one after another, their completion in any order; the locks of
  the limiter and of the search make their sections single steps. A server-side cursor is one
  query. The maximum of the connection pool is psycopg2's to enforce: it is an argument of the call
  that opens the pool and part of the law \<open>redelivers\<close>. The maximal length of a Redis stream is part of the call, but the predicate for working
  streams does not trim. A statement is its text and parameters: what PostgreSQL does with it is
  the environment's.

  \<^bold>\<open>Not modelled.\<close> The Go crawler (another program, known here through its messages only), the
  SQL schema, the page template, the tests; logging and progress lines, apart from the exceptions
  raised while a line is put together; the HTTP headers and the reuse of sessions in
  \<open>fetcher.py\<close>; help texts of the command lines; the routing of FastAPI beyond its documented
  checks of parameters.
\<close>

section \<open>Dead letters come back\<close>

text \<open>What a dead letter carries: the message, its article and why it was parked.\<close>

type_synonym parked = "string \<times> article \<times> string \<times> string"

definition dead_letter :: "lib \<Rightarrow> parked \<Rightarrow> fields" where
  "dead_letter lb p = (case p of (m, a, reason, detail) \<Rightarrow> (''stream_msg_id'', m) # dlq_fields lb a reason detail)"

text \<open>A message that was parked for the first time is the last entry of the dead-letter stream.\<close>

lemma push_dlq_parks:
  assumes "push_dlq env lb cfg m a reason detail s = (Inr True, s')" and up: "streams_up init env"
  shows "\<exists>i. stream_of init (trace s') (DLQ_STREAM cfg)
    = stream_of init (trace s) (DLQ_STREAM cfg) @ [(i, dead_letter lb (m, a, reason, detail))]"
proof -
  let ?c = "Xadd (DLQ_STREAM cfg) (Some (DLQ_MAXLEN cfg)) (dead_letter lb (m, a, reason, detail))"
  obtain r1 r2 r3 tr where tr: "trace s' = trace s @ [(Sismember (DLQ_SEEN_KEY cfg) m, r1),
      (Sadd (DLQ_SEEN_KEY cfg) m, r2), (?c, env tr ?c), (Incr dlq_metric, r3)]"
    using assms(1)
    by (auto simp: push_dlq_def dlq_script_def dead_letter_def tryP_def bindP_eq_Inr ret_def call_unit_Inr
        call_num_Inr split: prod.splits sum.splits if_splits)
  obtain i where "env tr ?c = Txt i" using up unfolding streams_up_def by blast
  with tr show ?thesis by (auto simp: stream_step_def)
qed

text \<open>What the consumer parses of a stream does not depend on the identifiers.\<close>

lemma parsed_payloads:
  "map snd (parse_messages lb ms) = concat (map (\<lambda>f. map snd (parse_message lb ([], f))) (payloads ms))"
  by (induction ms)
    (auto simp: parse_messages_def payloads_def parse_message_def split: option.split payload.split)

text \<open>The article of a dead letter survives the cut at 10,000 characters if it is short enough.\<close>

definition fits :: "lib \<Rightarrow> parked \<Rightarrow> bool" where
  "fits lb p = (case p of (m, a, reason, detail) \<Rightarrow>
     json_dumps lb a \<noteq> [] \<and> length (json_dumps lb a) \<le> 10000 \<and> json_loads lb (json_dumps lb a) = Obj a)"

lemma dead_letter_article:
  assumes "fits lb p"
  shows "article_of (i, dead_letter lb p) = json_dumps lb (fst (snd p))" "has_article (i, dead_letter lb p)"
    "printable lb (i, dead_letter lb p)"
    "map snd (parse_message lb ([], [(''article'', article_of (i, dead_letter lb p))])) = [Obj (fst (snd p))]"
  using assms
  by (auto simp: fits_def dead_letter_def dlq_fields_def article_of_def has_article_def printable_def entry_url_def
      parse_message_def Let_def split: prod.splits)

text \<open>
  C7: A dead letter comes back. On working streams, if each entry of the dead-letter stream is a
  parked message whose article's JSON has at most 10,000 characters (and is read back by the JSON
  library), then running the replay's loop with \<open>--delete\<close> for enough rounds, with an interval that is not negative, returns, empties the
  dead-letter stream, and has put onto the main stream exactly one message for each, in order, in
  which the consumer parses the very article that was parked.
\<close>

theorem dead_letters_return:
  assumes "streams_up init env" "STREAM cfg \<noteq> DLQ_STREAM cfg" "0 < batch" and interval: "0 \<le> interval"
    and dlq: "stream_of init (trace s) (DLQ_STREAM cfg) = zip ids (map (dead_letter lb) ps)"
      "length ids = length ps" "distinct ids"
    and fits: "\<forall>p \<in> set ps. fits lb p" and rounds: "length ps \<le> rounds * nat batch"
  shows "\<exists>s'. replay_loop env lb cfg batch interval True False rounds s = (Inr (), s')
    \<and> stream_of init (trace s') (DLQ_STREAM cfg) = []
    \<and> length (stream_of init (trace s') (STREAM cfg)) = length (stream_of init (trace s) (STREAM cfg)) + length ps
    \<and> map snd (parse_messages lb (stream_of init (trace s') (STREAM cfg)))
      = map snd (parse_messages lb (stream_of init (trace s) (STREAM cfg))) @ map (\<lambda>(m, a, _, _). Obj a) ps"
proof -
  let ?q = "zip ids (map (dead_letter lb) ps)"
  have entry: "\<exists>i p. m = (i, dead_letter lb p) \<and> fits lb p" if "m \<in> set ?q" for m
  proof -
    obtain i f where m: "m = (i, f)" by (cases m)
    with that have "f \<in> set (map (dead_letter lb) ps)" by (blast dest: set_zip_rightD)
    then obtain p where "p \<in> set ps" "f = dead_letter lb p" unfolding set_map by blast
    with m fits show ?thesis by blast
  qed
  have "distinct (map fst ?q)" using dlq(2,3) by simp
  moreover have "list_all has_article ?q" "list_all (printable lb) ?q"
    using entry dead_letter_article(2,3) unfolding list_all_iff by blast+
  moreover have "length ?q \<le> rounds * nat batch" using rounds dlq(2) by simp
  ultimately obtain s' where s': "replay_loop env lb cfg batch interval True False rounds s = (Inr (), s')"
    "stream_of init (trace s') (DLQ_STREAM cfg) = []"
    and added: "payloads (stream_of init (trace s') (STREAM cfg)) = payloads (stream_of init (trace s) (STREAM cfg))
        @ map (\<lambda>m. [(''article'', article_of m)]) ?q"
    using replay_loop_drains [OF assms(1-3), of s lb rounds interval] interval unfolding dlq(1) by blast
  have "concat (map (\<lambda>f. map snd (parse_message lb ([], f))) (map (\<lambda>m. [(''article'', article_of m)]) ?q))
      = map (\<lambda>(m, a, _, _). Obj a) ps"
    using dlq(2) fits dead_letter_article(4)
    by (induction ids ps rule: list_induct2) (auto simp del: map_map)
  then have "map snd (parse_messages lb (stream_of init (trace s') (STREAM cfg)))
      = map snd (parse_messages lb (stream_of init (trace s) (STREAM cfg))) @ map (\<lambda>(m, a, _, _). Obj a) ps"
    by (simp add: parsed_payloads added del: map_map)
  moreover have "length (stream_of init (trace s') (STREAM cfg))
      = length (stream_of init (trace s) (STREAM cfg)) + length ps"
    using arg_cong [OF added, of length] dlq(2) by (simp add: payloads_def)
  ultimately show ?thesis using s' by blast
qed

definition parked_article :: article where
  "parked_article = bare_article\<lparr>a_title := Some ''t''\<rparr>"

definition parked_lib :: lib where
  "parked_lib = dlq_lib\<lparr>json_dumps := (\<lambda>_. ''{}''), json_loads := (\<lambda>_. Obj parked_article)\<rparr>"

definition parked_one :: "string \<Rightarrow> message list" where
  "parked_one k = (if k = ''articles_dlq''
     then [(''1-0'', dead_letter parked_lib (''7-0'', parked_article, ''extract_fail'', ''u''))] else [])"

theorem dead_letters_return_witness:
  "\<exists>s'. replay_loop (streams_env parked_one) parked_lib default_config 300 900 True False 40 \<lparr>trace = []\<rparr> = (Inr (), s')
    \<and> map snd (parse_messages parked_lib (stream_of parked_one (trace s') ''articles'')) = [Obj parked_article]"
proof -
  have "STREAM default_config = ''articles''" "STREAM default_config \<noteq> DLQ_STREAM default_config"
    "DLQ_STREAM default_config = ''articles_dlq''"
    by code_simp+
  moreover have "fits parked_lib (''7-0'', parked_article, ''extract_fail'', ''u'')" by code_simp
  moreover have "stream_of parked_one [] ''articles'' = []" by code_simp
  ultimately show ?thesis
    using dead_letters_return [OF streams_env_up, where s = "\<lparr>trace = []\<rparr>" and batch = 300 and rounds = 40
        and cfg = default_config and lb = parked_lib and init = parked_one and interval = 900
        and ids = "[''1-0'']" and ps = "[(''7-0'', parked_article, ''extract_fail'', ''u'')]"]
    by (auto simp: stream_of_def parked_one_def parse_messages_def)
qed

end
